(* ===== verification/Prelude.thy ===== *)
theory Prelude
  imports Complex_Main "HOL-Library.Word" "HOL-Library.List_Lexorder" "HOL-Library.Char_ord"
begin

text \<open>
  Shared vocabulary of the development: the exceptions of the Python program as one datatype, the
  result type every fallible function returns, the names of the basic types, and the generic facts
  on lists, options and sums that the component theories use.

  Python's \<^verbatim>\<open>str\<close> is a HOL \<open>string\<close>: a list of characters whose code points are 0 to 255
  (Latin-1). \<^verbatim>\<open>bytes\<close> is a list of 8-bit words. Python's unbounded \<^verbatim>\<open>int\<close> is \<open>int\<close>.
\<close>

named_theorems text_simps \<open>evaluation of the Python text functions\<close>
named_theorems sql_simps \<open>rewrite rules of the SQL statements\<close>

type_synonym byte = "8 word"
type_synonym bytes = "byte list"

section \<open>Exceptions as values\<close>

text \<open>
  The reasons \<^verbatim>\<open>utils/field_encryption.py\<close> raises \<^verbatim>\<open>FieldEncryptionConfigError\<close> or
  \<^verbatim>\<open>FieldDecryptionError\<close> for: one constructor per message, with the values the message quotes.
\<close>

datatype config_error =
    KeysRequired
  | ActiveKeyIdRequired
  | EmptyKeyEntry
  | EntryNotKeyIdColonKey
  | InvalidKeyId string
  | DuplicateKeyId string
  | KeyNotBase64 string
  | KeyWrongLength string
  | DuplicateKeyMaterial string string
  | ActiveKeyIdNotPresent string
  | EncryptionKeyNotConfigured string

datatype decryption_error =
    NotAnEnvelope
  | MalformedEnvelope
  | UnknownKeyId string
  | EnvelopeNotBase64
  | WrongNonceLength
  | AuthenticationFailed
  | FieldNotEncrypted
  | JsonFieldNotEncrypted
  | InvalidJson

text \<open>
  The exceptions that can leave a function of the program. The last nine are psycopg's; its
  \<open>OperationalError\<close> is what a lost connection or an exhausted pool raises.
\<close>

datatype exn =
    ValueError string
  | TypeError
  | OverflowError
  | KeyError
  | RuntimeError string
  | BinasciiError
  | UnicodeEncodeError
  | UnicodeDecodeError
  | FieldEncryptionConfigError config_error
  | FieldDecryptionError decryption_error
  | HTTPForbidden string
  | HTTPRequestEntityTooLarge
  | AttributeError
  | UndefinedTable
  | UndefinedColumn
  | WrongObjectType
  | DependentObjectsStillExist
  | DataError
  | CheckViolation
  | UniqueViolation
  | ForeignKeyViolation
  | OperationalError

type_synonym 'a result = "exn + 'a"

fun is_ok :: "'a result \<Rightarrow> bool" where
  "is_ok (Inl e) = False"
| "is_ok (Inr x) = True"

section \<open>Lists and options\<close>

text \<open>Python's truthiness of an optional string: \<open>None\<close> and the empty string are false.\<close>

fun truthy :: "string option \<Rightarrow> bool" where
  "truthy None = False"
| "truthy (Some s) = (s \<noteq> [])"

lemma truthy_iff: "truthy v \<longleftrightarrow> (\<exists>s. v = Some s \<and> s \<noteq> [])"
  by (cases v) auto

text \<open>Python's \<^verbatim>\<open>xs[:n]\<close>, where a negative \<open>n\<close> counts from the end.\<close>

definition slice_to :: "'a list \<Rightarrow> int \<Rightarrow> 'a list" where
  "slice_to xs n = (if n < 0 then take (length xs - nat (- n)) xs else take (nat n) xs)"

lemma slice_to_nonneg [simp]: "0 \<le> n \<Longrightarrow> slice_to xs n = take (nat n) xs"
  by (simp add: slice_to_def)

lemma find_Some_iff_unique:
  assumes "distinct (map k xs)"
  shows "List.find (\<lambda>x. k x = i) xs = Some x \<longleftrightarrow> x \<in> set xs \<and> k x = i"
  using assms by (induction xs) (auto split: if_splits)

lemma find_None_iff_key: "List.find (\<lambda>x. k x = i) xs = None \<longleftrightarrow> i \<notin> k ` set xs"
  by (induction xs) auto

lemma find_SomeD: "List.find P xs = Some x \<Longrightarrow> x \<in> set xs \<and> P x"
  by (induction xs) (auto split: if_splits)

lemma find_map_update:
  assumes "\<And>x. k (f x) = k x"
  shows "List.find (\<lambda>x. k x = i) (map (\<lambda>x. if k x = j then f x else x) xs)
    = (if i = j then map_option f (List.find (\<lambda>x. k x = i) xs)
       else List.find (\<lambda>x. k x = i) xs)"
  using assms by (induction xs) auto

lemma map_key_update:
  "(\<And>x. k (f x) = k x) \<Longrightarrow> map k (map (\<lambda>x. if P x then f x else x) xs) = map k xs"
  by (induction xs) auto

lemma map_update_cong:
  "(\<And>x. x \<in> set xs \<Longrightarrow> P x \<Longrightarrow> g (f x) = g x) \<Longrightarrow>
    map g (map (\<lambda>x. if P x then f x else x) xs) = map g xs"
  by (induction xs) auto

lemma distinct_map_filter_key: "distinct (map k xs) \<Longrightarrow> distinct (map k (filter P xs))"
  by (induction xs) auto

lemma strict_mono_take_last:
  assumes "sorted_wrt (<) (map k xs)" "n < length xs" "0 < n"
  shows "\<forall>x \<in> set (drop n xs). k (last (take n xs)) < (k x :: int)"
proof -
  have split: "xs = take n xs @ drop n xs" by simp
  have ne: "take n xs \<noteq> []" using assms(2,3) by auto
  have "sorted_wrt (<) (map k (take n xs) @ map k (drop n xs))"
    using assms(1) by (metis append_take_drop_id map_append)
  then have "\<forall>x \<in> set (take n xs). \<forall>y \<in> set (drop n xs). k x < k y"
    by (simp add: sorted_wrt_append)
  with ne show ?thesis by (meson last_in_set)
qed

end
