(* ===== verification/Py_Text.thy ===== *)
theory Py_Text
  imports Prelude
begin

text \<open>
  The functions of Python's \<^verbatim>\<open>str\<close>, \<^verbatim>\<open>int\<close> and \<^verbatim>\<open>re\<close> that the program calls, on the characters of
  the model (code points 0 to 255): \<^verbatim>\<open>strip\<close>, \<^verbatim>\<open>lower\<close>, \<^verbatim>\<open>split\<close>, \<^verbatim>\<open>startswith\<close>, \<^verbatim>\<open>replace(a, b, 1)\<close>,
  \<^verbatim>\<open>join\<close>, \<^verbatim>\<open>int(text)\<close>, \<^verbatim>\<open>str(int)\<close>, the UTF-8 codec, and the two regular expressions of
  \<^verbatim>\<open>api/fingerprints.py\<close> and \<^verbatim>\<open>utils/field_encryption.py\<close>.
\<close>

abbreviation ord :: "char \<Rightarrow> nat" where
  "ord c \<equiv> of_char c"

lemma ord_lt_256 [simp]: "ord c < 256"
  by (metis of_char_mod_256 mod_less_divisor zero_less_numeral)

lemma ord_char_of [simp]: "n < 256 \<Longrightarrow> ord (char_of n) = n"
  by (simp add: of_char_of)

section \<open>Whitespace and case\<close>

text \<open>\<^verbatim>\<open>str.isspace\<close> on one character.\<close>

definition is_space :: "char \<Rightarrow> bool" where
  "is_space c \<longleftrightarrow> (let n = ord c in
     (9 \<le> n \<and> n \<le> 13) \<or> (28 \<le> n \<and> n \<le> 32) \<or> n = 133 \<or> n = 160)"

definition lstrip :: "string \<Rightarrow> string" where
  "lstrip s = dropWhile is_space s"

definition rstrip :: "string \<Rightarrow> string" where
  "rstrip s = rev (dropWhile is_space (rev s))"

definition strip :: "string \<Rightarrow> string" where
  "strip s = rstrip (lstrip s)"

definition lower_char :: "char \<Rightarrow> char" where
  "lower_char c = (let n = ord c in
     if (65 \<le> n \<and> n \<le> 90) \<or> (192 \<le> n \<and> n \<le> 222 \<and> n \<noteq> 215) then char_of (n + 32) else c)"

definition lower :: "string \<Rightarrow> string" where
  "lower s = map lower_char s"

lemma lower_append [simp]: "lower (s @ t) = lower s @ lower t"
  by (simp add: lower_def)

lemma length_lower [simp]: "length (lower s) = length s"
  by (simp add: lower_def)

lemma last_rstrip: "rstrip s \<noteq> [] \<Longrightarrow> \<not> is_space (last (rstrip s))"
  by (metis rstrip_def hd_dropWhile last_rev rev_is_Nil_conv)

lemma last_strip: "strip s \<noteq> [] \<Longrightarrow> \<not> is_space (last (strip s))"
  by (simp add: strip_def last_rstrip)

lemma dropWhile_append_rstrip: "\<exists>ws. s = rstrip s @ ws \<and> list_all is_space ws"
proof -
  have "s = rstrip s @ rev (takeWhile is_space (rev s))"
    unfolding rstrip_def by (metis rev_append rev_rev_ident takeWhile_dropWhile_id)
  moreover have "list_all is_space (rev (takeWhile is_space (rev s)))"
    by (auto simp: list_all_iff dest: set_takeWhileD)
  ultimately show ?thesis by blast
qed

lemma hd_rstrip: "rstrip s \<noteq> [] \<Longrightarrow> hd (rstrip s) = hd s"
  by (metis dropWhile_append_rstrip hd_append2)

lemma hd_strip: "strip s \<noteq> [] \<Longrightarrow> \<not> is_space (hd (strip s))"
proof -
  assume ne: "strip s \<noteq> []"
  then have "hd (strip s) = hd (lstrip s)" by (simp add: strip_def hd_rstrip)
  moreover have "lstrip s \<noteq> []" using ne by (auto simp: strip_def rstrip_def)
  ultimately show ?thesis by (metis hd_dropWhile lstrip_def)
qed

lemma strip_id:
  assumes "s = [] \<or> (\<not> is_space (hd s) \<and> \<not> is_space (last s))"
  shows "strip s = s"
proof (cases "s = []")
  case True
  then show ?thesis by (simp add: strip_def lstrip_def rstrip_def)
next
  case False
  with assms have h: "\<not> is_space (hd s)" and l: "\<not> is_space (last s)" by auto
  have "lstrip s = s" using False h by (cases s) (auto simp: lstrip_def)
  moreover have "dropWhile is_space (rev s) = rev s"
    using False l by (metis dropWhile_eq_self_iff hd_rev)
  ultimately show ?thesis by (simp add: strip_def rstrip_def)
qed

lemma strip_idem [simp]: "strip (strip s) = strip s"
  by (rule strip_id) (auto simp: hd_strip last_strip)

lemma set_strip: "set (strip s) \<subseteq> set s"
  unfolding strip_def lstrip_def rstrip_def by (auto dest!: set_dropWhileD)

text \<open>Lower-casing never makes a space, nor hides one.\<close>

lemma is_space_lower_char [simp]: "is_space (lower_char c) = is_space c"
  by (auto simp: is_space_def lower_char_def Let_def)

section \<open>Splitting and joining\<close>

text \<open>\<^verbatim>\<open>s.split(sep)\<close> for a one-character separator; the result is never empty.\<close>

fun split_all :: "char \<Rightarrow> string \<Rightarrow> string list" where
  "split_all d [] = [[]]"
| "split_all d (c # s) =
     (if c = d then [] # split_all d s
      else (case split_all d s of [] \<Rightarrow> [[c]] | p # ps \<Rightarrow> (c # p) # ps))"

text \<open>\<^verbatim>\<open>s.split(sep, n)\<close>: at most \<open>n\<close> splits, the rest stays whole.\<close>

fun split_max :: "char \<Rightarrow> nat \<Rightarrow> string \<Rightarrow> string list" where
  "split_max d 0 s = [s]"
| "split_max d (Suc n) s =
     (case dropWhile (\<lambda>c. c \<noteq> d) s of
        [] \<Rightarrow> [s]
      | _ # rest \<Rightarrow> takeWhile (\<lambda>c. c \<noteq> d) s # split_max d n rest)"

lemma split_max_cons:
  assumes "d \<notin> set p"
  shows "split_max d (Suc n) (p @ d # rest) = p # split_max d n rest"
proof -
  have "dropWhile (\<lambda>c. c \<noteq> d) (p @ d # rest) = d # rest"
    using assms by (induction p) auto
  moreover have "takeWhile (\<lambda>c. c \<noteq> d) (p @ d # rest) = p"
    using assms by (induction p) auto
  ultimately show ?thesis by simp
qed

lemma split_all_no_sep: "d \<notin> set s \<Longrightarrow> split_all d s = [s]"
  by (induction s) auto

lemma split_all_nonempty [simp]: "split_all d s \<noteq> []"
  by (induction s) (auto split: list.splits)

definition startswith :: "string \<Rightarrow> string \<Rightarrow> bool" where
  "startswith s p \<longleftrightarrow> take (length p) s = p"

lemma startswith_append [simp]: "startswith (p @ s) p"
  by (simp add: startswith_def)

lemma startswith_iff: "startswith s p \<longleftrightarrow> (\<exists>t. s = p @ t)"
  by (metis append_eq_conv_conj append_take_drop_id startswith_def)

text \<open>\<^verbatim>\<open>s.replace(old, new, 1)\<close>: the first occurrence of a non-empty \<open>old\<close>.\<close>

fun replace_first :: "string \<Rightarrow> string \<Rightarrow> string \<Rightarrow> string" where
  "replace_first old new [] = []"
| "replace_first old new (c # s) =
     (if startswith (c # s) old then new @ drop (length old) (c # s)
      else c # replace_first old new s)"

section \<open>Decimal integers\<close>

definition is_digit :: "char \<Rightarrow> bool" where
  "is_digit c \<longleftrightarrow> 48 \<le> ord c \<and> ord c \<le> 57"

text \<open>
  The body of an integer literal as \<^verbatim>\<open>int()\<close> reads it: digits, with single underscores between
  digits. The first argument is the value so far, the second says whether the last character
  was a digit.
\<close>

fun digits_value :: "nat \<Rightarrow> bool \<Rightarrow> string \<Rightarrow> nat option" where
  "digits_value acc after_digit [] = (if after_digit then Some acc else None)"
| "digits_value acc after_digit (c # s) =
     (if is_digit c then digits_value (acc * 10 + (ord c - 48)) True s
      else if c = CHR ''_'' \<and> after_digit then digits_value acc False s
      else None)"

text \<open>CPython refuses to convert more than 4300 digits (\<^verbatim>\<open>sys.int_info.default_max_str_digits\<close>).\<close>

definition MAX_STR_DIGITS :: nat where
  "MAX_STR_DIGITS = 4300"

definition unsigned_value :: "string \<Rightarrow> nat option" where
  "unsigned_value s =
     (if length (filter is_digit s) > MAX_STR_DIGITS then None else digits_value 0 False s)"

text \<open>\<^verbatim>\<open>int(text)\<close>; \<open>None\<close> stands for the \<^verbatim>\<open>ValueError\<close>.\<close>

definition py_int :: "string \<Rightarrow> int option" where
  "py_int s =
     (case strip s of
        [] \<Rightarrow> None
      | c # rest \<Rightarrow>
          if c = CHR ''-'' then map_option (\<lambda>n. - int n) (unsigned_value rest)
          else if c = CHR ''+'' then map_option int (unsigned_value rest)
          else map_option int (unsigned_value (c # rest)))"

fun nat_str :: "nat \<Rightarrow> string" where
  "nat_str n = (if n < 10 then [char_of (48 + n)] else nat_str (n div 10) @ [char_of (48 + n mod 10)])"

declare nat_str.simps [simp del]

text \<open>\<^verbatim>\<open>str(n)\<close>.\<close>

definition int_str :: "int \<Rightarrow> string" where
  "int_str n = (if n < 0 then CHR ''-'' # nat_str (nat (- n)) else nat_str (nat n))"

lemma nat_str_digits: "list_all is_digit (nat_str n)"
proof (induction n rule: nat_str.induct)
  case (1 n)
  have "is_digit (char_of (48 + n mod 10))" and "n < 10 \<Longrightarrow> is_digit (char_of (48 + n))"
    by (auto simp: is_digit_def)
  with 1 show ?case by (subst nat_str.simps) simp
qed

lemma nat_str_nonempty [simp]: "nat_str n \<noteq> []"
  by (subst nat_str.simps) simp

lemma digits_value_append:
  "list_all is_digit s \<Longrightarrow> s \<noteq> [] \<Longrightarrow>
    digits_value acc b (s @ t) = digits_value (fold (\<lambda>c a. a * 10 + (ord c - 48)) s acc) True t"
  by (induction s arbitrary: acc b) (auto, metis digits_value.simps append_Nil fold_simps(1))

lemma fold_nat_str: "fold (\<lambda>c a. a * 10 + (ord c - 48)) (nat_str n) 0 = n"
proof (induction n rule: nat_str.induct)
  case (1 n)
  show ?case
  proof (cases "n < 10")
    case True
    then show ?thesis by (subst nat_str.simps) simp
  next
    case False
    with 1 show ?thesis by (subst nat_str.simps) simp
  qed
qed

lemma digits_value_nat_str: "digits_value 0 False (nat_str n) = Some n"
  using digits_value_append [of "nat_str n" 0 False "[]"] nat_str_digits [of n]
  by (simp add: fold_nat_str)

lemma digit_not_space: "is_digit c \<Longrightarrow> \<not> is_space c"
  by (auto simp: is_digit_def is_space_def Let_def)

lemma strip_nat_str: "strip (nat_str n) = nat_str n"
  using nat_str_digits [of n]
  by (intro strip_id) (auto simp: list_all_iff digit_not_space)

lemma py_int_nat_str:
  assumes "length (nat_str n) \<le> MAX_STR_DIGITS"
  shows "py_int (nat_str n) = Some (int n)"
proof -
  obtain c rest where s: "nat_str n = c # rest"
    by (cases "nat_str n") auto
  have dig: "is_digit c" using nat_str_digits [of n] s by simp
  have all: "filter is_digit (nat_str n) = nat_str n"
    using nat_str_digits [of n] by (simp add: list_all_iff)
  have "unsigned_value (c # rest) = Some n"
    using assms all digits_value_nat_str [of n] s by (simp add: unsigned_value_def)
  moreover have "c \<noteq> CHR ''-'' \<and> c \<noteq> CHR ''+''" using dig by (auto simp: is_digit_def)
  ultimately show ?thesis using strip_nat_str [of n] s by (simp add: py_int_def)
qed

section \<open>The UTF-8 codec\<close>

definition is_ascii :: "string \<Rightarrow> bool" where
  "is_ascii s \<longleftrightarrow> list_all (\<lambda>c. ord c < 128) s"

fun utf8_char :: "char \<Rightarrow> bytes" where
  "utf8_char c =
     (let n = ord c in
      if n < 128 then [word_of_nat n]
      else [word_of_nat (192 + n div 64), word_of_nat (128 + n mod 64)])"

definition utf8_encode :: "string \<Rightarrow> bytes" where
  "utf8_encode s = concat (map utf8_char s)"

text \<open>
  Decoding fails (\<^verbatim>\<open>UnicodeDecodeError\<close>) on a byte sequence that is not UTF-8; a sequence that
  encodes a code point above 255 has no text in the model and fails as well.
\<close>

fun utf8_decode :: "bytes \<Rightarrow> string option" where
  "utf8_decode [] = Some []"
| "utf8_decode (b # bs) =
     (if unat b < 128 then map_option ((#) (char_of (unat b))) (utf8_decode bs)
      else if unat b = 194 \<or> unat b = 195 then
        (case bs of
           [] \<Rightarrow> None
         | b2 # rest \<Rightarrow>
             if 128 \<le> unat b2 \<and> unat b2 < 192
             then map_option ((#) (char_of ((unat b - 192) * 64 + (unat b2 - 128)))) (utf8_decode rest)
             else None)
      else None)"

lemma unat_byte: "n < 256 \<Longrightarrow> unat (word_of_nat n :: byte) = n"
  by (simp add: unat_of_nat)

lemma utf8_decode_one:
  "unat b < 128 \<Longrightarrow> utf8_decode (b # bs) = map_option ((#) (char_of (unat b))) (utf8_decode bs)"
  by (cases bs) (simp_all only: utf8_decode.simps if_True)

lemma utf8_decode_two:
  assumes "unat b = 194 \<or> unat b = 195" and "128 \<le> unat b2" and "unat b2 < 192"
  shows "utf8_decode (b # b2 # bs)
    = map_option ((#) (char_of ((unat b - 192) * 64 + (unat b2 - 128)))) (utf8_decode bs)"
  using assms by auto

lemma two_byte_split:
  assumes "(n::nat) < 256" "\<not> n < 128"
  shows "(n div 64 = 2 \<or> n div 64 = 3) \<and> n mod 64 < 64 \<and> n div 64 * 64 + n mod 64 = n"
proof -
  have "128 div 64 \<le> n div 64" using assms by (intro div_le_mono) simp
  moreover have "n div 64 < 4" using assms by (simp add: less_mult_imp_div_less)
  ultimately show ?thesis by auto
qed

lemma utf8_decode_char: "utf8_decode (utf8_char c @ bs) = map_option ((#) c) (utf8_decode bs)"
proof (cases "ord c < 128")
  case True
  define b :: byte where "b = word_of_nat (ord c)"
  have u: "unat b = ord c" unfolding b_def by (rule unat_byte) simp
  have "utf8_char c = [b]" using True by (simp add: b_def Let_def)
  then show ?thesis using True u by (simp add: utf8_decode_one)
next
  case False
  have lt: "ord c < 256" by simp
  define q r where "q = ord c div 64" and "r = ord c mod 64"
  have q: "q = 2 \<or> q = 3" and r: "r < 64" and c: "q * 64 + r = ord c"
    using two_byte_split [OF lt] False unfolding q_def r_def by simp_all
  define b b2 :: byte where "b = word_of_nat (192 + q)" and "b2 = word_of_nat (128 + r)"
  have u: "unat b = 192 + q" and u2: "unat b2 = 128 + r"
    unfolding b_def b2_def using q r by (subst unat_byte; linarith)+
  have "utf8_char c = [b, b2]"
    using False by (simp add: b_def b2_def q_def r_def Let_def)
  moreover have "utf8_decode (b # b2 # bs)
      = map_option ((#) (char_of (q * 64 + r))) (utf8_decode bs)"
    using utf8_decode_two [of b b2 bs] q r u u2 by auto
  ultimately show ?thesis by (simp add: c)
qed

lemma utf8_roundtrip: "utf8_decode (utf8_encode s) = Some s"
proof (induction s)
  case Nil
  then show ?case by (simp add: utf8_encode_def)
next
  case (Cons c s)
  have "utf8_encode (c # s) = utf8_char c @ utf8_encode s" by (simp add: utf8_encode_def)
  then show ?case using Cons by (simp add: utf8_decode_char del: utf8_char.simps)
qed

section \<open>Regular expressions\<close>

definition is_lower_hex :: "char \<Rightarrow> bool" where
  "is_lower_hex c \<longleftrightarrow> (48 \<le> ord c \<and> ord c \<le> 57) \<or> (97 \<le> ord c \<and> ord c \<le> 102)"

text \<open>
  \<^verbatim>\<open>re.compile(r"^[0-9a-f]{16}$").match(s)\<close>. Python's \<^verbatim>\<open>$\<close> also matches before a newline at the
  very end of the text, so a seventeenth character is allowed when it is a newline.
\<close>

definition PHASH_RE_match :: "string \<Rightarrow> bool" where
  "PHASH_RE_match s \<longleftrightarrow>
     length (take 16 s) = 16 \<and> list_all is_lower_hex (take 16 s)
     \<and> (drop 16 s = [] \<or> drop 16 s = [char_of (10::nat)])"

definition is_key_id_char :: "char \<Rightarrow> bool" where
  "is_key_id_char c \<longleftrightarrow> (let n = ord c in
     (65 \<le> n \<and> n \<le> 90) \<or> (97 \<le> n \<and> n \<le> 122) \<or> (48 \<le> n \<and> n \<le> 57)
     \<or> n = 95 \<or> n = 46 \<or> n = 45)"

text \<open>\<^verbatim>\<open>re.compile(r"^[A-Za-z0-9_.-]{1,64}$").fullmatch(s)\<close>: the whole text, no newline.\<close>

definition KEY_ID_RE_fullmatch :: "string \<Rightarrow> bool" where
  "KEY_ID_RE_fullmatch s \<longleftrightarrow> 1 \<le> length s \<and> length s \<le> 64 \<and> list_all is_key_id_char s"

lemma key_id_char_bounds: "is_key_id_char c \<Longrightarrow> 45 \<le> ord c \<and> ord c \<le> 122"
  unfolding is_key_id_char_def Let_def by (elim disjE) simp_all

lemma is_space_bounds: "is_space c \<Longrightarrow> ord c \<le> 32 \<or> 133 \<le> ord c"
  unfolding is_space_def Let_def by (elim disjE) simp_all

lemma key_id_char_not_space: "is_key_id_char c \<Longrightarrow> \<not> is_space c"
  using key_id_char_bounds [of c] is_space_bounds [of c] by linarith

lemma key_id_no_sep:
  assumes "KEY_ID_RE_fullmatch s"
  shows "CHR '':'' \<notin> set s" and "CHR '','' \<notin> set s" and "s \<noteq> []" and "strip s = s"
proof -
  show "CHR '':'' \<notin> set s" and "CHR '','' \<notin> set s"
    using assms by (auto simp: KEY_ID_RE_fullmatch_def list_all_iff is_key_id_char_def Let_def)
  show ne: "s \<noteq> []" using assms by (auto simp: KEY_ID_RE_fullmatch_def)
  have "\<And>c. c \<in> set s \<Longrightarrow> \<not> is_space c"
    using assms key_id_char_not_space by (auto simp: KEY_ID_RE_fullmatch_def list_all_iff)
  with ne show "strip s = s" by (intro strip_id) simp
qed

end
