(* ===== verification/Database.thy ===== *)
theory Database
  imports Py_Text
begin

text \<open>
  The schema of \<^verbatim>\<open>alembic/versions/0001_init.py\<close>: one record per table row, the four tables with
  their identity sequences and the \<^verbatim>\<open>fingerprints_sync_seq\<close> sequence as one database state, the
  constraints the tables declare as the invariant \<open>db_ok\<close>, and the SQL statement forms the stores
  execute (lookup, update by key, insert with its constraint checks, delete with cascade) as
  functions on the state. A transaction that fails restores the tables; sequences never go back.
\<close>

section \<open>Rows\<close>

datatype status = Active | Hidden | Deleted

fun status_text :: "status \<Rightarrow> string" where
  "status_text Active = ''active''"
| "status_text Hidden = ''hidden''"
| "status_text Deleted = ''deleted''"

lemma status_text_inject [simp]: "status_text s = status_text t \<longleftrightarrow> s = t"
  by (cases s; cases t) simp_all

record consumer_row =
  cons_id :: int
  cons_name :: string
  cons_api_key_hash :: string
  cons_scopes :: "string list"
  cons_enabled :: bool
  cons_created_at_ms :: int
  cons_last_seen_at_ms :: "int option"

record fingerprint_row =
  fp_id :: int
  fp_sync_seq :: int
  fp_phash_hex :: string
  fp_algorithm :: string
  fp_algorithm_version :: string
  fp_normalization_version :: string
  fp_category :: string
  fp_action :: string
  fp_consumer_id :: int
  fp_source_guild_id :: "string option"
  fp_reason :: "string option"
  fp_source_url :: "string option"
  fp_added_at_ms :: int
  fp_updated_at_ms :: int
  fp_hit_count :: int
  fp_last_hit_at_ms :: "int option"
  fp_auto_added :: bool
  fp_provenance :: string
  fp_status :: status
  fp_flag_count :: int

record hit_row =
  hit_id :: int
  hit_fingerprint_id :: int
  hit_consumer_id :: int
  hit_guild_id :: "string option"
  hit_distance :: "int option"
  hit_at_ms :: int

record flag_row =
  flag_id :: int
  flag_fingerprint_id :: int
  flag_consumer_id :: int
  flag_reason :: "string option"
  flag_created_at_ms :: int

section \<open>The database state\<close>

text \<open>Each sequence field holds the value its next \<^verbatim>\<open>nextval\<close> returns.\<close>

record db =
  consumers :: "consumer_row list"
  fingerprints :: "fingerprint_row list"
  fingerprint_hits :: "hit_row list"
  fingerprint_flags :: "flag_row list"
  consumers_id_seq :: int
  fingerprints_id_seq :: int
  hits_id_seq :: int
  flags_id_seq :: int
  fingerprints_sync_seq :: int

definition empty_db :: db where
  "empty_db = \<lparr>consumers = [], fingerprints = [], fingerprint_hits = [], fingerprint_flags = [],
     consumers_id_seq = 1, fingerprints_id_seq = 1, hits_id_seq = 1, flags_id_seq = 1,
     fingerprints_sync_seq = 1\<rparr>"

text \<open>What psycopg and Postgres accept as a parameter of each SQL type.\<close>

definition pg_text :: "string \<Rightarrow> bool" where
  "pg_text s \<longleftrightarrow> char_of (0::nat) \<notin> set s"

lemma char_of_0_eq: "char_of (0::nat) = c \<longleftrightarrow> ord c = (0::nat)"
  by (metis char_of_char of_char_of mod_0)

lemma pg_text_code [sql_simps]: "pg_text s \<longleftrightarrow> list_all (\<lambda>c. (0::nat) < ord c) s"
  unfolding pg_text_def list_all_iff by (metis char_of_0_eq gr0I less_irrefl)

definition pg_integer :: "int \<Rightarrow> bool" where
  "pg_integer n \<longleftrightarrow> - (2 ^ 31) \<le> n \<and> n < 2 ^ 31"

definition pg_row_count :: "int \<Rightarrow> bool" where
  "pg_row_count n \<longleftrightarrow> 0 \<le> n \<and> n < 2 ^ 63"

definition VALID_ACTIONS :: "string list" where
  "VALID_ACTIONS = [''kick'', ''timeout'']"

definition VALID_CATEGORIES :: "string list" where
  "VALID_CATEGORIES = [''scam'', ''nsfw'', ''crypto'', ''phishing'', ''other'']"

definition VALID_SCOPES :: "string list" where
  "VALID_SCOPES = [''read'', ''write'', ''admin'']"

section \<open>The declared constraints\<close>

definition consumers_ok :: "db \<Rightarrow> bool" where
  "consumers_ok db \<longleftrightarrow>
     distinct (map cons_id (consumers db)) \<and> distinct (map cons_name (consumers db))
     \<and> distinct (map cons_api_key_hash (consumers db))
     \<and> (\<forall>c \<in> set (consumers db). cons_id c < consumers_id_seq db
          \<and> set (cons_scopes c) \<subseteq> set VALID_SCOPES)"

definition fingerprints_ok :: "db \<Rightarrow> bool" where
  "fingerprints_ok db \<longleftrightarrow>
     distinct (map fp_id (fingerprints db)) \<and> distinct (map fp_sync_seq (fingerprints db))
     \<and> distinct (map (\<lambda>r. (fp_phash_hex r, fp_consumer_id r)) (fingerprints db))
     \<and> (\<forall>r \<in> set (fingerprints db). fp_id r < fingerprints_id_seq db
          \<and> fp_sync_seq r < fingerprints_sync_seq db
          \<and> fp_consumer_id r \<in> cons_id ` set (consumers db)
          \<and> fp_action r \<in> set VALID_ACTIONS \<and> fp_category r \<in> set VALID_CATEGORIES
          \<and> 0 \<le> fp_hit_count r \<and> 0 \<le> fp_flag_count r)"

definition hits_ok :: "db \<Rightarrow> bool" where
  "hits_ok db \<longleftrightarrow>
     distinct (map hit_id (fingerprint_hits db))
     \<and> (\<forall>h \<in> set (fingerprint_hits db). hit_id h < hits_id_seq db
          \<and> hit_fingerprint_id h \<in> fp_id ` set (fingerprints db)
          \<and> hit_consumer_id h \<in> cons_id ` set (consumers db)
          \<and> pred_option pg_integer (hit_distance h))"

definition flags_ok :: "db \<Rightarrow> bool" where
  "flags_ok db \<longleftrightarrow>
     distinct (map flag_id (fingerprint_flags db))
     \<and> distinct (map (\<lambda>f. (flag_fingerprint_id f, flag_consumer_id f)) (fingerprint_flags db))
     \<and> (\<forall>f \<in> set (fingerprint_flags db). flag_id f < flags_id_seq db
          \<and> flag_fingerprint_id f \<in> fp_id ` set (fingerprints db)
          \<and> flag_consumer_id f \<in> cons_id ` set (consumers db))"

definition db_ok :: "db \<Rightarrow> bool" where
  "db_ok db \<longleftrightarrow> consumers_ok db \<and> fingerprints_ok db \<and> hits_ok db \<and> flags_ok db"

lemmas db_ok_defs = db_ok_def consumers_ok_def fingerprints_ok_def hits_ok_def flags_ok_def

lemma db_ok_empty: "db_ok empty_db"
  by (simp add: db_ok_defs empty_db_def)

section \<open>Connections and transactions\<close>

text \<open>
  \<^verbatim>\<open>with pool.connection()\<close>: a database that cannot be reached, or a pool with no connection left,
  raises \<^verbatim>\<open>OperationalError\<close> before any statement runs.
\<close>

definition with_connection :: "bool \<Rightarrow> (db \<Rightarrow> 'a result \<times> db) \<Rightarrow> db \<Rightarrow> 'a result \<times> db" where
  "with_connection reachable body db = (if reachable then body db else (Inl OperationalError, db))"

text \<open>A rollback puts the tables back as they were; the sequences keep the values they handed out.\<close>

definition rollback :: "db \<Rightarrow> db \<Rightarrow> db" where
  "rollback before after = before\<lparr>
     consumers_id_seq := consumers_id_seq after, fingerprints_id_seq := fingerprints_id_seq after,
     hits_id_seq := hits_id_seq after, flags_id_seq := flags_id_seq after,
     fingerprints_sync_seq := fingerprints_sync_seq after\<rparr>"

text \<open>\<^verbatim>\<open>with conn.transaction(force_rollback=...)\<close>.\<close>

definition transaction :: "bool \<Rightarrow> (db \<Rightarrow> 'a result \<times> db) \<Rightarrow> db \<Rightarrow> 'a result \<times> db" where
  "transaction force_rollback body db =
     (let (r, after) = body db in
      (r, if force_rollback \<or> \<not> is_ok r then rollback db after else after))"

lemma rollback_tables [simp]:
  "consumers (rollback b a) = consumers b" "fingerprints (rollback b a) = fingerprints b"
  "fingerprint_hits (rollback b a) = fingerprint_hits b"
  "fingerprint_flags (rollback b a) = fingerprint_flags b"
  "consumers_id_seq (rollback b a) = consumers_id_seq a"
  "fingerprints_id_seq (rollback b a) = fingerprints_id_seq a"
  "hits_id_seq (rollback b a) = hits_id_seq a" "flags_id_seq (rollback b a) = flags_id_seq a"
  "fingerprints_sync_seq (rollback b a) = fingerprints_sync_seq a"
  by (simp_all add: rollback_def)

definition seqs_le :: "db \<Rightarrow> db \<Rightarrow> bool" where
  "seqs_le a b \<longleftrightarrow> consumers_id_seq a \<le> consumers_id_seq b
     \<and> fingerprints_id_seq a \<le> fingerprints_id_seq b \<and> hits_id_seq a \<le> hits_id_seq b
     \<and> flags_id_seq a \<le> flags_id_seq b \<and> fingerprints_sync_seq a \<le> fingerprints_sync_seq b"

lemma seqs_le_refl [simp]: "seqs_le db db"
  by (simp add: seqs_le_def)

lemma seqs_le_trans: "seqs_le a b \<Longrightarrow> seqs_le b c \<Longrightarrow> seqs_le a c"
  by (auto simp: seqs_le_def)

lemma db_ok_rollback: "db_ok before \<Longrightarrow> seqs_le before after \<Longrightarrow> db_ok (rollback before after)"
  by (fastforce simp: db_ok_defs seqs_le_def)

lemma rollback_same [simp]: "rollback db db = db"
  by (simp add: rollback_def)

section \<open>Statements\<close>

definition select_fp :: "int \<Rightarrow> db \<Rightarrow> fingerprint_row option" where
  "select_fp i db = List.find (\<lambda>r. fp_id r = i) (fingerprints db)"

definition select_fp_by_phash :: "string \<Rightarrow> int \<Rightarrow> db \<Rightarrow> fingerprint_row option" where
  "select_fp_by_phash phash cid db =
     List.find (\<lambda>r. fp_phash_hex r = phash \<and> fp_consumer_id r = cid) (fingerprints db)"

text \<open>\<^verbatim>\<open>UPDATE fingerprints SET ... WHERE id = ...\<close>.\<close>

definition update_fp :: "int \<Rightarrow> (fingerprint_row \<Rightarrow> fingerprint_row) \<Rightarrow> db \<Rightarrow> db" where
  "update_fp i f db =
     db\<lparr>fingerprints := map (\<lambda>r. if fp_id r = i then f r else r) (fingerprints db)\<rparr>"

text \<open>\<^verbatim>\<open>nextval('fingerprints_sync_seq')\<close>.\<close>

definition nextval_sync :: "db \<Rightarrow> int \<times> db" where
  "nextval_sync db =
     (fingerprints_sync_seq db, db\<lparr>fingerprints_sync_seq := fingerprints_sync_seq db + 1\<rparr>)"

definition insert_hit ::
  "int \<Rightarrow> int \<Rightarrow> string option \<Rightarrow> int option \<Rightarrow> int \<Rightarrow> db \<Rightarrow> unit result \<times> db"
where
  "insert_hit fpid cid guild distance now db =
     (if \<not> pred_option pg_integer distance \<or> \<not> pred_option pg_text guild then (Inl DataError, db)
      else
        (let row = \<lparr>hit_id = hits_id_seq db, hit_fingerprint_id = fpid, hit_consumer_id = cid,
               hit_guild_id = guild, hit_distance = distance, hit_at_ms = now\<rparr>;
             db1 = db\<lparr>hits_id_seq := hits_id_seq db + 1\<rparr>
         in
           if fpid \<notin> fp_id ` set (fingerprints db) \<or> cid \<notin> cons_id ` set (consumers db)
           then (Inl ForeignKeyViolation, db1)
           else (Inr (), db1\<lparr>fingerprint_hits := fingerprint_hits db @ [row]\<rparr>)))"

text \<open>\<^verbatim>\<open>INSERT ... ON CONFLICT (fingerprint_id, consumer_id) DO NOTHING\<close>.\<close>

definition insert_flag ::
  "int \<Rightarrow> int \<Rightarrow> string option \<Rightarrow> int \<Rightarrow> db \<Rightarrow> unit result \<times> db"
where
  "insert_flag fpid cid reason now db =
     (if \<not> pred_option pg_text reason then (Inl DataError, db)
      else
        (let row = \<lparr>flag_id = flags_id_seq db, flag_fingerprint_id = fpid, flag_consumer_id = cid,
               flag_reason = reason, flag_created_at_ms = now\<rparr>;
             db1 = db\<lparr>flags_id_seq := flags_id_seq db + 1\<rparr>
         in
           if \<exists>f \<in> set (fingerprint_flags db). flag_fingerprint_id f = fpid \<and> flag_consumer_id f = cid
           then (Inr (), db1)
           else if fpid \<notin> fp_id ` set (fingerprints db) \<or> cid \<notin> cons_id ` set (consumers db)
           then (Inl ForeignKeyViolation, db1)
           else (Inr (), db1\<lparr>fingerprint_flags := fingerprint_flags db @ [row]\<rparr>)))"

text \<open>\<^verbatim>\<open>SELECT COUNT(DISTINCT consumer_id) FROM fingerprint_flags WHERE fingerprint_id = ...\<close>.\<close>

definition count_flaggers :: "int \<Rightarrow> db \<Rightarrow> int" where
  "count_flaggers fpid db =
     int (length (remdups (map flag_consumer_id
       (filter (\<lambda>f. flag_fingerprint_id f = fpid) (fingerprint_flags db)))))"

definition delete_flags_of :: "int \<Rightarrow> db \<Rightarrow> db" where
  "delete_flags_of fpid db =
     db\<lparr>fingerprint_flags := filter (\<lambda>f. flag_fingerprint_id f \<noteq> fpid) (fingerprint_flags db)\<rparr>"

text \<open>\<^verbatim>\<open>DELETE FROM fingerprints WHERE ...\<close> with \<^verbatim>\<open>ON DELETE CASCADE\<close> to hits and flags.\<close>

definition delete_fps :: "(fingerprint_row \<Rightarrow> bool) \<Rightarrow> db \<Rightarrow> db" where
  "delete_fps P db =
     (let gone = fp_id ` set (filter P (fingerprints db)) in
      db\<lparr>fingerprints := filter (\<lambda>r. \<not> P r) (fingerprints db),
         fingerprint_hits := filter (\<lambda>h. hit_fingerprint_id h \<notin> gone) (fingerprint_hits db),
         fingerprint_flags := filter (\<lambda>f. flag_fingerprint_id f \<notin> gone) (fingerprint_flags db)\<rparr>)"

text \<open>
  \<^verbatim>\<open>INSERT INTO fingerprints ... ON CONFLICT (phash_hex, consumer_id) DO NOTHING RETURNING *\<close>: the
  column defaults take their sequence values first, then the checks, the conflict and the foreign
  key are decided. \<open>None\<close> is no row returned.
\<close>

definition insert_fp :: "fingerprint_row \<Rightarrow> db \<Rightarrow> fingerprint_row option result \<times> db" where
  "insert_fp values db =
     (if \<not> list_all pg_text [fp_phash_hex values, fp_algorithm values, fp_algorithm_version values,
            fp_normalization_version values, fp_category values, fp_action values,
            fp_provenance values]
         \<or> \<not> pred_option pg_text (fp_source_guild_id values)
         \<or> \<not> pred_option pg_text (fp_reason values) \<or> \<not> pred_option pg_text (fp_source_url values)
      then (Inl DataError, db)
      else
        (let row = values\<lparr>fp_id := fingerprints_id_seq db, fp_sync_seq := fingerprints_sync_seq db\<rparr>;
             db1 = db\<lparr>fingerprints_id_seq := fingerprints_id_seq db + 1,
                      fingerprints_sync_seq := fingerprints_sync_seq db + 1\<rparr>
         in
           if fp_action row \<notin> set VALID_ACTIONS \<or> fp_category row \<notin> set VALID_CATEGORIES
              \<or> fp_hit_count row < 0 \<or> fp_flag_count row < 0
           then (Inl CheckViolation, db1)
           else if select_fp_by_phash (fp_phash_hex row) (fp_consumer_id row) db \<noteq> None
           then (Inr None, db1)
           else if fp_consumer_id row \<notin> cons_id ` set (consumers db)
           then (Inl ForeignKeyViolation, db1)
           else (Inr (Some row), db1\<lparr>fingerprints := fingerprints db @ [row]\<rparr>)))"

end
