(* ===== verification/Base64.thy ===== *)
theory Base64
  imports Py_Text
begin

text \<open>
  Python's \<^verbatim>\<open>base64\<close> module as the program uses it: \<^verbatim>\<open>b64encode(...).decode("ascii")\<close>,
  \<^verbatim>\<open>b64decode(..., validate=True)\<close> (the strict mode of \<^verbatim>\<open>binascii.a2b_base64\<close>, written as the loop over
  characters it is) and \<^verbatim>\<open>secrets.token_urlsafe\<close>. The round trip holds for every byte string; the
  alphabet keeps the separator of the encryption envelope out of the encoded text.
\<close>

section \<open>Alphabet\<close>

definition b64_char :: "nat \<Rightarrow> char" where
  "b64_char n =
     (if n < 26 then char_of (65 + n) else if n < 52 then char_of (71 + n)
      else if n < 62 then char_of (n - 4) else if n = 62 then CHR ''+'' else CHR ''/'')"

definition b64_index :: "char \<Rightarrow> nat option" where
  "b64_index c = (let n = ord c in
     if 65 \<le> n \<and> n \<le> 90 then Some (n - 65)
     else if 97 \<le> n \<and> n \<le> 122 then Some (n - 71)
     else if 48 \<le> n \<and> n \<le> 57 then Some (n + 4)
     else if n = 43 then Some 62 else if n = 47 then Some 63 else None)"

lemma b64_index_char: "n < 64 \<Longrightarrow> b64_index (b64_char n) = Some n"
  by (auto simp: b64_index_def b64_char_def Let_def)

lemma b64_char_code:
  "n < 64 \<Longrightarrow> ord (b64_char n) = 43 \<or> (47 \<le> ord (b64_char n) \<and> ord (b64_char n) \<le> 57)
    \<or> (65 \<le> ord (b64_char n) \<and> ord (b64_char n) \<le> 122)"
  by (auto simp: b64_char_def)

lemma b64_char_not_pad: "n < 64 \<Longrightarrow> b64_char n \<noteq> CHR ''=''"
  using b64_char_code [of n] by auto

section \<open>Encoding\<close>

fun b64encode :: "bytes \<Rightarrow> string" where
  "b64encode [] = []"
| "b64encode [a] =
     [b64_char (unat a div 4), b64_char (unat a mod 4 * 16), CHR ''='', CHR ''='']"
| "b64encode [a, b] =
     [b64_char (unat a div 4), b64_char (unat a mod 4 * 16 + unat b div 16),
      b64_char (unat b mod 16 * 4), CHR ''='']"
| "b64encode (a # b # c # rest) =
     [b64_char (unat a div 4), b64_char (unat a mod 4 * 16 + unat b div 16),
      b64_char (unat b mod 16 * 4 + unat c div 64), b64_char (unat c mod 64)] @ b64encode rest"

section \<open>Strict decoding\<close>

text \<open>
  The loop of \<^verbatim>\<open>binascii.a2b_base64(data, strict_mode=True)\<close>: \<open>quad_pos\<close> counts the data characters
  of the current quadruple, \<open>leftchar\<close> holds the bits not yet written, \<open>pads\<close> counts padding
  characters, \<open>padding_started\<close> remembers that one was seen.
\<close>

definition emit :: "nat \<Rightarrow> bytes result \<Rightarrow> bytes result" where
  "emit n r = (case r of Inl e \<Rightarrow> Inl e | Inr bs \<Rightarrow> Inr (word_of_nat n # bs))"

fun a2b_loop :: "nat \<Rightarrow> nat \<Rightarrow> nat \<Rightarrow> bool \<Rightarrow> string \<Rightarrow> bytes result" where
  "a2b_loop quad_pos leftchar pads padding_started [] =
     (if quad_pos \<noteq> 0 then Inl BinasciiError else Inr [])"
| "a2b_loop quad_pos leftchar pads padding_started (ch # rest) =
     (if ch = CHR ''='' then
        (if quad_pos \<ge> 2 \<and> quad_pos + (pads + 1) \<ge> 4
         then (if rest \<noteq> [] then Inl BinasciiError else Inr [])
         else a2b_loop quad_pos leftchar (if quad_pos \<ge> 2 then pads + 1 else pads) True rest)
      else (case b64_index ch of
          None \<Rightarrow> Inl BinasciiError
        | Some v \<Rightarrow>
            if padding_started then Inl BinasciiError
            else if quad_pos = 0 then a2b_loop 1 v 0 padding_started rest
            else if quad_pos = 1 then
              emit (leftchar * 4 + v div 16) (a2b_loop 2 (v mod 16) 0 padding_started rest)
            else if quad_pos = 2 then
              emit (leftchar * 16 + v div 4) (a2b_loop 3 (v mod 4) 0 padding_started rest)
            else emit (leftchar * 64 + v) (a2b_loop 0 0 0 padding_started rest)))"

definition a2b_base64_strict :: "string \<Rightarrow> bytes result" where
  "a2b_base64_strict data =
     (if data \<noteq> [] \<and> hd data = CHR ''='' then Inl BinasciiError
      else a2b_loop 0 0 0 False data)"

text \<open>
  \<^verbatim>\<open>base64.b64decode(text.encode("ascii"), validate=True)\<close>: a non-ASCII character is a
  \<^verbatim>\<open>UnicodeEncodeError\<close>, anything the strict decoder rejects a \<^verbatim>\<open>binascii.Error\<close>.
\<close>

definition b64decode :: "string \<Rightarrow> bytes result" where
  "b64decode text = (if \<not> is_ascii text then Inl UnicodeEncodeError else a2b_base64_strict text)"

section \<open>Round trip\<close>

lemma byte_of_parts:
  assumes "n = unat (b :: byte)"
  shows "word_of_nat n = b"
  using assms by simp

lemma a2b_loop_data:
  assumes "v < 64"
  shows "a2b_loop 0 l p False (b64_char v # rest) = a2b_loop 1 v 0 False rest"
    and "a2b_loop (Suc 0) l p False (b64_char v # rest)
      = emit (l * 4 + v div 16) (a2b_loop 2 (v mod 16) 0 False rest)"
    and "a2b_loop 2 l p False (b64_char v # rest)
      = emit (l * 16 + v div 4) (a2b_loop 3 (v mod 4) 0 False rest)"
    and "a2b_loop 3 l p False (b64_char v # rest) = emit (l * 64 + v) (a2b_loop 0 0 0 False rest)"
  using assms by (simp_all add: b64_index_char b64_char_not_pad)

lemma byte_bound: "unat (a :: byte) < 256"
  using unsigned_less [of a] by simp

lemma byte_splits:
  fixes a b :: byte
  shows "unat a div 4 < 64" and "unat a mod 4 * 16 < 64" and "unat a mod 4 * 16 + unat b div 16 < 64"
    and "unat a mod 16 * 4 < 64" and "unat a mod 16 * 4 + unat b div 64 < 64" and "unat a mod 64 < 64"
proof -
  have bd: "unat b div 16 < 16" "unat b div 64 < 4"
    using byte_bound [of b] by (simp_all add: less_mult_imp_div_less)
  have am: "unat a mod 4 < 4" "unat a mod 16 < 16" by simp_all
  show "unat a div 4 < 64" using byte_bound [of a] by (simp add: less_mult_imp_div_less)
  show "unat a mod 4 * 16 < 64" and "unat a mod 4 * 16 + unat b div 16 < 64"
    and "unat a mod 16 * 4 < 64" and "unat a mod 16 * 4 + unat b div 64 < 64" and "unat a mod 64 < 64"
    using am bd by (linarith | simp)+
qed

lemma byte_joins:
  fixes a b :: byte
  shows "unat a div 4 * 4 + (unat a mod 4 * 16 + unat b div 16) div 16 = unat a"
    and "(unat a mod 4 * 16 + unat b div 16) mod 16 = unat b div 16"
    and "unat a div 16 * 16 + (unat a mod 16 * 4 + unat b div 64) div 4 = unat a"
    and "(unat a mod 16 * 4 + unat b div 64) mod 4 = unat b div 64"
    and "unat a div 64 * 64 + unat a mod 64 = unat a"
    and "unat a div 4 * 4 + unat a mod 4 * 16 div 16 = unat a"
    and "unat a div 16 * 16 + unat a mod 16 * 4 div 4 = unat a"
proof -
  have bd: "unat b div 16 < 16" "unat b div 64 < 4"
    using byte_bound [of b] by (simp_all add: less_mult_imp_div_less)
  have "(unat a mod 4 * 16 + unat b div 16) div 16 = unat a mod 4"
    and "(unat a mod 16 * 4 + unat b div 64) div 4 = unat a mod 16"
    using bd by simp_all
  then show "unat a div 4 * 4 + (unat a mod 4 * 16 + unat b div 16) div 16 = unat a"
    and "unat a div 16 * 16 + (unat a mod 16 * 4 + unat b div 64) div 4 = unat a"
    by simp_all
  show "(unat a mod 4 * 16 + unat b div 16) mod 16 = unat b div 16"
    and "(unat a mod 16 * 4 + unat b div 64) mod 4 = unat b div 64"
    using bd by simp_all
qed simp_all

lemma emit_unat: "emit (unat a) (Inr bs) = Inr (a # bs)"
  by (simp add: emit_def)

lemma a2b_loop_pad:
  "a2b_loop 2 l 0 False [CHR ''='', CHR ''=''] = Inr []"
  "a2b_loop 3 m 0 False [CHR ''=''] = Inr []"
  by simp_all

lemma a2b_loop_b64encode: "a2b_loop 0 l p False (b64encode bs) = Inr bs"
proof (induction bs arbitrary: l p rule: b64encode.induct)
  case 1
  then show ?case by simp
next
  case (2 a)
  then show ?case
    by (simp only: b64encode.simps a2b_loop_data byte_splits One_nat_def byte_joins a2b_loop_pad
        emit_unat)
next
  case (3 a b)
  then show ?case
    by (simp only: b64encode.simps a2b_loop_data byte_splits One_nat_def byte_joins a2b_loop_pad
        emit_unat)
next
  case (4 a b c rest)
  then show ?case
    by (simp only: b64encode.simps append.simps a2b_loop_data byte_splits One_nat_def byte_joins
        emit_unat)
qed

text \<open>Every character of an encoding is in the alphabet or is padding.\<close>

definition is_b64_char :: "char \<Rightarrow> bool" where
  "is_b64_char c \<longleftrightarrow> ord c = 43 \<or> (47 \<le> ord c \<and> ord c \<le> 57) \<or> ord c = 61
     \<or> (65 \<le> ord c \<and> ord c \<le> 122)"

lemma is_b64_char_b64_char: "n < 64 \<Longrightarrow> is_b64_char (b64_char n)"
  using b64_char_code [of n] by (auto simp: is_b64_char_def)

lemma list_all_b64encode: "list_all is_b64_char (b64encode bs)"
proof -
  have pad: "is_b64_char (CHR ''='')" by (simp add: is_b64_char_def)
  show ?thesis
    by (induction bs rule: b64encode.induct) (simp_all add: byte_splits is_b64_char_b64_char pad)
qed

lemma b64encode_codes:
  "c \<in> set (b64encode bs) \<Longrightarrow>
    ord c = 43 \<or> (47 \<le> ord c \<and> ord c \<le> 57) \<or> ord c = 61 \<or> (65 \<le> ord c \<and> ord c \<le> 122)"
  using list_all_b64encode [of bs] by (simp add: list_all_iff is_b64_char_def)

lemma b64encode_no_sep:
  "CHR '':'' \<notin> set (b64encode bs)" "CHR '','' \<notin> set (b64encode bs)"
  by (auto dest!: b64encode_codes)

lemma b64encode_ascii: "is_ascii (b64encode bs)"
  by (auto simp: is_ascii_def list_all_iff dest!: b64encode_codes)

lemma b64encode_strip: "strip (b64encode bs) = b64encode bs"
proof -
  have "\<not> is_space c" if "c \<in> set (b64encode bs)" for c
    using b64encode_codes [OF that] is_space_bounds [of c] by linarith
  then show ?thesis by (intro strip_id) (metis hd_in_set last_in_set)
qed

lemma hd_b64encode: "b64encode bs \<noteq> [] \<Longrightarrow> hd (b64encode bs) \<noteq> CHR ''=''"
  by (cases bs rule: b64encode.cases) (auto simp: b64_char_not_pad byte_splits)

lemma b64_roundtrip: "b64decode (b64encode bs) = Inr bs"
  using hd_b64encode [of bs]
  by (auto simp: b64decode_def b64encode_ascii a2b_base64_strict_def a2b_loop_b64encode)

text \<open>
  The interface of an encoder with its decoder, for the clients that encode a value, store the
  text and read it back.
\<close>

locale codec =
  fixes enc :: "'a \<Rightarrow> 'b" and dec :: "'b \<Rightarrow> 'a result" and valid :: "'a \<Rightarrow> bool"
  assumes dec_enc: "valid x \<Longrightarrow> dec (enc x) = Inr x"
begin

lemma enc_inject: "valid x \<Longrightarrow> valid y \<Longrightarrow> enc x = enc y \<longleftrightarrow> x = y"
  by (metis dec_enc sum.inject(2))

lemma dec_enc_map: "list_all valid xs \<Longrightarrow> map dec (map enc xs) = map Inr xs"
  by (induction xs) (auto simp: dec_enc)

end

text \<open>\<^verbatim>\<open>bytes.decode("utf-8")\<close> with its exception.\<close>

definition decode_utf8 :: "bytes \<Rightarrow> string result" where
  "decode_utf8 bs = (case utf8_decode bs of None \<Rightarrow> Inl UnicodeDecodeError | Some s \<Rightarrow> Inr s)"

interpretation b64: codec b64encode b64decode "\<lambda>_. True"
  by unfold_locales (simp add: b64_roundtrip)

interpretation utf8: codec utf8_encode decode_utf8 "\<lambda>_. True"
  by unfold_locales (simp add: decode_utf8_def utf8_roundtrip)

section \<open>URL-safe tokens\<close>

text \<open>
  \<^verbatim>\<open>base64.urlsafe_b64encode(tok).rstrip(b"=").decode("ascii")\<close>, the body of
  \<^verbatim>\<open>secrets.token_urlsafe\<close>; the random bytes \<open>tok\<close> are an argument.
\<close>

definition urlsafe_char :: "char \<Rightarrow> char" where
  "urlsafe_char c = (if c = CHR ''+'' then CHR ''-'' else if c = CHR ''/'' then CHR ''_'' else c)"

definition token_urlsafe :: "bytes \<Rightarrow> string" where
  "token_urlsafe tok =
     rev (dropWhile (\<lambda>c. c = CHR ''='') (rev (map urlsafe_char (b64encode tok))))"

end
