(* ===== verification/Field_Encryption.thy ===== *)
theory Field_Encryption
  imports Base64
begin

text \<open>
  \<^verbatim>\<open>utils/field_encryption.py\<close>: the keyring and its parser, the process-wide keyring cache, and the
  encryption of one text field into an \<^verbatim>\<open>enc:v1:<key_id>:<nonce>:<ciphertext>\<close> envelope.
  AES-GCM (the \<^verbatim>\<open>cryptography\<close> package) is a parameter of the functions that call it; random bytes
  are arguments.
\<close>

section \<open>Constants and state\<close>

definition ENVELOPE_VERSION :: string where
  "ENVELOPE_VERSION = ''v1''"

definition ENVELOPE_PREFIX :: string where
  "ENVELOPE_PREFIX = ''enc:'' @ ENVELOPE_VERSION @ '':''"

definition NONCE_BYTES :: nat where
  "NONCE_BYTES = 12"

definition KEY_BYTES :: nat where
  "KEY_BYTES = 32"

text \<open>The \<^verbatim>\<open>FieldEncryptionKeyring\<close> dataclass; the dict is an association list in insertion order.\<close>

record keyring =
  keys :: "(string \<times> bytes) list"
  active_key_id :: string

text \<open>
  The two operations of \<^verbatim>\<open>AESGCM(key)\<close> without associated data; \<open>None\<close> is \<^verbatim>\<open>InvalidTag\<close>.
\<close>

record aead =
  gcm_encrypt :: "bytes \<Rightarrow> bytes \<Rightarrow> bytes \<Rightarrow> bytes"
  gcm_decrypt :: "bytes \<Rightarrow> bytes \<Rightarrow> bytes \<Rightarrow> bytes option"

text \<open>
  What the properties rely on of AES-GCM: what was encrypted under a key and a nonce decrypts under
  them to the same bytes.
\<close>

definition aead_correct :: "aead \<Rightarrow> bool" where
  "aead_correct A \<longleftrightarrow> (\<forall>k n p. gcm_decrypt A k n (gcm_encrypt A k n p) = Some p)"

lemma aead_correctD: "aead_correct A \<Longrightarrow> gcm_decrypt A k n (gcm_encrypt A k n p) = Some p"
  by (simp add: aead_correct_def)

section \<open>Parsing the key material\<close>

definition decode_base64_key :: "string \<Rightarrow> string \<Rightarrow> bytes result" where
  "decode_base64_key raw_value key_id =
     (case b64decode raw_value of
        Inl e \<Rightarrow> Inl (FieldEncryptionConfigError (KeyNotBase64 key_id))
      | Inr decoded \<Rightarrow>
          if length decoded \<noteq> KEY_BYTES
          then Inl (FieldEncryptionConfigError (KeyWrongLength key_id))
          else Inr decoded)"

text \<open>
  One round of the loop over \<^verbatim>\<open>raw_keys.split(",")\<close>: \<open>ks\<close> is the dict \<^verbatim>\<open>keys\<close>, \<open>mats\<close> the dict
  \<^verbatim>\<open>key_material_ids\<close>; the result is the pair that the round stores in both.
\<close>

definition parse_entry ::
  "(string \<times> bytes) list \<Rightarrow> (bytes \<times> string) list \<Rightarrow> string \<Rightarrow> (string \<times> bytes) result"
where
  "parse_entry ks mats raw_entry =
     (let entry = strip raw_entry in
      if entry = [] then Inl (FieldEncryptionConfigError EmptyKeyEntry)
      else if CHR '':'' \<notin> set entry then Inl (FieldEncryptionConfigError EntryNotKeyIdColonKey)
      else
        (let parts = split_max CHR '':'' 1 entry;
             key_id = strip (parts ! 0);
             raw_key = strip (parts ! 1)
         in
           if \<not> KEY_ID_RE_fullmatch key_id
           then Inl (FieldEncryptionConfigError (InvalidKeyId key_id))
           else if map_of ks key_id \<noteq> None
           then Inl (FieldEncryptionConfigError (DuplicateKeyId key_id))
           else (case decode_base64_key raw_key key_id of
               Inl e \<Rightarrow> Inl e
             | Inr decoded_key \<Rightarrow>
                 (case map_of mats decoded_key of
                    Some existing \<Rightarrow>
                      Inl (FieldEncryptionConfigError (DuplicateKeyMaterial existing key_id))
                  | None \<Rightarrow> Inr (key_id, decoded_key)))))"

fun parse_entries ::
  "string list \<Rightarrow> (string \<times> bytes) list \<Rightarrow> (bytes \<times> string) list \<Rightarrow> (string \<times> bytes) list result"
where
  "parse_entries [] ks mats = Inr ks"
| "parse_entries (raw_entry # rest) ks mats =
     (case parse_entry ks mats raw_entry of
        Inl e \<Rightarrow> Inl e
      | Inr (key_id, decoded_key) \<Rightarrow>
          parse_entries rest (ks @ [(key_id, decoded_key)]) (mats @ [(decoded_key, key_id)]))"

definition parse_keyring :: "string option \<Rightarrow> string option \<Rightarrow> keyring result" where
  "parse_keyring raw_keys active_id =
     (case raw_keys of
        None \<Rightarrow> Inl (FieldEncryptionConfigError KeysRequired)
      | Some rk \<Rightarrow>
          if strip rk = [] then Inl (FieldEncryptionConfigError KeysRequired)
          else (case active_id of
              None \<Rightarrow> Inl (FieldEncryptionConfigError ActiveKeyIdRequired)
            | Some act \<Rightarrow>
                if strip act = [] then Inl (FieldEncryptionConfigError ActiveKeyIdRequired)
                else (case parse_entries (split_all CHR '','' rk) [] [] of
                    Inl e \<Rightarrow> Inl e
                  | Inr ks \<Rightarrow>
                      if map_of ks (strip act) = None
                      then Inl (FieldEncryptionConfigError (ActiveKeyIdNotPresent (strip act)))
                      else Inr \<lparr>keys = ks, active_key_id = strip act\<rparr>)))"

definition generate_key_entry :: "string \<Rightarrow> bytes \<Rightarrow> string result" where
  "generate_key_entry key_id token =
     (if \<not> KEY_ID_RE_fullmatch key_id then Inl (FieldEncryptionConfigError (InvalidKeyId key_id))
      else Inr (key_id @ '':'' @ b64encode token))"

section \<open>The process-wide keyring\<close>

text \<open>
  \<^verbatim>\<open>load_keyring_from_env\<close> under \<^verbatim>\<open>lru_cache(maxsize=1)\<close>: the cache keeps a keyring once one was
  parsed; an exception is not cached.
\<close>

record key_env =
  env_keys :: "string option"
  env_active :: "string option"

type_synonym keyring_cache = "keyring option"

definition load_keyring_from_env ::
  "key_env \<Rightarrow> keyring_cache \<Rightarrow> keyring result \<times> keyring_cache"
where
  "load_keyring_from_env env cache =
     (case cache of
        Some ring \<Rightarrow> (Inr ring, cache)
      | None \<Rightarrow>
          (case parse_keyring (env_keys env) (env_active env) of
             Inl e \<Rightarrow> (Inl e, None)
           | Inr ring \<Rightarrow> (Inr ring, Some ring)))"

definition clear_keyring_cache :: "keyring_cache \<Rightarrow> keyring_cache" where
  "clear_keyring_cache cache = None"

section \<open>Envelopes\<close>

definition is_encrypted_value :: "string \<Rightarrow> bool" where
  "is_encrypted_value value \<longleftrightarrow> startswith value ENVELOPE_PREFIX"

definition envelope :: "string \<Rightarrow> bytes \<Rightarrow> bytes \<Rightarrow> string" where
  "envelope key_id nonce ciphertext =
     ''enc'' @ '':'' @ ENVELOPE_VERSION @ '':'' @ key_id @ '':'' @ b64encode nonce @ '':''
       @ b64encode ciphertext"

text \<open>
  \<open>ring_arg\<close> is the keyword argument \<^verbatim>\<open>keyring\<close>, \<open>loaded\<close> what \<^verbatim>\<open>load_keyring_from_env()\<close> gives when
  it is called, \<open>nonce\<close> the value of \<^verbatim>\<open>token_bytes(NONCE_BYTES)\<close>.
\<close>

definition ring_of :: "keyring option \<Rightarrow> keyring result \<Rightarrow> keyring result" where
  "ring_of ring_arg loaded = (case ring_arg of Some r \<Rightarrow> Inr r | None \<Rightarrow> loaded)"

definition encrypt_text ::
  "aead \<Rightarrow> keyring result \<Rightarrow> keyring option \<Rightarrow> string option \<Rightarrow> bytes \<Rightarrow> string option
   \<Rightarrow> string option result"
where
  "encrypt_text A loaded ring_arg key_id nonce plaintext =
     (case plaintext of
        None \<Rightarrow> Inr None
      | Some text \<Rightarrow>
          (case ring_of ring_arg loaded of
             Inl e \<Rightarrow> Inl e
           | Inr ring \<Rightarrow>
               (let resolved_key_id = (if truthy key_id then the key_id else active_key_id ring) in
                case map_of (keys ring) resolved_key_id of
                  None \<Rightarrow>
                    Inl (FieldEncryptionConfigError (EncryptionKeyNotConfigured resolved_key_id))
                | Some key \<Rightarrow>
                    Inr (Some (envelope resolved_key_id nonce
                      (gcm_encrypt A key nonce (utf8_encode text)))))))"

definition decrypt_text ::
  "aead \<Rightarrow> keyring result \<Rightarrow> keyring option \<Rightarrow> string \<Rightarrow> string result"
where
  "decrypt_text A loaded ring_arg env =
     (if \<not> is_encrypted_value env then Inl (FieldDecryptionError NotAnEnvelope)
      else
        (let parts = split_max CHR '':'' 4 env in
         if length parts \<noteq> 5 \<or> parts ! 0 \<noteq> ''enc'' \<or> parts ! 1 \<noteq> ENVELOPE_VERSION
         then Inl (FieldDecryptionError MalformedEnvelope)
         else
           (case ring_of ring_arg loaded of
              Inl e \<Rightarrow> Inl e
            | Inr ring \<Rightarrow>
                (case map_of (keys ring) (parts ! 2) of
                   None \<Rightarrow> Inl (FieldDecryptionError (UnknownKeyId (parts ! 2)))
                 | Some key \<Rightarrow>
                     (case (b64decode (parts ! 3), b64decode (parts ! 4)) of
                        (Inr nonce, Inr ciphertext) \<Rightarrow>
                          if length nonce \<noteq> NONCE_BYTES
                          then Inl (FieldDecryptionError WrongNonceLength)
                          else (case gcm_decrypt A key nonce ciphertext of
                              None \<Rightarrow> Inl (FieldDecryptionError AuthenticationFailed)
                            | Some plaintext \<Rightarrow> decode_utf8 plaintext)
                      | _ \<Rightarrow> Inl (FieldDecryptionError EnvelopeNotBase64))))))"

definition decrypt_text_field ::
  "aead \<Rightarrow> keyring result \<Rightarrow> keyring option \<Rightarrow> string option \<Rightarrow> string option result"
where
  "decrypt_text_field A loaded ring_arg value =
     (case value of
        None \<Rightarrow> Inr None
      | Some v \<Rightarrow>
          if \<not> is_encrypted_value v then Inl (FieldDecryptionError FieldNotEncrypted)
          else (case decrypt_text A loaded ring_arg v of Inl e \<Rightarrow> Inl e | Inr t \<Rightarrow> Inr (Some t)))"

definition rekey_envelope ::
  "aead \<Rightarrow> keyring result \<Rightarrow> string option \<Rightarrow> bytes \<Rightarrow> string \<Rightarrow> string option result"
where
  "rekey_envelope A loaded target_key_id nonce env =
     (case decrypt_text A loaded None env of
        Inl e \<Rightarrow> Inl e
      | Inr plaintext \<Rightarrow> encrypt_text A loaded None target_key_id nonce (Some plaintext))"

section \<open>Well-formed keyrings\<close>

text \<open>
  What \<^verbatim>\<open>parse_keyring\<close> promises of the keyring it returns: valid and distinct ids, distinct keys of
  32 bytes, and an active id that is one of them.
\<close>

definition keys_ok :: "(string \<times> bytes) list \<Rightarrow> bool" where
  "keys_ok ks \<longleftrightarrow> list_all (\<lambda>(i, k). KEY_ID_RE_fullmatch i \<and> length k = KEY_BYTES) ks
     \<and> distinct (map fst ks) \<and> distinct (map snd ks)"

definition keyring_ok :: "keyring \<Rightarrow> bool" where
  "keyring_ok ring \<longleftrightarrow> keys_ok (keys ring) \<and> active_key_id ring \<in> fst ` set (keys ring)"

lemma decode_base64_key_length: "decode_base64_key raw i = Inr k \<Longrightarrow> length k = KEY_BYTES"
  by (auto simp: decode_base64_key_def split: sum.splits if_splits)

lemma keys_ok_snoc:
  assumes "keys_ok ks" "KEY_ID_RE_fullmatch i" "length k = KEY_BYTES"
    and "map_of ks i = None" "k \<notin> snd ` set ks"
  shows "keys_ok (ks @ [(i, k)])"
  using assms by (auto simp: keys_ok_def map_of_eq_None_iff)

lemma parse_entryD:
  "parse_entry ks mats raw = Inr (i, k) \<Longrightarrow>
    KEY_ID_RE_fullmatch i \<and> length k = KEY_BYTES \<and> map_of ks i = None \<and> map_of mats k = None"
  by (auto simp: parse_entry_def Let_def split: if_splits sum.splits option.splits
      dest: decode_base64_key_length)

lemma parse_entries_ok:
  assumes "parse_entries es ks mats = Inr ks'" and "keys_ok ks"
    and "mats = map (\<lambda>(i, k). (k, i)) ks"
  shows "keys_ok ks'"
  using assms
proof (induction es arbitrary: ks mats)
  case Nil
  then show ?case by simp
next
  case (Cons raw rest)
  then obtain i k where entry: "parse_entry ks mats raw = Inr (i, k)"
    and rec: "parse_entries rest (ks @ [(i, k)]) (mats @ [(k, i)]) = Inr ks'"
    by (auto split: sum.splits)
  note parts = parse_entryD [OF entry]
  have "k \<notin> snd ` set ks"
    using parts Cons.prems(3) by (force simp: map_of_eq_None_iff image_iff)
  with parts Cons.prems(2) have "keys_ok (ks @ [(i, k)])" by (intro keys_ok_snoc) auto
  with rec show ?case by (rule Cons.IH) (simp add: Cons.prems(3))
qed

lemma parse_keyring_ok: "parse_keyring raw act = Inr ring \<Longrightarrow> keyring_ok ring"
  by (force simp: parse_keyring_def keyring_ok_def map_of_eq_None_iff keys_ok_def
      split: option.splits if_splits sum.splits
      dest!: parse_entries_ok)

text \<open>The other direction: an entry is accepted when its parts are right.\<close>

lemma split_entry:
  assumes "CHR '':'' \<notin> set i"
  shows "split_max CHR '':'' 1 (i @ CHR '':'' # raw) = [i, raw]"
  using split_max_cons [OF assms, of 0 raw] by simp

lemma parse_entry_accepts:
  assumes "KEY_ID_RE_fullmatch i" and "b64decode raw = Inr k" and "length k = KEY_BYTES"
    and "strip raw = raw" and "raw \<noteq> []" and "map_of ks i = None" and "map_of mats k = None"
  shows "parse_entry ks mats (i @ '':'' @ raw) = Inr (i, k)"
proof -
  note id = key_id_no_sep [OF assms(1)]
  have "\<not> is_space (hd i)" using id(3,4) hd_strip [of i] by simp
  moreover have "\<not> is_space (last raw)" using assms(4,5) last_strip [of raw] by simp
  ultimately have "strip (i @ CHR '':'' # raw) = i @ CHR '':'' # raw"
    using id(3) assms(5) by (intro strip_id) simp
  then show ?thesis
    using assms id split_entry [OF id(1), of raw]
    by (simp add: parse_entry_def decode_base64_key_def)
qed

section \<open>Encryption and decryption\<close>

lemma keyring_ok_lookup:
  assumes "keyring_ok ring" "map_of (keys ring) i = Some k"
  shows "KEY_ID_RE_fullmatch i" and "length k = KEY_BYTES"
  using assms map_of_SomeD [OF assms(2)] by (auto simp: keyring_ok_def keys_ok_def list_all_iff)

lemma keyring_ok_active:
  "keyring_ok ring \<Longrightarrow> \<exists>k. map_of (keys ring) (active_key_id ring) = Some k"
  by (metis keyring_ok_def map_of_eq_None_iff not_None_eq)

lemma is_encrypted_envelope: "is_encrypted_value (envelope i n c)"
  unfolding is_encrypted_value_def envelope_def ENVELOPE_PREFIX_def ENVELOPE_VERSION_def
  by (simp add: startswith_def)

lemma split_envelope:
  assumes "CHR '':'' \<notin> set i"
  shows "split_max CHR '':'' 4 (envelope i n c)
    = [''enc'', ENVELOPE_VERSION, i, b64encode n, b64encode c]"
proof -
  have v: "CHR '':'' \<notin> set ENVELOPE_VERSION" and e: "CHR '':'' \<notin> set ''enc''"
    by (simp_all add: ENVELOPE_VERSION_def)
  have four: "4 = Suc (Suc (Suc (Suc 0)))" by simp
  have "envelope i n c = ''enc'' @ CHR '':'' # (ENVELOPE_VERSION @ CHR '':''
      # (i @ CHR '':'' # (b64encode n @ CHR '':'' # b64encode c)))"
    by (simp add: envelope_def)
  then show ?thesis
    unfolding four
    by (simp only: split_max_cons [OF e] split_max_cons [OF v] split_max_cons [OF assms]
        split_max_cons [OF b64encode_no_sep(1)] split_max.simps(1))
qed

lemma decrypt_envelope:
  assumes "aead_correct A" "ring_of ring_arg loaded = Inr ring" "keyring_ok ring"
    and "map_of (keys ring) i = Some key" "length nonce = NONCE_BYTES"
  shows "decrypt_text A loaded ring_arg
      (envelope i nonce (gcm_encrypt A key nonce (utf8_encode text))) = Inr text"
proof -
  have "CHR '':'' \<notin> set i"
    using keyring_ok_lookup(1) [OF assms(3,4)] key_id_no_sep(1) by blast
  then show ?thesis
    using assms
    by (simp add: decrypt_text_def is_encrypted_envelope split_envelope b64_roundtrip aead_correctD
        utf8.dec_enc Let_def)
qed

lemma encrypt_text_SomeD:
  "encrypt_text A loaded ring_arg key_id nonce (Some text) = Inr r \<Longrightarrow>
    \<exists>ring i key. ring_of ring_arg loaded = Inr ring \<and> map_of (keys ring) i = Some key
      \<and> r = Some (envelope i nonce (gcm_encrypt A key nonce (utf8_encode text)))
      \<and> i = (if truthy key_id then the key_id else active_key_id ring)"
  by (auto simp: encrypt_text_def Let_def split: sum.splits option.splits)

lemma encrypt_text_None [simp]: "encrypt_text A loaded ring_arg key_id nonce None = Inr None"
  by (simp add: encrypt_text_def)

lemma encrypt_decrypt:
  assumes "aead_correct A" "ring_of ring_arg loaded = Inr ring" "keyring_ok ring"
    and "length nonce = NONCE_BYTES"
    and "encrypt_text A loaded ring_arg key_id nonce (Some text) = Inr (Some env)"
  shows "decrypt_text A loaded ring_arg env = Inr text"
  using encrypt_text_SomeD [OF assms(5)] assms decrypt_envelope by auto

lemma encrypt_is_encrypted:
  "encrypt_text A loaded ring_arg key_id nonce v = Inr (Some env) \<Longrightarrow> is_encrypted_value env"
  by (cases v) (auto dest!: encrypt_text_SomeD simp: is_encrypted_envelope)

lemma encrypt_active_ok:
  assumes "ring_of ring_arg loaded = Inr ring" "keyring_ok ring" "\<not> truthy key_id"
  shows "\<exists>env. encrypt_text A loaded ring_arg key_id nonce (Some text) = Inr (Some env)"
  using assms keyring_ok_active [OF assms(2)] by (auto simp: encrypt_text_def Let_def)

end
