(* ===== verification/Fingerprint_Store.thy ===== *)
theory Fingerprint_Store
  imports Database Field_Encryption
begin

text \<open>
  \<^verbatim>\<open>api/fingerprint_store.py\<close>: every function of the persistence layer as a function on the database
  state. The body of each transaction is a definition of its own (\<open>..._txn\<close>), the exported
  operation runs it on a connection. \<open>reachable\<close> says whether the pool can hand out a connection;
  \<open>K\<close> bundles what \<^verbatim>\<open>encrypt_text\<close> uses of the process: AES-GCM and the keyring in force.
\<close>

record crypto =
  cr_aead :: aead
  cr_ring :: "keyring result"

abbreviation encrypt_field :: "crypto \<Rightarrow> bytes \<Rightarrow> string option \<Rightarrow> string option result" where
  "encrypt_field K nonce v \<equiv> encrypt_text (cr_aead K) (cr_ring K) None None nonce v"

section \<open>Contribute\<close>

text \<open>The keyword arguments of \<^verbatim>\<open>contribute\<close>.\<close>

record contribution =
  con_consumer_id :: int
  con_phash_hex :: string
  con_algorithm :: string
  con_algorithm_version :: string
  con_normalization_version :: string
  con_category :: string
  con_action :: string
  con_source_guild_id :: "string option"
  con_reason :: "string option"
  con_source_url :: "string option"
  con_auto_added :: bool
  con_provenance :: string
  con_now_ms :: int

text \<open>The columns the INSERT lists, with the defaults of the columns it does not list.\<close>

definition new_row ::
  "contribution \<Rightarrow> string option \<Rightarrow> string option \<Rightarrow> string option \<Rightarrow> fingerprint_row"
where
  "new_row c enc_reason enc_source_url enc_guild =
     \<lparr>fp_id = 0, fp_sync_seq = 0, fp_phash_hex = con_phash_hex c, fp_algorithm = con_algorithm c,
      fp_algorithm_version = con_algorithm_version c,
      fp_normalization_version = con_normalization_version c, fp_category = con_category c,
      fp_action = con_action c, fp_consumer_id = con_consumer_id c, fp_source_guild_id = enc_guild,
      fp_reason = enc_reason, fp_source_url = enc_source_url, fp_added_at_ms = con_now_ms c,
      fp_updated_at_ms = con_now_ms c, fp_hit_count = 0, fp_last_hit_at_ms = None,
      fp_auto_added = con_auto_added c, fp_provenance = con_provenance c, fp_status = Active,
      fp_flag_count = 0\<rparr>"

text \<open>The SET clause of the resurrecting UPDATE.\<close>

definition resurrect_row ::
  "contribution \<Rightarrow> string option \<Rightarrow> string option \<Rightarrow> string option \<Rightarrow> int
   \<Rightarrow> fingerprint_row \<Rightarrow> fingerprint_row"
where
  "resurrect_row c enc_reason enc_source_url enc_guild seq r =
     r\<lparr>fp_sync_seq := seq, fp_algorithm := con_algorithm c,
       fp_algorithm_version := con_algorithm_version c,
       fp_normalization_version := con_normalization_version c, fp_category := con_category c,
       fp_action := con_action c, fp_source_guild_id := enc_guild, fp_reason := enc_reason,
       fp_source_url := enc_source_url, fp_auto_added := con_auto_added c,
       fp_provenance := con_provenance c, fp_status := Active, fp_added_at_ms := con_now_ms c,
       fp_updated_at_ms := con_now_ms c, fp_flag_count := 0\<rparr>"

definition resurrect ::
  "contribution \<Rightarrow> string option \<Rightarrow> string option \<Rightarrow> string option \<Rightarrow> int \<Rightarrow> db
   \<Rightarrow> fingerprint_row option result \<times> db"
where
  "resurrect c enc_reason enc_source_url enc_guild i db =
     (let db1 = delete_flags_of i db in
      if \<not> list_all pg_text [con_algorithm c, con_algorithm_version c, con_normalization_version c,
             con_category c, con_action c, con_provenance c]
         \<or> \<not> pred_option pg_text enc_guild \<or> \<not> pred_option pg_text enc_reason
         \<or> \<not> pred_option pg_text enc_source_url
      then (Inl DataError, db1)
      else
        (let (seq, db2) = nextval_sync db1 in
         if con_action c \<notin> set VALID_ACTIONS \<or> con_category c \<notin> set VALID_CATEGORIES
         then (Inl CheckViolation, db2)
         else
           (let db3 = update_fp i (resurrect_row c enc_reason enc_source_url enc_guild seq) db2
            in (Inr (select_fp i db3), db3))))"

definition contribute_txn ::
  "contribution \<Rightarrow> string option \<Rightarrow> string option \<Rightarrow> string option \<Rightarrow> db
   \<Rightarrow> (fingerprint_row option \<times> bool) result \<times> db"
where
  "contribute_txn c enc_reason enc_source_url enc_guild db =
     (if \<not> pg_text (con_phash_hex c) then (Inl DataError, db)
      else
        (case select_fp_by_phash (con_phash_hex c) (con_consumer_id c) db of
           Some existing \<Rightarrow>
             if fp_status existing \<noteq> Deleted then (Inr (Some existing, False), db)
             else
               (case resurrect c enc_reason enc_source_url enc_guild (fp_id existing) db of
                  (Inl e, db1) \<Rightarrow> (Inl e, db1)
                | (Inr row, db1) \<Rightarrow> (Inr (row, True), db1))
         | None \<Rightarrow>
             (case insert_fp (new_row c enc_reason enc_source_url enc_guild) db of
                (Inl e, db1) \<Rightarrow> (Inl e, db1)
              | (Inr (Some row), db1) \<Rightarrow> (Inr (Some row, True), db1)
              | (Inr None, db1) \<Rightarrow>
                  (Inr (select_fp_by_phash (con_phash_hex c) (con_consumer_id c) db1, False), db1))))"

text \<open>
  The three encryptions come before the connection is taken; \<open>nonces\<close> are their random nonces in
  the order of the calls.
\<close>

definition contribute ::
  "crypto \<Rightarrow> bool \<Rightarrow> bytes \<times> bytes \<times> bytes \<Rightarrow> contribution \<Rightarrow> db
   \<Rightarrow> (fingerprint_row option \<times> bool) result \<times> db"
where
  "contribute K reachable nonces c db =
     (case encrypt_field K (fst nonces) (con_reason c) of
        Inl e \<Rightarrow> (Inl e, db)
      | Inr enc_reason \<Rightarrow>
          (case encrypt_field K (fst (snd nonces)) (con_source_url c) of
             Inl e \<Rightarrow> (Inl e, db)
           | Inr enc_source_url \<Rightarrow>
               (case encrypt_field K (snd (snd nonces)) (con_source_guild_id c) of
                  Inl e \<Rightarrow> (Inl e, db)
                | Inr enc_guild \<Rightarrow>
                    with_connection reachable
                      (transaction False (contribute_txn c enc_reason enc_source_url enc_guild)) db)))"

section \<open>Reads\<close>

definition get :: "bool \<Rightarrow> int \<Rightarrow> db \<Rightarrow> fingerprint_row option result" where
  "get reachable i db = (if reachable then Inr (select_fp i db) else Inl OperationalError)"

text \<open>An optional text filter as the WHERE clauses use it: an absent or empty value filters nothing.\<close>

definition matches :: "string option \<Rightarrow> string \<Rightarrow> bool" where
  "matches filter_value column = (truthy filter_value \<longrightarrow> filter_value = Some column)"

definition filter_text_ok :: "string option \<Rightarrow> bool" where
  "filter_text_ok v = (truthy v \<longrightarrow> pred_option pg_text v)"

definition list_where ::
  "string option \<Rightarrow> string option \<Rightarrow> int option \<Rightarrow> bool \<Rightarrow> fingerprint_row \<Rightarrow> bool"
where
  "list_where category algorithm consumer include_hidden r \<longleftrightarrow>
     (if include_hidden then fp_status r \<noteq> Deleted else fp_status r = Active)
     \<and> matches category (fp_category r) \<and> matches algorithm (fp_algorithm r)
     \<and> (case consumer of None \<Rightarrow> True | Some cid \<Rightarrow> fp_consumer_id r = cid)"

definition list_fingerprints ::
  "bool \<Rightarrow> string option \<Rightarrow> string option \<Rightarrow> int option \<Rightarrow> bool \<Rightarrow> int \<Rightarrow> int \<Rightarrow> db
   \<Rightarrow> fingerprint_row list result"
where
  "list_fingerprints reachable category algorithm consumer include_hidden limit offset db =
     (if \<not> reachable then Inl OperationalError
      else if \<not> filter_text_ok category \<or> \<not> filter_text_ok algorithm
              \<or> \<not> pg_row_count limit \<or> \<not> pg_row_count offset then Inl DataError
      else Inr (take (nat limit) (drop (nat offset)
             (rev (sort_key fp_id
                (filter (list_where category algorithm consumer include_hidden)
                   (fingerprints db)))))))"

definition sync_where ::
  "int \<Rightarrow> int \<Rightarrow> string option \<Rightarrow> string option \<Rightarrow> string option \<Rightarrow> fingerprint_row \<Rightarrow> bool"
where
  "sync_where requester since algorithm algorithm_version normalization_version r \<longleftrightarrow>
     fp_sync_seq r > since \<and> fp_consumer_id r \<noteq> requester
     \<and> matches algorithm (fp_algorithm r) \<and> matches algorithm_version (fp_algorithm_version r)
     \<and> matches normalization_version (fp_normalization_version r)"

text \<open>The columns a peer gets: \<^verbatim>\<open>_SYNC_COLUMNS\<close>.\<close>

record sync_row =
  sy_id :: int
  sy_sync_seq :: int
  sy_phash_hex :: string
  sy_algorithm :: string
  sy_algorithm_version :: string
  sy_normalization_version :: string
  sy_category :: string
  sy_action :: string
  sy_status :: status

definition sync_columns :: "fingerprint_row \<Rightarrow> sync_row" where
  "sync_columns r =
     \<lparr>sy_id = fp_id r, sy_sync_seq = fp_sync_seq r, sy_phash_hex = fp_phash_hex r,
      sy_algorithm = fp_algorithm r, sy_algorithm_version = fp_algorithm_version r,
      sy_normalization_version = fp_normalization_version r, sy_category = fp_category r,
      sy_action = fp_action r, sy_status = fp_status r\<rparr>"

text \<open>\<^verbatim>\<open>(rows, next_since, has_more)\<close>; the SELECT fetches one row more than the page.\<close>

definition sync ::
  "bool \<Rightarrow> int \<Rightarrow> int \<Rightarrow> int \<Rightarrow> string option \<Rightarrow> string option \<Rightarrow> string option \<Rightarrow> db
   \<Rightarrow> (sync_row list \<times> int \<times> bool) result"
where
  "sync reachable requester since limit algorithm algorithm_version normalization_version db =
     (if \<not> reachable then Inl OperationalError
      else if \<not> filter_text_ok algorithm \<or> \<not> filter_text_ok algorithm_version
              \<or> \<not> filter_text_ok normalization_version \<or> \<not> pg_row_count (limit + 1)
      then Inl DataError
      else
        (let fetched = map sync_columns (take (nat (limit + 1)) (sort_key fp_sync_seq
               (filter (sync_where requester since algorithm algorithm_version normalization_version)
                  (fingerprints db))));
             has_more = int (length fetched) > limit;
             rows = slice_to fetched limit;
             next_since = (if rows \<noteq> [] then sy_sync_seq (last rows) else since)
         in Inr (rows, next_since, has_more)))"

section \<open>Hits, flags, deletion\<close>

definition report_hit_txn ::
  "crypto \<Rightarrow> bytes \<Rightarrow> int \<Rightarrow> int \<Rightarrow> string option \<Rightarrow> int option \<Rightarrow> int \<Rightarrow> db
   \<Rightarrow> int option result \<times> db"
where
  "report_hit_txn K nonce fpid cid guild distance now db =
     (case select_fp fpid db of
        None \<Rightarrow> (Inr None, db)
      | Some fp \<Rightarrow>
          if fp_status fp = Deleted then (Inr None, db)
          else
            (case encrypt_field K nonce guild of
               Inl e \<Rightarrow> (Inl e, db)
             | Inr enc_guild \<Rightarrow>
                 (case insert_hit fpid cid enc_guild distance now db of
                    (Inl e, db1) \<Rightarrow> (Inl e, db1)
                  | (Inr _, db1) \<Rightarrow>
                      (let db2 = update_fp fpid
                             (\<lambda>r. r\<lparr>fp_hit_count := fp_hit_count r + 1, fp_last_hit_at_ms := Some now\<rparr>)
                             db1
                       in (Inr (map_option fp_hit_count (select_fp fpid db2)), db2)))))"

definition report_hit ::
  "crypto \<Rightarrow> bool \<Rightarrow> bytes \<Rightarrow> int \<Rightarrow> int \<Rightarrow> string option \<Rightarrow> int option \<Rightarrow> int \<Rightarrow> db
   \<Rightarrow> int option result \<times> db"
where
  "report_hit K reachable nonce fpid cid guild distance now db =
     with_connection reachable
       (transaction False (report_hit_txn K nonce fpid cid guild distance now)) db"

record flag_result =
  fr_flag_count :: int
  fr_status :: status
  fr_hidden :: bool

definition flag_txn ::
  "crypto \<Rightarrow> bytes \<Rightarrow> int \<Rightarrow> int \<Rightarrow> string option \<Rightarrow> int \<Rightarrow> int \<Rightarrow> db
   \<Rightarrow> flag_result option result \<times> db"
where
  "flag_txn K nonce fpid cid reason now auto_hide_threshold db =
     (case select_fp fpid db of
        None \<Rightarrow> (Inr None, db)
      | Some fp \<Rightarrow>
          if fp_status fp = Deleted then (Inr None, db)
          else
            (case encrypt_field K nonce reason of
               Inl e \<Rightarrow> (Inl e, db)
             | Inr enc_reason \<Rightarrow>
                 (case insert_flag fpid cid enc_reason now db of
                    (Inl e, db1) \<Rightarrow> (Inl e, db1)
                  | (Inr _, db1) \<Rightarrow>
                      (let flag_count = count_flaggers fpid db1 in
                       if flag_count \<ge> auto_hide_threshold \<and> fp_status fp = Active
                       then
                         (let (seq, db2) = nextval_sync db1;
                              db3 = update_fp fpid
                                (\<lambda>r. r\<lparr>fp_status := Hidden, fp_flag_count := flag_count,
                                      fp_sync_seq := seq, fp_updated_at_ms := now\<rparr>) db2
                          in (Inr (Some \<lparr>fr_flag_count = flag_count, fr_status = Hidden,
                                          fr_hidden = True\<rparr>), db3))
                       else
                         (let db2 = update_fp fpid
                                (\<lambda>r. r\<lparr>fp_flag_count := flag_count, fp_updated_at_ms := now\<rparr>) db1
                          in (Inr (Some \<lparr>fr_flag_count = flag_count, fr_status = fp_status fp,
                                          fr_hidden = False\<rparr>), db2))))))"

definition flag ::
  "crypto \<Rightarrow> bool \<Rightarrow> bytes \<Rightarrow> int \<Rightarrow> int \<Rightarrow> string option \<Rightarrow> int \<Rightarrow> int \<Rightarrow> db
   \<Rightarrow> flag_result option result \<times> db"
where
  "flag K reachable nonce fpid cid reason now auto_hide_threshold db =
     with_connection reachable
       (transaction False (flag_txn K nonce fpid cid reason now auto_hide_threshold)) db"

definition soft_delete_txn :: "int \<Rightarrow> int \<Rightarrow> db \<Rightarrow> bool result \<times> db" where
  "soft_delete_txn fpid now db =
     (case select_fp fpid db of
        None \<Rightarrow> (Inr False, db)
      | Some fp \<Rightarrow>
          if fp_status fp = Deleted then (Inr False, db)
          else
            (let (seq, db1) = nextval_sync db;
                 db2 = update_fp fpid
                   (\<lambda>r. r\<lparr>fp_status := Deleted, fp_sync_seq := seq, fp_updated_at_ms := now\<rparr>) db1
             in (Inr True, db2)))"

definition soft_delete :: "bool \<Rightarrow> int \<Rightarrow> int \<Rightarrow> db \<Rightarrow> bool result \<times> db" where
  "soft_delete reachable fpid now db =
     with_connection reachable (transaction False (soft_delete_txn fpid now)) db"

section \<open>Retention\<close>

record retention_policy =
  hit_retention_ms :: int
  flag_reason_retention_ms :: int
  tombstone_metadata_retention_ms :: int
  tombstone_retention_ms :: int

record retention_counts =
  hits_deleted :: int
  flag_reasons_cleared :: int
  tombstones_anonymized :: int
  tombstones_deleted :: int

definition expired_hit :: "int \<Rightarrow> hit_row \<Rightarrow> bool" where
  "expired_hit cutoff h \<longleftrightarrow> hit_at_ms h < cutoff"

definition stale_reason :: "int \<Rightarrow> flag_row \<Rightarrow> bool" where
  "stale_reason cutoff f \<longleftrightarrow> flag_reason f \<noteq> None \<and> flag_created_at_ms f < cutoff"

definition old_tombstone :: "int \<Rightarrow> fingerprint_row \<Rightarrow> bool" where
  "old_tombstone cutoff r \<longleftrightarrow> fp_status r = Deleted \<and> fp_updated_at_ms r < cutoff"

definition has_metadata :: "fingerprint_row \<Rightarrow> bool" where
  "has_metadata r \<longleftrightarrow> fp_source_guild_id r \<noteq> None \<or> fp_reason r \<noteq> None \<or> fp_source_url r \<noteq> None"

definition anonymize :: "fingerprint_row \<Rightarrow> fingerprint_row" where
  "anonymize r = r\<lparr>fp_source_guild_id := None, fp_reason := None, fp_source_url := None\<rparr>"

definition delete_hits :: "int \<Rightarrow> db \<Rightarrow> int \<times> db" where
  "delete_hits cutoff db =
     (int (length (filter (expired_hit cutoff) (fingerprint_hits db))),
      db\<lparr>fingerprint_hits := filter (\<lambda>h. \<not> expired_hit cutoff h) (fingerprint_hits db)\<rparr>)"

definition clear_flag_reasons :: "int \<Rightarrow> db \<Rightarrow> int \<times> db" where
  "clear_flag_reasons cutoff db =
     (int (length (filter (stale_reason cutoff) (fingerprint_flags db))),
      db\<lparr>fingerprint_flags := map (\<lambda>f. if stale_reason cutoff f then f\<lparr>flag_reason := None\<rparr> else f)
             (fingerprint_flags db)\<rparr>)"

definition purge_tombstones :: "int \<Rightarrow> db \<Rightarrow> int \<times> db" where
  "purge_tombstones cutoff db =
     (int (length (filter (old_tombstone cutoff) (fingerprints db))),
      delete_fps (old_tombstone cutoff) db)"

definition anonymize_tombstones :: "int \<Rightarrow> db \<Rightarrow> int \<times> db" where
  "anonymize_tombstones cutoff db =
     (int (length (filter (\<lambda>r. old_tombstone cutoff r \<and> has_metadata r) (fingerprints db))),
      db\<lparr>fingerprints := map (\<lambda>r. if old_tombstone cutoff r \<and> has_metadata r then anonymize r else r)
             (fingerprints db)\<rparr>)"

definition retention_txn ::
  "int \<Rightarrow> retention_policy \<Rightarrow> db \<Rightarrow> retention_counts result \<times> db"
where
  "retention_txn now p db =
     (let (hits, db1) = delete_hits (now - hit_retention_ms p) db;
          (flag_reasons, db2) = clear_flag_reasons (now - flag_reason_retention_ms p) db1;
          (deleted, db3) = purge_tombstones (now - tombstone_retention_ms p) db2;
          (anonymized, db4) = anonymize_tombstones (now - tombstone_metadata_retention_ms p) db3
      in (Inr \<lparr>hits_deleted = hits, flag_reasons_cleared = flag_reasons,
               tombstones_anonymized = anonymized, tombstones_deleted = deleted\<rparr>, db4))"

definition apply_retention ::
  "bool \<Rightarrow> int \<Rightarrow> retention_policy \<Rightarrow> bool \<Rightarrow> db \<Rightarrow> retention_counts result \<times> db"
where
  "apply_retention reachable now p dry_run db =
     (if min (min (hit_retention_ms p) (flag_reason_retention_ms p))
             (min (tombstone_metadata_retention_ms p) (tombstone_retention_ms p)) < 0
      then (Inl (ValueError ''retention periods must be non-negative''), db)
      else if tombstone_metadata_retention_ms p > tombstone_retention_ms p
      then (Inl (ValueError ''tombstone metadata retention cannot exceed tombstone retention''), db)
      else with_connection reachable (transaction dry_run (retention_txn now p)) db)"

section \<open>Statistics\<close>

record store_stats =
  total_active :: int
  total_hidden :: int
  total_deleted :: int
  total_hits :: int
  by_category :: "(string \<times> int) list"
  by_provenance :: "(string \<times> int) list"
  active_consumers :: int

definition count_status :: "status \<Rightarrow> db \<Rightarrow> int" where
  "count_status s db = int (length (filter (\<lambda>r. fp_status r = s) (fingerprints db)))"

text \<open>\<^verbatim>\<open>SELECT key, COUNT(*) ... WHERE status = 'active' GROUP BY key\<close> as a dict.\<close>

definition group_counts :: "(fingerprint_row \<Rightarrow> string) \<Rightarrow> db \<Rightarrow> (string \<times> int) list" where
  "group_counts key db =
     (let act = filter (\<lambda>r. fp_status r = Active) (fingerprints db) in
      map (\<lambda>v. (v, int (length (filter (\<lambda>r. key r = v) act)))) (remdups (map key act)))"

definition stats :: "bool \<Rightarrow> db \<Rightarrow> store_stats result" where
  "stats reachable db =
     (if \<not> reachable then Inl OperationalError
      else Inr \<lparr>total_active = count_status Active db, total_hidden = count_status Hidden db,
                total_deleted = count_status Deleted db,
                total_hits = sum_list (map fp_hit_count (fingerprints db)),
                by_category = group_counts fp_category db,
                by_provenance = group_counts fp_provenance db,
                active_consumers = int (length (filter cons_enabled (consumers db)))\<rparr>)"

end
