(* ===== verification/Store_Invariants.thy ===== *)
theory Store_Invariants
  imports Fingerprint_Store
begin

text \<open>
  The declared constraints of the schema are an invariant of every store operation. First the
  statements, then the transaction bodies, then the operations; all later theories use the
  operation-level facts.
\<close>

section \<open>Sequence values only grow\<close>

lemma seqs_le_update_fp [simp]: "seqs_le db (update_fp i f db')= seqs_le db db'"
  by (simp add: seqs_le_def update_fp_def)

lemma update_fp_fields [simp]:
  "consumers (update_fp i f db) = consumers db"
  "fingerprint_hits (update_fp i f db) = fingerprint_hits db"
  "fingerprint_flags (update_fp i f db) = fingerprint_flags db"
  "fingerprints_sync_seq (update_fp i f db) = fingerprints_sync_seq db"
  "fingerprints_id_seq (update_fp i f db) = fingerprints_id_seq db"
  "consumers_id_seq (update_fp i f db) = consumers_id_seq db"
  "hits_id_seq (update_fp i f db) = hits_id_seq db"
  "flags_id_seq (update_fp i f db) = flags_id_seq db"
  by (simp_all add: update_fp_def)

section \<open>Looking rows up\<close>

lemma select_fp_SomeD: "select_fp i db = Some r \<Longrightarrow> r \<in> set (fingerprints db) \<and> fp_id r = i"
  by (auto simp: select_fp_def dest: find_SomeD)

lemma select_fp_None_iff: "select_fp i db = None \<longleftrightarrow> i \<notin> fp_id ` set (fingerprints db)"
  by (simp add: select_fp_def find_None_iff_key)

lemma select_fp_Some_iff:
  "fingerprints_ok db \<Longrightarrow>
    select_fp i db = Some r \<longleftrightarrow> r \<in> set (fingerprints db) \<and> fp_id r = i"
  by (simp add: select_fp_def fingerprints_ok_def find_Some_iff_unique)

lemma select_fp_by_phash_SomeD:
  "select_fp_by_phash h c db = Some r \<Longrightarrow>
    r \<in> set (fingerprints db) \<and> fp_phash_hex r = h \<and> fp_consumer_id r = c"
  by (auto simp: select_fp_by_phash_def dest: find_SomeD)

lemma select_fp_by_phash_None_iff:
  "select_fp_by_phash h c db = None \<longleftrightarrow>
    (h, c) \<notin> (\<lambda>r. (fp_phash_hex r, fp_consumer_id r)) ` set (fingerprints db)"
  by (auto simp: select_fp_by_phash_def find_None_iff)

lemma select_fp_update:
  "(\<And>r. fp_id (f r) = fp_id r) \<Longrightarrow>
    select_fp i (update_fp j f db) = (if i = j then map_option f (select_fp i db) else select_fp i db)"
  by (simp add: select_fp_def update_fp_def find_map_update)

lemma select_fp_cong:
  "fingerprints db = fingerprints db' \<Longrightarrow> select_fp i db = select_fp i db'"
  by (simp add: select_fp_def)

lemma set_update_fp:
  "set (fingerprints (update_fp i f db))
    = f ` {r \<in> set (fingerprints db). fp_id r = i} \<union> {r \<in> set (fingerprints db). fp_id r \<noteq> i}"
  by (auto simp: update_fp_def)

section \<open>Envelopes are text parameters\<close>

lemma envelope_pg_text:
  assumes "KEY_ID_RE_fullmatch i"
  shows "pg_text (envelope i n c)"
proof -
  have "list_all (\<lambda>c. (0::nat) < ord c) (b64encode bs)" for bs
    by (auto simp: list_all_iff dest!: b64encode_codes)
  moreover have "list_all (\<lambda>c. (0::nat) < ord c) i"
    using assms by (force simp: KEY_ID_RE_fullmatch_def list_all_iff dest: key_id_char_bounds)
  ultimately show ?thesis by (simp add: pg_text_code envelope_def ENVELOPE_VERSION_def)
qed

section \<open>Statements keep the constraints\<close>

text \<open>
  Changing the one row with a given key keeps another column distinct, when the row keeps its value
  of that column or gets a value no row has.
\<close>

lemma distinct_update_one:
  assumes "distinct (map key xs)" "distinct (map k xs)"
    and "\<And>x. x \<in> set xs \<Longrightarrow> key x = i \<Longrightarrow> k (f x) = k x \<or> k (f x) \<notin> k ` set xs"
  shows "distinct (map k (map (\<lambda>x. if key x = i then f x else x) xs))"
proof -
  have dx: "distinct xs" using assms(1) by (simp add: distinct_map)
  have inj: "inj_on k (set xs)" and injk: "inj_on key (set xs)"
    using assms(1,2) by (simp_all add: distinct_map)
  have "inj_on (k \<circ> (\<lambda>x. if key x = i then f x else x)) (set xs)"
  proof (rule inj_onI)
    fix x y
    assume xy: "x \<in> set xs" "y \<in> set xs"
      and eq: "(k \<circ> (\<lambda>x. if key x = i then f x else x)) x
        = (k \<circ> (\<lambda>x. if key x = i then f x else x)) y"
    consider "key x = i" "key y = i" | "key x = i" "key y \<noteq> i" | "key x \<noteq> i" "key y = i"
      | "key x \<noteq> i" "key y \<noteq> i" by blast
    then show "x = y"
    proof cases
      case 1
      then show ?thesis using injk xy by (auto dest: inj_onD)
    next
      case 2
      then have "k (f x) = k y" using eq by simp
      then have "k x = k y" using assms(3) [OF xy(1) 2(1)] xy(2) by auto
      then show ?thesis using inj xy by (auto dest: inj_onD)
    next
      case 3
      then have "k (f y) = k x" using eq by simp
      then have "k x = k y" using assms(3) [OF xy(2) 3(2)] xy(1) by auto
      then show ?thesis using inj xy by (auto dest: inj_onD)
    next
      case 4
      then show ?thesis using eq inj xy by (auto dest: inj_onD)
    qed
  qed
  then show ?thesis using dx by (simp add: distinct_map comp_inj_on_iff)
qed

text \<open>A row change the constraints allow: identity columns kept, checked columns valid.\<close>

definition row_change_ok :: "(fingerprint_row \<Rightarrow> fingerprint_row) \<Rightarrow> fingerprint_row \<Rightarrow> bool" where
  "row_change_ok f r \<longleftrightarrow> fp_id (f r) = fp_id r \<and> fp_phash_hex (f r) = fp_phash_hex r
     \<and> fp_consumer_id (f r) = fp_consumer_id r
     \<and> fp_action (f r) \<in> set VALID_ACTIONS \<and> fp_category (f r) \<in> set VALID_CATEGORIES
     \<and> 0 \<le> fp_hit_count (f r) \<and> 0 \<le> fp_flag_count (f r)"

lemma fingerprints_ok_row:
  "fingerprints_ok db \<Longrightarrow> r \<in> set (fingerprints db) \<Longrightarrow>
    fp_action r \<in> set VALID_ACTIONS \<and> fp_category r \<in> set VALID_CATEGORIES
    \<and> 0 \<le> fp_hit_count r \<and> 0 \<le> fp_flag_count r \<and> fp_id r < fingerprints_id_seq db
    \<and> fp_sync_seq r < fingerprints_sync_seq db \<and> fp_consumer_id r \<in> cons_id ` set (consumers db)"
  by (simp add: fingerprints_ok_def)

lemma fp_ids_update:
  "(\<And>r. r \<in> set (fingerprints db) \<Longrightarrow> fp_id r = i \<Longrightarrow> fp_id (f r) = fp_id r) \<Longrightarrow>
    fp_id ` set (fingerprints (update_fp i f db)) = fp_id ` set (fingerprints db)"
proof -
  assume "\<And>r. r \<in> set (fingerprints db) \<Longrightarrow> fp_id r = i \<Longrightarrow> fp_id (f r) = fp_id r"
  then have "map fp_id (fingerprints (update_fp i f db)) = map fp_id (fingerprints db)"
    by (simp add: update_fp_def)
  then show ?thesis by (metis set_map)
qed

lemma update_fp_ok:
  assumes ok: "db_ok db" and le: "fingerprints_sync_seq db \<le> n"
    and ch: "\<And>r. r \<in> set (fingerprints db) \<Longrightarrow> fp_id r = i \<Longrightarrow> row_change_ok f r
      \<and> (fp_sync_seq (f r) = fp_sync_seq r
         \<or> (fingerprints_sync_seq db \<le> fp_sync_seq (f r) \<and> fp_sync_seq (f r) < n))"
  shows "db_ok (update_fp i f (db\<lparr>fingerprints_sync_seq := n\<rparr>))"
proof -
  let ?db' = "update_fp i f (db\<lparr>fingerprints_sync_seq := n\<rparr>)"
  have fo: "fingerprints_ok db" using ok by (simp add: db_ok_def)
  have ids: "distinct (map fp_id (fingerprints db))" using fo by (simp add: fingerprints_ok_def)
  note row = fingerprints_ok_row [OF fo]
  have "fingerprints_ok ?db'"
    unfolding fingerprints_ok_def
  proof (intro conjI ballI)
    show "distinct (map fp_id (fingerprints ?db'))"
    proof -
      have "distinct (map fp_id (map (\<lambda>x. if fp_id x = i then f x else x) (fingerprints db)))"
        using ch by (intro distinct_update_one [OF ids ids]) (auto simp: row_change_ok_def)
      then show ?thesis by (simp add: update_fp_def)
    qed
    show "distinct (map fp_sync_seq (fingerprints ?db'))"
    proof -
      have "distinct (map fp_sync_seq (map (\<lambda>x. if fp_id x = i then f x else x) (fingerprints db)))"
      proof (rule distinct_update_one [OF ids])
        show "distinct (map fp_sync_seq (fingerprints db))" using fo by (simp add: fingerprints_ok_def)
        fix r assume r: "r \<in> set (fingerprints db)" "fp_id r = i"
        show "fp_sync_seq (f r) = fp_sync_seq r \<or> fp_sync_seq (f r) \<notin> fp_sync_seq ` set (fingerprints db)"
          using ch [OF r] row by fastforce
      qed
      then show ?thesis by (simp add: update_fp_def)
    qed
    show "distinct (map (\<lambda>r. (fp_phash_hex r, fp_consumer_id r)) (fingerprints ?db'))"
    proof -
      have "distinct (map (\<lambda>r. (fp_phash_hex r, fp_consumer_id r)) (fingerprints db))"
        using fo by (simp add: fingerprints_ok_def)
      moreover have "(fp_phash_hex (f r), fp_consumer_id (f r)) = (fp_phash_hex r, fp_consumer_id r)"
        if "r \<in> set (fingerprints db)" "fp_id r = i" for r
        using ch [OF that] by (simp add: row_change_ok_def)
      ultimately have "distinct (map (\<lambda>r. (fp_phash_hex r, fp_consumer_id r))
          (map (\<lambda>x. if fp_id x = i then f x else x) (fingerprints db)))"
        by (intro distinct_update_one [OF ids]) blast+
      then show ?thesis by (simp add: update_fp_def)
    qed
  next
    fix r' assume "r' \<in> set (fingerprints ?db')"
    then consider r where "r \<in> set (fingerprints db)" "fp_id r = i" "r' = f r"
      | "r' \<in> set (fingerprints db)" "fp_id r' \<noteq> i"
      by (auto simp: set_update_fp)
    then have all: "fp_id r' < fingerprints_id_seq db \<and> fp_sync_seq r' < n
      \<and> fp_consumer_id r' \<in> cons_id ` set (consumers db)
      \<and> fp_action r' \<in> set VALID_ACTIONS \<and> fp_category r' \<in> set VALID_CATEGORIES
      \<and> 0 \<le> fp_hit_count r' \<and> 0 \<le> fp_flag_count r'"
    proof cases
      case 1
      then show ?thesis using ch [OF 1(1,2)] row [OF 1(1)] le by (auto simp: row_change_ok_def)
    next
      case 2
      then show ?thesis using row [OF 2(1)] le by auto
    qed
    then show "fp_id r' < fingerprints_id_seq ?db'" "fp_sync_seq r' < fingerprints_sync_seq ?db'"
      "fp_consumer_id r' \<in> cons_id ` set (consumers ?db')" "fp_action r' \<in> set VALID_ACTIONS"
      "fp_category r' \<in> set VALID_CATEGORIES" "0 \<le> fp_hit_count r'" "0 \<le> fp_flag_count r'"
      by simp_all
  qed
  moreover have "fp_id ` set (fingerprints ?db') = fp_id ` set (fingerprints db)"
    using ch fp_ids_update [of "db\<lparr>fingerprints_sync_seq := n\<rparr>" i f] by (simp add: row_change_ok_def)
  ultimately show ?thesis
    using ok by (simp add: db_ok_def consumers_ok_def hits_ok_def flags_ok_def)
qed

lemma update_fp_stats_ok:
  assumes "db_ok db"
    and "\<And>r. r \<in> set (fingerprints db) \<Longrightarrow> fp_id r = i \<Longrightarrow>
      row_change_ok f r \<and> fp_sync_seq (f r) = fp_sync_seq r"
  shows "db_ok (update_fp i f db)"
proof -
  have "db_ok (update_fp i f (db\<lparr>fingerprints_sync_seq := fingerprints_sync_seq db\<rparr>))"
    by (rule update_fp_ok) (use assms in auto)
  then show ?thesis by simp
qed

lemma update_fp_content_ok:
  assumes "db_ok db" "nextval_sync db = (seq, db1)"
    and "\<And>r. r \<in> set (fingerprints db) \<Longrightarrow> fp_id r = i \<Longrightarrow>
      row_change_ok f r \<and> fp_sync_seq (f r) = seq"
  shows "db_ok (update_fp i f db1)"
proof -
  have "db1 = db\<lparr>fingerprints_sync_seq := fingerprints_sync_seq db + 1\<rparr>"
    and "seq = fingerprints_sync_seq db"
    using assms(2) by (auto simp: nextval_sync_def)
  then show ?thesis using assms(1,3) by (auto intro!: update_fp_ok)
qed

lemma insert_hit_cases:
  assumes "insert_hit fpid cid guild distance now db = (r, db')"
  obtains (fails) e where "r = Inl e" "db' = db \<or> db' = db\<lparr>hits_id_seq := hits_id_seq db + 1\<rparr>"
  | (inserted) row where "r = Inr ()"
      "row = \<lparr>hit_id = hits_id_seq db, hit_fingerprint_id = fpid, hit_consumer_id = cid,
        hit_guild_id = guild, hit_distance = distance, hit_at_ms = now\<rparr>"
      "db' = db\<lparr>hits_id_seq := hits_id_seq db + 1,
        fingerprint_hits := fingerprint_hits db @ [row]\<rparr>"
      "fpid \<in> fp_id ` set (fingerprints db)" "cid \<in> cons_id ` set (consumers db)"
      "pred_option pg_integer distance"
proof (cases "\<not> pred_option pg_integer distance \<or> \<not> pred_option pg_text guild")
  case True
  then show ?thesis using assms by (intro that(1) [of DataError]) (auto simp: insert_hit_def)
next
  case ok: False
  show ?thesis
  proof (cases "fpid \<notin> fp_id ` set (fingerprints db) \<or> cid \<notin> cons_id ` set (consumers db)")
    case True
    then show ?thesis using assms ok
      by (intro that(1) [of ForeignKeyViolation]) (auto simp: insert_hit_def Let_def)
  next
    case False
    then show ?thesis using assms ok by (intro that(2)) (auto simp: insert_hit_def Let_def)
  qed
qed

lemma insert_hit_ok:
  assumes ok: "db_ok db" and ins: "insert_hit fpid cid guild distance now db = (r, db')"
  shows "db_ok db'" and "seqs_le db db'" and "fingerprints db' = fingerprints db"
    and "fingerprints_sync_seq db' = fingerprints_sync_seq db"
    and "fingerprint_flags db' = fingerprint_flags db"
proof -
  have parts: "consumers_ok db" "fingerprints_ok db" "flags_ok db"
    and old: "\<forall>h \<in> set (fingerprint_hits db). hit_id h < hits_id_seq db
          \<and> hit_fingerprint_id h \<in> fp_id ` set (fingerprints db)
          \<and> hit_consumer_id h \<in> cons_id ` set (consumers db)
          \<and> pred_option pg_integer (hit_distance h)"
    and dist: "distinct (map hit_id (fingerprint_hits db))"
    using ok by (simp_all add: db_ok_def hits_ok_def)
  have new: "hits_id_seq db \<notin> hit_id ` set (fingerprint_hits db)" using old by fastforce
  have lt: "\<forall>h \<in> set (fingerprint_hits db). hit_id h < hits_id_seq db + 1" using old by fastforce
  have seq_ok: "hits_ok db'"
    using ins
  proof (cases rule: insert_hit_cases)
    case fails
    then show ?thesis using old dist lt by (auto simp: hits_ok_def)
  next
    case inserted
    then show ?thesis using old dist lt new by (simp add: hits_ok_def)
  qed
  have rest: "consumers_ok db'" "fingerprints_ok db'" "flags_ok db'"
    using ins parts
    by (cases rule: insert_hit_cases; auto simp: consumers_ok_def fingerprints_ok_def flags_ok_def)+
  show "db_ok db'" using seq_ok rest by (simp add: db_ok_def)
  show "seqs_le db db'" and "fingerprints db' = fingerprints db"
    and "fingerprints_sync_seq db' = fingerprints_sync_seq db"
    and "fingerprint_flags db' = fingerprint_flags db"
    using ins by (cases rule: insert_hit_cases; auto simp: seqs_le_def)+
qed

lemma insert_flag_cases:
  assumes "insert_flag fpid cid reason now db = (r, db')"
  obtains (fails) e where "r = Inl e" "db' = db \<or> db' = db\<lparr>flags_id_seq := flags_id_seq db + 1\<rparr>"
  | (conflict) f where "r = Inr ()" "db' = db\<lparr>flags_id_seq := flags_id_seq db + 1\<rparr>"
      "f \<in> set (fingerprint_flags db)" "flag_fingerprint_id f = fpid" "flag_consumer_id f = cid"
  | (inserted) row where "r = Inr ()"
      "row = \<lparr>flag_id = flags_id_seq db, flag_fingerprint_id = fpid, flag_consumer_id = cid,
        flag_reason = reason, flag_created_at_ms = now\<rparr>"
      "db' = db\<lparr>flags_id_seq := flags_id_seq db + 1,
        fingerprint_flags := fingerprint_flags db @ [row]\<rparr>"
      "fpid \<in> fp_id ` set (fingerprints db)" "cid \<in> cons_id ` set (consumers db)"
      "\<forall>f \<in> set (fingerprint_flags db). \<not> (flag_fingerprint_id f = fpid \<and> flag_consumer_id f = cid)"
proof (cases "pred_option pg_text reason")
  case False
  then show ?thesis using assms by (intro that(1)) (auto simp: insert_flag_def)
next
  case okt: True
  show ?thesis
  proof (cases "\<exists>f \<in> set (fingerprint_flags db). flag_fingerprint_id f = fpid \<and> flag_consumer_id f = cid")
    case True
    then obtain f where f: "f \<in> set (fingerprint_flags db)" "flag_fingerprint_id f = fpid"
      "flag_consumer_id f = cid" by blast
    have "r = Inr ()" and "db' = db\<lparr>flags_id_seq := flags_id_seq db + 1\<rparr>"
      using assms okt True by (auto simp: insert_flag_def Let_def)
    then show ?thesis using f by (rule that(2))
  next
    case fresh: False
    show ?thesis
    proof (cases "fpid \<notin> fp_id ` set (fingerprints db) \<or> cid \<notin> cons_id ` set (consumers db)")
      case True
      then show ?thesis using assms okt fresh
        by (intro that(1) [of ForeignKeyViolation]) (auto simp: insert_flag_def Let_def)
    next
      case False
      then show ?thesis using assms okt fresh
        by (intro that(3)) (auto simp: insert_flag_def Let_def)
    qed
  qed
qed

lemma insert_flag_ok:
  assumes ok: "db_ok db" and ins: "insert_flag fpid cid reason now db = (r, db')"
  shows "db_ok db'" and "seqs_le db db'" and "fingerprints db' = fingerprints db"
    and "fingerprints_sync_seq db' = fingerprints_sync_seq db"
proof -
  have parts: "consumers_ok db" "fingerprints_ok db" "hits_ok db"
    and old: "\<forall>f \<in> set (fingerprint_flags db). flag_id f < flags_id_seq db
          \<and> flag_fingerprint_id f \<in> fp_id ` set (fingerprints db)
          \<and> flag_consumer_id f \<in> cons_id ` set (consumers db)"
    and dist: "distinct (map flag_id (fingerprint_flags db))"
      "distinct (map (\<lambda>f. (flag_fingerprint_id f, flag_consumer_id f)) (fingerprint_flags db))"
    using ok by (simp_all add: db_ok_def flags_ok_def)
  have new: "flags_id_seq db \<notin> flag_id ` set (fingerprint_flags db)" using old by fastforce
  have lt: "\<forall>f \<in> set (fingerprint_flags db). flag_id f < flags_id_seq db + 1" using old by fastforce
  have "flags_ok db'"
    using ins
  proof (cases rule: insert_flag_cases)
    case fails
    then show ?thesis using old dist lt by (auto simp: flags_ok_def)
  next
    case conflict
    then show ?thesis using old dist lt by (simp add: flags_ok_def)
  next
    case inserted
    have "(fpid, cid) \<notin> (\<lambda>f. (flag_fingerprint_id f, flag_consumer_id f)) ` set (fingerprint_flags db)"
      using inserted(6) by auto
    then show ?thesis using inserted old dist lt new by (simp add: flags_ok_def)
  qed
  moreover have "consumers_ok db'" "fingerprints_ok db'" "hits_ok db'"
    using ins parts
    by (cases rule: insert_flag_cases; auto simp: consumers_ok_def fingerprints_ok_def hits_ok_def)+
  ultimately show "db_ok db'" by (simp add: db_ok_def)
  show "seqs_le db db'" and "fingerprints db' = fingerprints db"
    and "fingerprints_sync_seq db' = fingerprints_sync_seq db"
    using ins by (cases rule: insert_flag_cases; auto simp: seqs_le_def)+
qed

lemma delete_flags_ok:
  assumes "db_ok db"
  shows "db_ok (delete_flags_of i db)" and "seqs_le db (delete_flags_of i db)"
  using assms by (auto simp: delete_flags_of_def db_ok_defs seqs_le_def distinct_map_filter_key)

lemma delete_fps_kept_ids:
  "fp_id ` set (fingerprints db) - fp_id ` set (filter P (fingerprints db))
    \<subseteq> fp_id ` set (fingerprints (delete_fps P db))"
  by (auto simp: delete_fps_def Let_def)

lemma delete_fps_ok:
  assumes "db_ok db"
  shows "db_ok (delete_fps P db)" and "seqs_le db (delete_fps P db)"
proof -
  let ?db' = "delete_fps P db"
  have "consumers_ok ?db'" using assms by (simp add: db_ok_def consumers_ok_def delete_fps_def Let_def)
  moreover have "fingerprints_ok ?db'"
    using assms
    by (simp add: db_ok_def fingerprints_ok_def delete_fps_def Let_def distinct_map_filter_key)
  moreover have "hits_ok ?db'"
  proof -
    have "hits_ok db" using assms by (simp add: db_ok_def)
    then show ?thesis
      using delete_fps_kept_ids [of db P]
      by (auto simp: hits_ok_def delete_fps_def Let_def distinct_map_filter_key)
  qed
  moreover have "flags_ok ?db'"
  proof -
    have "flags_ok db" using assms by (simp add: db_ok_def)
    then show ?thesis
      using delete_fps_kept_ids [of db P]
      by (auto simp: flags_ok_def delete_fps_def Let_def distinct_map_filter_key)
  qed
  ultimately show "db_ok ?db'" by (simp add: db_ok_def)
  show "seqs_le db ?db'" by (simp add: seqs_le_def delete_fps_def Let_def)
qed

text \<open>What an INSERT into fingerprints does, case by case.\<close>

lemma insert_fp_cases:
  assumes "insert_fp v db = (r, db')"
  obtains (data) "r = Inl DataError" "db' = db"
  | (fails) e where "r = Inl e" "db' = db\<lparr>fingerprints_id_seq := fingerprints_id_seq db + 1,
      fingerprints_sync_seq := fingerprints_sync_seq db + 1\<rparr>"
  | (conflict) row where "r = Inr None" "db' = db\<lparr>fingerprints_id_seq := fingerprints_id_seq db + 1,
      fingerprints_sync_seq := fingerprints_sync_seq db + 1\<rparr>"
      "select_fp_by_phash (fp_phash_hex v) (fp_consumer_id v) db = Some row"
  | (inserted) row where "r = Inr (Some row)"
      "row = v\<lparr>fp_id := fingerprints_id_seq db, fp_sync_seq := fingerprints_sync_seq db\<rparr>"
      "db' = db\<lparr>fingerprints_id_seq := fingerprints_id_seq db + 1,
        fingerprints_sync_seq := fingerprints_sync_seq db + 1,
        fingerprints := fingerprints db @ [row]\<rparr>"
      "fp_action v \<in> set VALID_ACTIONS" "fp_category v \<in> set VALID_CATEGORIES"
      "0 \<le> fp_hit_count v" "0 \<le> fp_flag_count v"
      "fp_consumer_id v \<in> cons_id ` set (consumers db)"
      "select_fp_by_phash (fp_phash_hex v) (fp_consumer_id v) db = None"
proof -
  define bad where "bad \<longleftrightarrow> \<not> list_all pg_text [fp_phash_hex v, fp_algorithm v,
      fp_algorithm_version v, fp_normalization_version v, fp_category v, fp_action v,
      fp_provenance v] \<or> \<not> pred_option pg_text (fp_source_guild_id v)
      \<or> \<not> pred_option pg_text (fp_reason v) \<or> \<not> pred_option pg_text (fp_source_url v)"
  define chk where "chk \<longleftrightarrow> fp_action v \<notin> set VALID_ACTIONS \<or> fp_category v \<notin> set VALID_CATEGORIES
      \<or> fp_hit_count v < 0 \<or> fp_flag_count v < 0"
  have unfolded: "insert_fp v db =
     (if bad then (Inl DataError, db)
      else let row = v\<lparr>fp_id := fingerprints_id_seq db, fp_sync_seq := fingerprints_sync_seq db\<rparr>;
             db1 = db\<lparr>fingerprints_id_seq := fingerprints_id_seq db + 1,
                      fingerprints_sync_seq := fingerprints_sync_seq db + 1\<rparr>
        in if chk then (Inl CheckViolation, db1)
           else if select_fp_by_phash (fp_phash_hex v) (fp_consumer_id v) db \<noteq> None
           then (Inr None, db1)
           else if fp_consumer_id v \<notin> cons_id ` set (consumers db)
           then (Inl ForeignKeyViolation, db1)
           else (Inr (Some row), db1\<lparr>fingerprints := fingerprints db @ [row]\<rparr>))"
    unfolding insert_fp_def bad_def chk_def by (simp add: Let_def)
  show ?thesis
  proof (cases bad)
    case True
    then show ?thesis using assms unfolded by (intro that(1)) simp_all
  next
    case nbad: False
    show ?thesis
    proof (cases chk)
      case True
      then show ?thesis using assms unfolded nbad
        by (intro that(2) [of CheckViolation]) (simp_all add: Let_def)
    next
      case nchk: False
      show ?thesis
      proof (cases "select_fp_by_phash (fp_phash_hex v) (fp_consumer_id v) db")
        case (Some row)
        then show ?thesis using assms unfolded nbad nchk
          by (intro that(3) [of row]) (simp_all add: Let_def)
      next
        case none: None
        show ?thesis
        proof (cases "fp_consumer_id v \<in> cons_id ` set (consumers db)")
          case False
          then show ?thesis using assms unfolded nbad nchk none
            by (intro that(2) [of ForeignKeyViolation]) (simp_all add: Let_def)
        next
          case True
          then show ?thesis using assms unfolded nbad nchk none
            by (intro that(4)) (auto simp: Let_def chk_def)
        qed
      qed
    qed
  qed
qed

lemma bump_seqs_ok:
  assumes "db_ok db"
  shows "db_ok (db\<lparr>fingerprints_id_seq := fingerprints_id_seq db + 1,
      fingerprints_sync_seq := fingerprints_sync_seq db + 1\<rparr>)" (is "db_ok ?db'")
proof -
  have "\<forall>r \<in> set (fingerprints db). fp_id r < fingerprints_id_seq db + 1
      \<and> fp_sync_seq r < fingerprints_sync_seq db + 1"
    using assms by (fastforce simp: db_ok_def fingerprints_ok_def)
  then have "fingerprints_ok ?db'" using assms by (simp add: db_ok_def fingerprints_ok_def)
  moreover have "hits_ok ?db'" "flags_ok ?db'" "consumers_ok ?db'"
    using assms by (auto simp: db_ok_def hits_ok_def flags_ok_def consumers_ok_def)
  ultimately show ?thesis by (simp add: db_ok_def)
qed

lemma append_fp_ok:
  assumes ok: "db_ok db" and id: "fp_id row = fingerprints_id_seq db"
    and seq: "fp_sync_seq row = fingerprints_sync_seq db"
    and chk: "fp_action row \<in> set VALID_ACTIONS" "fp_category row \<in> set VALID_CATEGORIES"
      "0 \<le> fp_hit_count row" "0 \<le> fp_flag_count row"
      "fp_consumer_id row \<in> cons_id ` set (consumers db)"
    and fresh: "select_fp_by_phash (fp_phash_hex row) (fp_consumer_id row) db = None"
  shows "db_ok (db\<lparr>fingerprints_id_seq := fingerprints_id_seq db + 1,
      fingerprints_sync_seq := fingerprints_sync_seq db + 1,
      fingerprints := fingerprints db @ [row]\<rparr>)" (is "db_ok ?db'")
proof -
  have fo: "fingerprints_ok db" using ok by (simp add: db_ok_def)
  note rows = fingerprints_ok_row [OF fo]
  have "fp_id row \<notin> fp_id ` set (fingerprints db)"
    and "fp_sync_seq row \<notin> fp_sync_seq ` set (fingerprints db)"
    using rows id seq by fastforce+
  moreover have "(fp_phash_hex row, fp_consumer_id row)
      \<notin> (\<lambda>r. (fp_phash_hex r, fp_consumer_id r)) ` set (fingerprints db)"
    by (rule iffD1 [OF select_fp_by_phash_None_iff fresh])
  moreover have "\<forall>r \<in> set (fingerprints ?db'). fp_id r < fingerprints_id_seq ?db'
          \<and> fp_sync_seq r < fingerprints_sync_seq ?db'
          \<and> fp_consumer_id r \<in> cons_id ` set (consumers ?db')
          \<and> fp_action r \<in> set VALID_ACTIONS \<and> fp_category r \<in> set VALID_CATEGORIES
          \<and> 0 \<le> fp_hit_count r \<and> 0 \<le> fp_flag_count r"
    using rows chk id seq by fastforce
  ultimately have "fingerprints_ok ?db'"
    using fo by (simp add: fingerprints_ok_def)
  moreover have "hits_ok ?db'" and "flags_ok ?db'" and "consumers_ok ?db'"
    using ok by (auto simp: db_ok_def hits_ok_def flags_ok_def consumers_ok_def)
  ultimately show ?thesis by (simp add: db_ok_def)
qed

lemma insert_fp_ok:
  assumes "db_ok db" "insert_fp v db = (r, db')"
  shows "db_ok db'" and "seqs_le db db'"
proof -
  show "db_ok db'"
    using assms(2)
  proof (cases rule: insert_fp_cases)
    case (inserted row)
    then show ?thesis
      using append_fp_ok [OF assms(1), of row] by simp
  qed (use assms(1) bump_seqs_ok in simp_all)
  show "seqs_le db db'"
    using assms(2) by (cases rule: insert_fp_cases) (simp_all add: seqs_le_def)
qed

end
