(* ===== verification/Store_Contracts.thy ===== *)
theory Store_Contracts
  imports Store_Invariants
begin

text \<open>
  What the operations of the store promise the sync feed and the schema. Three contracts: a store
  operation keeps the declared constraints and never moves a sequence back; a content operation
  moreover gives every row whose peer-visible columns it changes a sync_seq no row had before and
  removes no row; a statistics operation leaves the feed as it is. Every operation of
  \<^verbatim>\<open>api/fingerprint_store.py\<close> is interpreted as an instance of the strongest contract it has.
\<close>

section \<open>What a peer can observe\<close>

definition feed_entry :: "fingerprint_row \<Rightarrow> sync_row \<times> int" where
  "feed_entry r = (sync_columns r, fp_consumer_id r)"

definition advances :: "db \<Rightarrow> db \<Rightarrow> bool" where
  "advances db db' \<longleftrightarrow> fingerprints_sync_seq db \<le> fingerprints_sync_seq db'
     \<and> (\<forall>r' \<in> set (fingerprints db'). feed_entry r' \<in> feed_entry ` set (fingerprints db)
          \<or> fingerprints_sync_seq db \<le> fp_sync_seq r')
     \<and> (\<forall>r \<in> set (fingerprints db). \<exists>r' \<in> set (fingerprints db').
          fp_id r' = fp_id r \<and> fp_consumer_id r' = fp_consumer_id r)"

lemma feed_entry_eqD:
  assumes "feed_entry r = feed_entry r'"
  shows "sync_columns r = sync_columns r'" "fp_consumer_id r = fp_consumer_id r'"
    "fp_id r = fp_id r'" "fp_sync_seq r = fp_sync_seq r'" "fp_status r = fp_status r'"
    "fp_algorithm r = fp_algorithm r'" "fp_algorithm_version r = fp_algorithm_version r'"
    "fp_normalization_version r = fp_normalization_version r'"
  using assms by (auto simp: feed_entry_def sync_columns_def)

lemma advances_refl [simp]: "advances db db"
  by (auto simp: advances_def)

lemma advances_trans:
  assumes "advances a b" "advances b c"
  shows "advances a c"
  unfolding advances_def
proof (intro conjI ballI)
  show "fingerprints_sync_seq a \<le> fingerprints_sync_seq c"
    using assms by (auto simp: advances_def)
next
  fix r'' assume r'': "r'' \<in> set (fingerprints c)"
  consider r' where "r' \<in> set (fingerprints b)" "feed_entry r'' = feed_entry r'"
    | "fingerprints_sync_seq b \<le> fp_sync_seq r''"
    using assms(2) r'' unfolding advances_def by blast
  then show "feed_entry r'' \<in> feed_entry ` set (fingerprints a) \<or> fingerprints_sync_seq a \<le> fp_sync_seq r''"
  proof cases
    case 1
    then have "feed_entry r' \<in> feed_entry ` set (fingerprints a)
      \<or> fingerprints_sync_seq a \<le> fp_sync_seq r'"
      using assms(1) unfolding advances_def by blast
    then show ?thesis using 1(2) feed_entry_eqD(4) [OF 1(2)] by auto
  next
    case 2
    then show ?thesis using assms(1) unfolding advances_def by linarith
  qed
next
  fix r assume "r \<in> set (fingerprints a)"
  then obtain r' where "r' \<in> set (fingerprints b)" "fp_id r' = fp_id r"
    "fp_consumer_id r' = fp_consumer_id r"
    using assms(1) unfolding advances_def by blast
  moreover from this obtain r'' where "r'' \<in> set (fingerprints c)" "fp_id r'' = fp_id r'"
    "fp_consumer_id r'' = fp_consumer_id r'"
    using assms(2) unfolding advances_def by blast
  ultimately show "\<exists>r'' \<in> set (fingerprints c). fp_id r'' = fp_id r \<and> fp_consumer_id r'' = fp_consumer_id r"
    by auto
qed

text \<open>The feed as a whole: what a statistics operation must not change.\<close>

definition feed :: "db \<Rightarrow> (sync_row \<times> int) list" where
  "feed db = map feed_entry (fingerprints db)"

lemma advances_same_feed:
  assumes "feed db' = feed db" "fingerprints_sync_seq db \<le> fingerprints_sync_seq db'"
  shows "advances db db'"
proof -
  have sets: "feed_entry ` set (fingerprints db') = feed_entry ` set (fingerprints db)"
    using assms(1) unfolding feed_def by (metis set_map)
  show ?thesis
    unfolding advances_def
  proof (intro conjI ballI)
    fix r assume "r \<in> set (fingerprints db)"
    then obtain r' where "r' \<in> set (fingerprints db')" "feed_entry r = feed_entry r'"
      using sets by (metis image_iff)
    then show "\<exists>r' \<in> set (fingerprints db'). fp_id r' = fp_id r \<and> fp_consumer_id r' = fp_consumer_id r"
      by (metis feed_entry_eqD(2,3))
  qed (use assms(2) sets in auto)
qed

lemma advances_rollback:
  "seqs_le db db' \<Longrightarrow> advances db (rollback db db')"
  by (rule advances_same_feed) (auto simp: feed_def seqs_le_def)

section \<open>The contracts\<close>

locale store_op =
  fixes step :: "db \<Rightarrow> db"
  assumes step_ok: "db_ok db \<Longrightarrow> db_ok (step db)"
    and step_seqs: "db_ok db \<Longrightarrow> seqs_le db (step db)"
begin

lemma iterate_ok: "db_ok db \<Longrightarrow> db_ok ((step ^^ n) db)"
  by (induction n) (auto simp: step_ok)

end

locale content_op = store_op +
  assumes step_advances: "db_ok db \<Longrightarrow> advances db (step db)"
begin

lemma step_keeps_ids:
  "db_ok db \<Longrightarrow> fp_id ` set (fingerprints db) \<subseteq> fp_id ` set (fingerprints (step db))"
proof
  fix i assume ok: "db_ok db" and "i \<in> fp_id ` set (fingerprints db)"
  then obtain r where "r \<in> set (fingerprints db)" "fp_id r = i" by blast
  then show "i \<in> fp_id ` set (fingerprints (step db))"
    using step_advances [OF ok] unfolding advances_def by (metis imageI)
qed

text \<open>A row whose sync_seq did not move has not changed for any peer.\<close>

lemma old_cursor_old_content:
  assumes "db_ok db" "r' \<in> set (fingerprints (step db))"
    and "fp_sync_seq r' < fingerprints_sync_seq db"
  shows "feed_entry r' \<in> feed_entry ` set (fingerprints db)"
  using step_advances [OF assms(1)] assms(2,3) unfolding advances_def by fastforce

lemma iterate_advances: "db_ok db \<Longrightarrow> advances db ((step ^^ n) db)"
proof (induction n)
  case 0
  then show ?case by simp
next
  case (Suc n)
  then have "advances ((step ^^ n) db) (step ((step ^^ n) db))"
    using step_advances iterate_ok by blast
  with Suc show ?case by (auto intro: advances_trans)
qed

end

locale stats_op =
  fixes step :: "db \<Rightarrow> db"
  assumes stats_ok: "db_ok db \<Longrightarrow> db_ok (step db)"
    and stats_seqs: "db_ok db \<Longrightarrow> seqs_le db (step db)"
    and stats_feed: "db_ok db \<Longrightarrow> feed (step db) = feed db"

sublocale stats_op \<subseteq> content_op step
proof unfold_locales
  fix db assume ok: "db_ok db"
  show "advances db (step db)"
    using stats_feed [OF ok] stats_seqs [OF ok] by (intro advances_same_feed) (auto simp: seqs_le_def)
qed (use stats_ok stats_seqs in auto)

section \<open>Transactions and connections carry the contracts\<close>

text \<open>
  A contract of a transaction body, whatever it returns, is one of the transaction and of the
  operation that runs it on a connection.
\<close>

definition body_ok :: "(db \<Rightarrow> 'a result \<times> db) \<Rightarrow> bool" where
  "body_ok body \<longleftrightarrow> (\<forall>db. db_ok db \<longrightarrow> db_ok (snd (body db)) \<and> seqs_le db (snd (body db)))"

lemma transaction_ok:
  assumes "body_ok body" "db_ok db"
  shows "db_ok (snd (transaction fr body db))" and "seqs_le db (snd (transaction fr body db))"
proof -
  obtain r db' where b: "body db = (r, db')" by fastforce
  have "db_ok db'" "seqs_le db db'" using assms b by (metis body_ok_def snd_conv)+
  then show "db_ok (snd (transaction fr body db))" "seqs_le db (snd (transaction fr body db))"
    using assms(2) by (auto simp: transaction_def b db_ok_rollback) (simp_all add: seqs_le_def)
qed

lemma connection_ok:
  assumes "body_ok body" "db_ok db"
  shows "db_ok (snd (with_connection up (transaction fr body) db))"
    and "seqs_le db (snd (with_connection up (transaction fr body) db))"
  using transaction_ok [OF assms, of fr] assms(2) by (simp_all add: with_connection_def)

lemma connection_advances:
  assumes "body_ok body" "db_ok db"
    and "\<And>x. fst (body db) = Inr x \<Longrightarrow> advances db (snd (body db))"
  shows "advances db (snd (with_connection up (transaction fr body) db))"
proof -
  obtain r db' where b: "body db = (r, db')" by fastforce
  have "seqs_le db db'" using assms b by (metis body_ok_def snd_conv)
  moreover have "is_ok r \<Longrightarrow> advances db db'" using assms(3) b by (cases r) auto
  ultimately show ?thesis
    by (auto simp: with_connection_def transaction_def b advances_rollback)
qed

lemma connection_feed:
  assumes "\<And>x. fst (body db) = Inr x \<Longrightarrow> feed (snd (body db)) = feed db"
  shows "feed (snd (with_connection up (transaction fr body) db)) = feed db"
proof -
  obtain r db' where b: "body db = (r, db')" by fastforce
  have "is_ok r \<Longrightarrow> feed db' = feed db" using assms b by (cases r) auto
  then show ?thesis by (auto simp: with_connection_def transaction_def b feed_def)
qed

section \<open>Row updates and the feed\<close>

lemma feed_update_fp_same:
  "(\<And>r. r \<in> set (fingerprints db) \<Longrightarrow> fp_id r = i \<Longrightarrow> feed_entry (f r) = feed_entry r) \<Longrightarrow>
    feed (update_fp i f db) = feed db"
  by (simp add: feed_def update_fp_def)

lemma advances_update_fp:
  assumes "fingerprints db1 = fingerprints db" "fingerprints_sync_seq db \<le> fingerprints_sync_seq db1"
    and "\<And>r. r \<in> set (fingerprints db) \<Longrightarrow> fp_id r = i \<Longrightarrow>
      fp_id (f r) = fp_id r \<and> fp_consumer_id (f r) = fp_consumer_id r
      \<and> fingerprints_sync_seq db \<le> fp_sync_seq (f r)"
  shows "advances db (update_fp i f db1)"
  unfolding advances_def
proof (intro conjI ballI)
  fix r' assume "r' \<in> set (fingerprints (update_fp i f db1))"
  then show "feed_entry r' \<in> feed_entry ` set (fingerprints db) \<or> fingerprints_sync_seq db \<le> fp_sync_seq r'"
    using assms(1,3) by (auto simp: set_update_fp)
next
  fix r assume r: "r \<in> set (fingerprints db)"
  show "\<exists>r' \<in> set (fingerprints (update_fp i f db1)). fp_id r' = fp_id r \<and> fp_consumer_id r' = fp_consumer_id r"
  proof (cases "fp_id r = i")
    case True
    then have "f r \<in> set (fingerprints (update_fp i f db1))"
      using r assms(1) by (auto simp: set_update_fp)
    then show ?thesis using assms(3) [OF r True] by blast
  next
    case False
    then have "r \<in> set (fingerprints (update_fp i f db1))"
      using r assms(1) by (auto simp: set_update_fp)
    then show ?thesis by blast
  qed
qed (use assms(2) in simp)

section \<open>Contribute\<close>

lemma nextval_sync_eqs:
  "fst (nextval_sync db) = fingerprints_sync_seq db"
  "snd (nextval_sync db) = db\<lparr>fingerprints_sync_seq := fingerprints_sync_seq db + 1\<rparr>"
  by (simp_all add: nextval_sync_def)

lemma nextval_sync_ok:
  assumes "db_ok db"
  shows "db_ok (db\<lparr>fingerprints_sync_seq := fingerprints_sync_seq db + 1\<rparr>)"
proof -
  have "fingerprints_ok (db\<lparr>fingerprints_sync_seq := fingerprints_sync_seq db + 1\<rparr>)"
    using assms by (fastforce simp: db_ok_def fingerprints_ok_def)
  then show ?thesis
    using assms by (simp add: db_ok_def consumers_ok_def hits_ok_def flags_ok_def)
qed

text \<open>What the resurrecting branch does, case by case.\<close>

lemma resurrect_cases:
  assumes "resurrect c er eu eg i db = (r, db')"
  obtains (fails) e where "r = Inl e" "db' = delete_flags_of i db
      \<or> db' = (delete_flags_of i db)\<lparr>fingerprints_sync_seq := fingerprints_sync_seq db + 1\<rparr>"
  | (resurrected) "r = Inr (select_fp i db')"
      "db' = update_fp i (resurrect_row c er eu eg (fingerprints_sync_seq db))
         ((delete_flags_of i db)\<lparr>fingerprints_sync_seq := fingerprints_sync_seq db + 1\<rparr>)"
      "con_action c \<in> set VALID_ACTIONS" "con_category c \<in> set VALID_CATEGORIES"
proof -
  define bad where "bad \<longleftrightarrow> \<not> list_all pg_text [con_algorithm c, con_algorithm_version c,
       con_normalization_version c, con_category c, con_action c, con_provenance c]
       \<or> \<not> pred_option pg_text eg \<or> \<not> pred_option pg_text er \<or> \<not> pred_option pg_text eu"
  define chk where "chk \<longleftrightarrow> con_action c \<notin> set VALID_ACTIONS \<or> con_category c \<notin> set VALID_CATEGORIES"
  define db2 where "db2 = (delete_flags_of i db)\<lparr>fingerprints_sync_seq := fingerprints_sync_seq db + 1\<rparr>"
  define db3 where "db3 = update_fp i (resurrect_row c er eu eg (fingerprints_sync_seq db)) db2"
  have seq: "fingerprints_sync_seq (delete_flags_of i db) = fingerprints_sync_seq db"
    by (simp add: delete_flags_of_def)
  have unfolded: "resurrect c er eu eg i db =
     (if bad then (Inl DataError, delete_flags_of i db)
      else if chk then (Inl CheckViolation, db2) else (Inr (select_fp i db3), db3))"
    unfolding resurrect_def bad_def chk_def db3_def db2_def
    by (simp only: Let_def nextval_sync_def seq prod.case)
  show ?thesis
  proof (cases bad)
    case True
    show ?thesis by (rule that(1) [of DataError]) (use assms unfolded True in auto)
  next
    case nbad: False
    show ?thesis
    proof (cases chk)
      case True
      show ?thesis
        by (rule that(1) [of CheckViolation]) (use assms unfolded nbad True in \<open>auto simp: db2_def\<close>)
    next
      case False
      have "db' = db3" and "r = Inr (select_fp i db3)" using assms unfolded nbad False by auto
      then show ?thesis using False by (intro that(2)) (simp_all add: db3_def db2_def chk_def)
    qed
  qed
qed

lemma resurrect_row_fields [simp]:
  "fp_id (resurrect_row c er eu eg seq r) = fp_id r"
  "fp_phash_hex (resurrect_row c er eu eg seq r) = fp_phash_hex r"
  "fp_consumer_id (resurrect_row c er eu eg seq r) = fp_consumer_id r"
  "fp_sync_seq (resurrect_row c er eu eg seq r) = seq"
  "fp_action (resurrect_row c er eu eg seq r) = con_action c"
  "fp_category (resurrect_row c er eu eg seq r) = con_category c"
  "fp_hit_count (resurrect_row c er eu eg seq r) = fp_hit_count r"
  "fp_flag_count (resurrect_row c er eu eg seq r) = 0"
  "fp_status (resurrect_row c er eu eg seq r) = Active"
  by (simp_all add: resurrect_row_def)

lemma delete_flags_fields [simp]:
  "fingerprints (delete_flags_of i db) = fingerprints db"
  "consumers (delete_flags_of i db) = consumers db"
  "fingerprint_hits (delete_flags_of i db) = fingerprint_hits db"
  "fingerprints_sync_seq (delete_flags_of i db) = fingerprints_sync_seq db"
  by (simp_all add: delete_flags_of_def)

lemma resurrect_ok:
  assumes ok: "db_ok db" and res: "resurrect c er eu eg i db = (r, db')"
  shows "db_ok db'" and "seqs_le db db'"
    and "r = Inr x \<Longrightarrow> advances db db'"
proof -
  note dok = delete_flags_ok [OF ok, of i]
  have fo: "fingerprints_ok db" using ok by (simp add: db_ok_def)
  let ?f = "resurrect_row c er eu eg (fingerprints_sync_seq db)"
  have changed_ok: "db_ok (update_fp i ?f
      ((delete_flags_of i db)\<lparr>fingerprints_sync_seq := fingerprints_sync_seq db + 1\<rparr>))"
    if "con_action c \<in> set VALID_ACTIONS" "con_category c \<in> set VALID_CATEGORIES"
    using dok(1) that fingerprints_ok_row [OF fo]
    by (intro update_fp_ok) (auto simp: row_change_ok_def)
  show "db_ok db'"
    using res by (cases rule: resurrect_cases) (use dok nextval_sync_ok [OF dok(1)] changed_ok in auto)
  show "seqs_le db db'"
    using res by (cases rule: resurrect_cases) (use dok(2) in \<open>auto simp: seqs_le_def\<close>)
  show "r = Inr x \<Longrightarrow> advances db db'"
    using res
    by (cases rule: resurrect_cases) (auto intro!: advances_update_fp)
qed

lemma insert_fp_advances:
  assumes "insert_fp v db = (r, db')" "r = Inr x"
  shows "advances db db'"
  using assms(1)
proof (cases rule: insert_fp_cases)
  case conflict
  then show ?thesis by (intro advances_same_feed) (auto simp: feed_def)
next
  case inserted
  then show ?thesis by (auto simp: advances_def)
qed (use assms(2) in auto)

lemma contribute_txn_ok: "body_ok (contribute_txn c er eu eg)"
  unfolding body_ok_def
proof (intro allI impI)
  fix db assume ok: "db_ok db"
  show "db_ok (snd (contribute_txn c er eu eg db)) \<and> seqs_le db (snd (contribute_txn c er eu eg db))"
    using ok insert_fp_ok [OF ok] resurrect_ok(1,2) [OF ok]
    by (simp add: contribute_txn_def split: option.split prod.split sum.split)
qed

lemma contribute_txn_advances:
  assumes "db_ok db" "fst (contribute_txn c er eu eg db) = Inr x"
  shows "advances db (snd (contribute_txn c er eu eg db))"
proof (cases "select_fp_by_phash (con_phash_hex c) (con_consumer_id c) db")
  case None
  then show ?thesis
    using assms(2) insert_fp_advances
    by (auto simp: contribute_txn_def split: prod.splits sum.splits option.splits if_splits)
next
  case (Some ex)
  then show ?thesis
    using assms resurrect_ok(3) [OF assms(1)]
    by (auto simp: contribute_txn_def split: prod.splits sum.splits if_splits)
qed

interpretation contribute_op: content_op "\<lambda>db. snd (contribute K up nonces c db)"
  for K up nonces c
proof unfold_locales
  fix db assume ok: "db_ok db"
  show "db_ok (snd (contribute K up nonces c db))" and "seqs_le db (snd (contribute K up nonces c db))"
    and "advances db (snd (contribute K up nonces c db))"
    using ok connection_ok [OF contribute_txn_ok ok] contribute_txn_advances [OF ok]
    by (auto simp: contribute_def connection_advances [OF contribute_txn_ok ok] split: sum.split)
qed

section \<open>Report hit\<close>

abbreviation hit_update :: "int \<Rightarrow> fingerprint_row \<Rightarrow> fingerprint_row" where
  "hit_update now \<equiv> (\<lambda>r. r\<lparr>fp_hit_count := fp_hit_count r + 1, fp_last_hit_at_ms := Some now\<rparr>)"

lemma report_hit_txn_cases:
  assumes "report_hit_txn K nonce fpid cid guild distance now db = (r, db')"
  obtains (absent) "r = Inr None" "db' = db"
      "select_fp fpid db = None \<or> (\<exists>fp. select_fp fpid db = Some fp \<and> fp_status fp = Deleted)"
  | (fails) e where "r = Inl e" "db' = db \<or> db' = db\<lparr>hits_id_seq := hits_id_seq db + 1\<rparr>"
  | (recorded) fp eg db1 where "select_fp fpid db = Some fp" "fp_status fp \<noteq> Deleted"
      "encrypt_field K nonce guild = Inr eg"
      "insert_hit fpid cid eg distance now db = (Inr (), db1)"
      "r = Inr (Some (fp_hit_count fp + 1))" "db' = update_fp fpid (hit_update now) db1"
proof (cases "select_fp fpid db")
  case None
  then show ?thesis using assms by (intro that(1)) (auto simp: report_hit_txn_def)
next
  case (Some fp)
  note sel = Some
  show ?thesis
  proof (cases "fp_status fp = Deleted")
    case True
    then show ?thesis using assms sel by (intro that(1)) (auto simp: report_hit_txn_def)
  next
    case live: False
    show ?thesis
    proof (cases "encrypt_field K nonce guild")
      case (Inl e)
      then show ?thesis using assms sel live
        by (intro that(2) [of e]) (auto simp: report_hit_txn_def)
    next
      case (Inr eg)
      obtain r1 db1 where ins: "insert_hit fpid cid eg distance now db = (r1, db1)" by fastforce
      then show ?thesis
      proof (cases rule: insert_hit_cases)
        case (fails e)
        then show ?thesis using assms sel live Inr ins
          by (intro that(2) [of e]) (auto simp: report_hit_txn_def)
      next
        case (inserted row)
        have "select_fp fpid db1 = Some fp"
          using sel inserted(3) by (simp add: select_fp_def)
        then have "select_fp fpid (update_fp fpid (hit_update now) db1) = Some (hit_update now fp)"
          by (simp add: select_fp_update)
        then show ?thesis using assms sel live Inr ins inserted(1)
          by (intro that(3) [of fp eg db1]) (auto simp: report_hit_txn_def Let_def)
      qed
    qed
  qed
qed

lemma report_hit_txn_ok:
  assumes ok: "db_ok db" and run: "report_hit_txn K nonce fpid cid guild distance now db = (r, db')"
  shows "db_ok db'" and "seqs_le db db'" and "feed db' = feed db"
proof -
  have all: "db_ok db' \<and> seqs_le db db' \<and> feed db' = feed db"
    using run
  proof (cases rule: report_hit_txn_cases)
    case absent
    then show ?thesis using ok by simp
  next
    case fails
    have "hits_ok (db\<lparr>hits_id_seq := hits_id_seq db + 1\<rparr>)"
      using ok by (fastforce simp: db_ok_def hits_ok_def)
    then have "db_ok (db\<lparr>hits_id_seq := hits_id_seq db + 1\<rparr>)"
      using ok by (simp add: db_ok_def consumers_ok_def fingerprints_ok_def flags_ok_def)
    then show ?thesis using fails ok by (auto simp: seqs_le_def feed_def)
  next
    case (recorded fp eg db1)
    note ins = insert_hit_ok [OF ok recorded(4)]
    have "fingerprints_ok db1" using ins(1) by (simp add: db_ok_def)
    note row = fingerprints_ok_row [OF this]
    have "db_ok db'"
      unfolding recorded(6) using ins(1) row
      by (intro update_fp_stats_ok) (auto simp: row_change_ok_def)
    moreover have "feed db' = feed db1"
      unfolding recorded(6)
      by (intro feed_update_fp_same) (simp add: feed_entry_def sync_columns_def)
    ultimately show ?thesis using ins recorded(6) by (simp add: feed_def)
  qed
  then show "db_ok db'" "seqs_le db db'" "feed db' = feed db" by simp_all
qed

lemma report_hit_body_ok: "body_ok (report_hit_txn K nonce fpid cid guild distance now)"
  unfolding body_ok_def using report_hit_txn_ok(1,2) by (metis prod.collapse)

interpretation report_hit_op: stats_op "\<lambda>db. snd (report_hit K up nonce fpid cid guild distance now db)"
  for K up nonce fpid cid guild distance now
proof unfold_locales
  fix db assume ok: "db_ok db"
  show "db_ok (snd (report_hit K up nonce fpid cid guild distance now db))"
    and "seqs_le db (snd (report_hit K up nonce fpid cid guild distance now db))"
    unfolding report_hit_def by (rule connection_ok [OF report_hit_body_ok ok])+
  show "feed (snd (report_hit K up nonce fpid cid guild distance now db)) = feed db"
    unfolding report_hit_def using report_hit_txn_ok(3) [OF ok]
    by (intro connection_feed) (metis prod.collapse)
qed

section \<open>Flag\<close>

lemma count_flaggers_nonneg [simp]: "0 \<le> count_flaggers fpid db"
  by (simp add: count_flaggers_def)

lemma flag_txn_cases:
  assumes "flag_txn K nonce fpid cid reason now thr db = (r, db')"
  obtains (absent) "r = Inr None" "db' = db"
      "select_fp fpid db = None \<or> (\<exists>fp. select_fp fpid db = Some fp \<and> fp_status fp = Deleted)"
  | (fails) e where "r = Inl e" "db' = db \<or> db' = db\<lparr>flags_id_seq := flags_id_seq db + 1\<rparr>"
  | (hides) fp er db1 where "select_fp fpid db = Some fp" "fp_status fp = Active"
      "insert_flag fpid cid er now db = (Inr (), db1)" "thr \<le> count_flaggers fpid db1"
      "r = Inr (Some \<lparr>fr_flag_count = count_flaggers fpid db1, fr_status = Hidden, fr_hidden = True\<rparr>)"
      "db' = update_fp fpid (\<lambda>r. r\<lparr>fp_status := Hidden, fp_flag_count := count_flaggers fpid db1,
           fp_sync_seq := fingerprints_sync_seq db, fp_updated_at_ms := now\<rparr>)
         (db1\<lparr>fingerprints_sync_seq := fingerprints_sync_seq db + 1\<rparr>)"
      "encrypt_field K nonce reason = Inr er"
  | (counts) fp er db1 where "select_fp fpid db = Some fp" "fp_status fp \<noteq> Deleted"
      "insert_flag fpid cid er now db = (Inr (), db1)"
      "count_flaggers fpid db1 < thr \<or> fp_status fp = Hidden"
      "r = Inr (Some \<lparr>fr_flag_count = count_flaggers fpid db1, fr_status = fp_status fp,
           fr_hidden = False\<rparr>)"
      "db' = update_fp fpid (\<lambda>r. r\<lparr>fp_flag_count := count_flaggers fpid db1,
           fp_updated_at_ms := now\<rparr>) db1"
      "encrypt_field K nonce reason = Inr er"
proof (cases "select_fp fpid db")
  case None
  then show ?thesis using assms by (intro that(1)) (auto simp: flag_txn_def)
next
  case (Some fp)
  note sel = Some
  show ?thesis
  proof (cases "fp_status fp = Deleted")
    case True
    then show ?thesis using assms sel by (intro that(1)) (auto simp: flag_txn_def)
  next
    case live: False
    show ?thesis
    proof (cases "encrypt_field K nonce reason")
      case (Inl e)
      then show ?thesis using assms sel live by (intro that(2) [of e]) (auto simp: flag_txn_def)
    next
      case (Inr er)
      obtain r1 db1 where ins: "insert_flag fpid cid er now db = (r1, db1)" by fastforce
      have seq: "fingerprints_sync_seq db1 = fingerprints_sync_seq db"
        using ins by (cases rule: insert_flag_cases) auto
      show ?thesis
      proof (cases r1)
        case (Inl e)
        have "db1 = db \<or> db1 = db\<lparr>flags_id_seq := flags_id_seq db + 1\<rparr>"
          using ins Inl by (cases rule: insert_flag_cases) auto
        then show ?thesis using assms sel live \<open>encrypt_field K nonce reason = Inr er\<close> ins Inl
          by (intro that(2) [of e]) (auto simp: flag_txn_def)
      next
        case r1: (Inr u)
        show ?thesis
        proof (cases "count_flaggers fpid db1 \<ge> thr \<and> fp_status fp = Active")
          case True
          then show ?thesis using assms sel live Inr ins r1 seq
            by (intro that(3) [of fp er db1]) (auto simp: flag_txn_def Let_def nextval_sync_def)
        next
          case False
          then have "count_flaggers fpid db1 < thr \<or> fp_status fp = Hidden"
            using live by (cases "fp_status fp") auto
          then show ?thesis using assms sel live Inr ins r1 False
            by (intro that(4) [of fp er db1]) (auto simp: flag_txn_def Let_def)
        qed
      qed
    qed
  qed
qed

lemma flag_txn_ok:
  assumes ok: "db_ok db" and run: "flag_txn K nonce fpid cid reason now thr db = (r, db')"
  shows "db_ok db'" and "seqs_le db db'" and "r = Inr x \<Longrightarrow> advances db db'"
proof -
  have all: "db_ok db' \<and> seqs_le db db' \<and> advances db db'"
    using run
  proof (cases rule: flag_txn_cases)
    case absent
    then show ?thesis using ok by simp
  next
    case fails
    have "flags_ok (db\<lparr>flags_id_seq := flags_id_seq db + 1\<rparr>)"
      using ok by (fastforce simp: db_ok_def flags_ok_def)
    then have "db_ok (db\<lparr>flags_id_seq := flags_id_seq db + 1\<rparr>)"
      using ok by (simp add: db_ok_def consumers_ok_def fingerprints_ok_def hits_ok_def)
    then show ?thesis using fails ok by (auto simp: seqs_le_def intro!: advances_same_feed simp: feed_def)
  next
    case (hides fp er db1)
    note ins = insert_flag_ok [OF ok hides(3)]
    have "fingerprints_ok db1" using ins(1) by (simp add: db_ok_def)
    note row = fingerprints_ok_row [OF this]
    have "db_ok db'"
      unfolding hides(6) using ins row by (intro update_fp_ok) (auto simp: row_change_ok_def)
    moreover have "advances db db'"
      unfolding hides(6) using ins by (intro advances_update_fp) auto
    ultimately show ?thesis using ins hides(6) by (auto simp: seqs_le_def)
  next
    case (counts fp er db1)
    note ins = insert_flag_ok [OF ok counts(3)]
    have "fingerprints_ok db1" using ins(1) by (simp add: db_ok_def)
    note row = fingerprints_ok_row [OF this]
    have "db_ok db'"
      unfolding counts(6) using ins(1) row
      by (intro update_fp_stats_ok) (auto simp: row_change_ok_def)
    moreover have "feed db' = feed db"
      unfolding counts(6) using ins(3)
      by (subst feed_update_fp_same) (simp_all add: feed_entry_def sync_columns_def feed_def)
    ultimately show ?thesis using ins counts(6) by (auto intro!: advances_same_feed)
  qed
  then show "db_ok db'" "seqs_le db db'" "r = Inr x \<Longrightarrow> advances db db'" by simp_all
qed

lemma flag_body_ok: "body_ok (flag_txn K nonce fpid cid reason now thr)"
  unfolding body_ok_def using flag_txn_ok(1,2) by (metis prod.collapse)

interpretation flag_op: content_op "\<lambda>db. snd (flag K up nonce fpid cid reason now thr db)"
  for K up nonce fpid cid reason now thr
proof unfold_locales
  fix db assume ok: "db_ok db"
  show "db_ok (snd (flag K up nonce fpid cid reason now thr db))"
    and "seqs_le db (snd (flag K up nonce fpid cid reason now thr db))"
    unfolding flag_def by (rule connection_ok [OF flag_body_ok ok])+
  show "advances db (snd (flag K up nonce fpid cid reason now thr db))"
    unfolding flag_def using flag_txn_ok(3) [OF ok]
    by (intro connection_advances [OF flag_body_ok ok]) (metis prod.collapse)
qed

section \<open>Soft delete\<close>

abbreviation tombstone :: "int \<Rightarrow> int \<Rightarrow> fingerprint_row \<Rightarrow> fingerprint_row" where
  "tombstone seq now \<equiv>
     (\<lambda>r. r\<lparr>fp_status := Deleted, fp_sync_seq := seq, fp_updated_at_ms := now\<rparr>)"

lemma soft_delete_txn_cases:
  obtains (absent) "soft_delete_txn fpid now db = (Inr False, db)"
      "select_fp fpid db = None \<or> (\<exists>fp. select_fp fpid db = Some fp \<and> fp_status fp = Deleted)"
  | (deleted) fp where "select_fp fpid db = Some fp" "fp_status fp \<noteq> Deleted"
      "soft_delete_txn fpid now db =
         (Inr True, update_fp fpid (tombstone (fingerprints_sync_seq db) now)
            (db\<lparr>fingerprints_sync_seq := fingerprints_sync_seq db + 1\<rparr>))"
proof (cases "select_fp fpid db")
  case None
  then show ?thesis by (intro that(1)) (auto simp: soft_delete_txn_def)
next
  case (Some fp)
  show ?thesis
  proof (cases "fp_status fp = Deleted")
    case True
    then show ?thesis using Some by (intro that(1)) (auto simp: soft_delete_txn_def)
  next
    case False
    then show ?thesis using Some
      by (intro that(2)) (auto simp: soft_delete_txn_def nextval_sync_def Let_def)
  qed
qed

lemma soft_delete_txn_ok:
  assumes ok: "db_ok db"
  shows "db_ok (snd (soft_delete_txn fpid now db))" and "seqs_le db (snd (soft_delete_txn fpid now db))"
    and "advances db (snd (soft_delete_txn fpid now db))"
proof -
  have fo: "fingerprints_ok db" using ok by (simp add: db_ok_def)
  note row = fingerprints_ok_row [OF fo]
  have all: "db_ok (snd (soft_delete_txn fpid now db)) \<and> seqs_le db (snd (soft_delete_txn fpid now db))
    \<and> advances db (snd (soft_delete_txn fpid now db))"
  proof (cases rule: soft_delete_txn_cases [of fpid now db])
    case absent
    then show ?thesis using ok by simp
  next
    case (deleted fp)
    have "db_ok (snd (soft_delete_txn fpid now db))"
      unfolding deleted(3) snd_conv using ok row
      by (intro update_fp_ok) (auto simp: row_change_ok_def)
    moreover have "advances db (snd (soft_delete_txn fpid now db))"
      unfolding deleted(3) snd_conv by (intro advances_update_fp) auto
    ultimately show ?thesis using deleted(3) by (simp add: seqs_le_def)
  qed
  then show "db_ok (snd (soft_delete_txn fpid now db))" "seqs_le db (snd (soft_delete_txn fpid now db))"
    "advances db (snd (soft_delete_txn fpid now db))" by simp_all
qed

lemma soft_delete_body_ok: "body_ok (soft_delete_txn fpid now)"
  by (simp add: body_ok_def soft_delete_txn_ok)

interpretation soft_delete_op: content_op "\<lambda>db. snd (soft_delete up fpid now db)"
  for up fpid now
proof unfold_locales
  fix db assume ok: "db_ok db"
  show "db_ok (snd (soft_delete up fpid now db))" and "seqs_le db (snd (soft_delete up fpid now db))"
    and "advances db (snd (soft_delete up fpid now db))"
    unfolding soft_delete_def
    using connection_ok [OF soft_delete_body_ok ok]
      connection_advances [OF soft_delete_body_ok ok soft_delete_txn_ok(3) [OF ok]]
    by simp_all
qed

section \<open>Retention\<close>

lemma delete_hits_ok:
  assumes "db_ok db"
  shows "db_ok (snd (delete_hits cutoff db))" and "seqs_le db (snd (delete_hits cutoff db))"
proof -
  have "hits_ok (snd (delete_hits cutoff db))"
    using assms by (simp add: delete_hits_def db_ok_def hits_ok_def distinct_map_filter_key)
  then show "db_ok (snd (delete_hits cutoff db))"
    using assms by (simp add: delete_hits_def db_ok_def consumers_ok_def fingerprints_ok_def flags_ok_def)
  show "seqs_le db (snd (delete_hits cutoff db))" by (simp add: delete_hits_def seqs_le_def)
qed

lemma clear_flag_reasons_keeps:
  "map flag_id (fingerprint_flags (snd (clear_flag_reasons cutoff db))) = map flag_id (fingerprint_flags db)"
  "map (\<lambda>f. (flag_fingerprint_id f, flag_consumer_id f))
     (fingerprint_flags (snd (clear_flag_reasons cutoff db)))
   = map (\<lambda>f. (flag_fingerprint_id f, flag_consumer_id f)) (fingerprint_flags db)"
  by (simp_all add: clear_flag_reasons_def)

lemma clear_flag_reasons_ok:
  assumes "db_ok db"
  shows "db_ok (snd (clear_flag_reasons cutoff db))" and "seqs_le db (snd (clear_flag_reasons cutoff db))"
proof -
  have old: "\<forall>f \<in> set (fingerprint_flags db). flag_id f < flags_id_seq db
          \<and> flag_fingerprint_id f \<in> fp_id ` set (fingerprints db)
          \<and> flag_consumer_id f \<in> cons_id ` set (consumers db)"
    using assms by (simp add: db_ok_def flags_ok_def)
  have "flags_ok (snd (clear_flag_reasons cutoff db))"
    unfolding flags_ok_def clear_flag_reasons_keeps
    using assms old by (auto simp: db_ok_def flags_ok_def clear_flag_reasons_def)
  then show "db_ok (snd (clear_flag_reasons cutoff db))"
    using assms
    by (simp add: clear_flag_reasons_def db_ok_def consumers_ok_def fingerprints_ok_def hits_ok_def)
  show "seqs_le db (snd (clear_flag_reasons cutoff db))"
    by (simp add: clear_flag_reasons_def seqs_le_def)
qed

lemma anonymize_fields [simp]:
  "fp_id (anonymize r) = fp_id r" "fp_sync_seq (anonymize r) = fp_sync_seq r"
  "fp_phash_hex (anonymize r) = fp_phash_hex r" "fp_consumer_id (anonymize r) = fp_consumer_id r"
  "fp_action (anonymize r) = fp_action r" "fp_category (anonymize r) = fp_category r"
  "fp_hit_count (anonymize r) = fp_hit_count r" "fp_flag_count (anonymize r) = fp_flag_count r"
  "fp_status (anonymize r) = fp_status r" "fp_updated_at_ms (anonymize r) = fp_updated_at_ms r"
  "feed_entry (anonymize r) = feed_entry r" "has_metadata (anonymize r) = False"
  by (simp_all add: anonymize_def feed_entry_def sync_columns_def has_metadata_def)

lemma anonymize_tombstones_ok:
  assumes ok: "db_ok db"
  shows "db_ok (snd (anonymize_tombstones cutoff db))" and "seqs_le db (snd (anonymize_tombstones cutoff db))"
proof -
  let ?db' = "snd (anonymize_tombstones cutoff db)"
  have ids: "fp_id ` set (fingerprints ?db') = fp_id ` set (fingerprints db)"
    by (rule arg_cong [where f = set, of "map fp_id (fingerprints ?db')" "map fp_id (fingerprints db)",
          unfolded set_map]) (simp add: anonymize_tombstones_def)
  have fo: "fingerprints_ok db" using ok by (simp add: db_ok_def)
  have keep: "map k (fingerprints ?db') = map k (fingerprints db)"
    if "\<And>r. k (anonymize r) = k r" for k :: "fingerprint_row \<Rightarrow> 'k"
    using that by (simp add: anonymize_tombstones_def)
  have "fingerprints_ok ?db'"
    unfolding fingerprints_ok_def
  proof (intro conjI)
    show "distinct (map fp_id (fingerprints ?db'))" "distinct (map fp_sync_seq (fingerprints ?db'))"
      using fo by (simp_all add: keep fingerprints_ok_def)
    show "distinct (map (\<lambda>r. (fp_phash_hex r, fp_consumer_id r)) (fingerprints ?db'))"
      using fo keep [of "\<lambda>r. (fp_phash_hex r, fp_consumer_id r)"] by (simp add: fingerprints_ok_def)
    show "\<forall>r \<in> set (fingerprints ?db'). fp_id r < fingerprints_id_seq ?db'
          \<and> fp_sync_seq r < fingerprints_sync_seq ?db'
          \<and> fp_consumer_id r \<in> cons_id ` set (consumers ?db')
          \<and> fp_action r \<in> set VALID_ACTIONS \<and> fp_category r \<in> set VALID_CATEGORIES
          \<and> 0 \<le> fp_hit_count r \<and> 0 \<le> fp_flag_count r"
      using fingerprints_ok_row [OF fo] by (auto simp: anonymize_tombstones_def)
  qed
  then show "db_ok ?db'"
    using ok ids
    by (simp add: db_ok_def consumers_ok_def hits_ok_def flags_ok_def) (simp add: anonymize_tombstones_def)
  show "seqs_le db ?db'" by (simp add: anonymize_tombstones_def seqs_le_def)
qed

text \<open>The retention transaction as the composition of its four statements.\<close>

lemma retention_txn_eq:
  "retention_txn now p db =
    (let db1 = snd (delete_hits (now - hit_retention_ms p) db);
         db2 = snd (clear_flag_reasons (now - flag_reason_retention_ms p) db1);
         db3 = snd (purge_tombstones (now - tombstone_retention_ms p) db2)
     in (Inr \<lparr>hits_deleted = fst (delete_hits (now - hit_retention_ms p) db),
              flag_reasons_cleared = fst (clear_flag_reasons (now - flag_reason_retention_ms p) db1),
              tombstones_anonymized
                = fst (anonymize_tombstones (now - tombstone_metadata_retention_ms p) db3),
              tombstones_deleted = fst (purge_tombstones (now - tombstone_retention_ms p) db2)\<rparr>,
         snd (anonymize_tombstones (now - tombstone_metadata_retention_ms p) db3)))"
  by (simp add: retention_txn_def Let_def case_prod_unfold)

lemma retention_body_ok: "body_ok (retention_txn now p)"
  unfolding body_ok_def
proof (intro allI impI)
  fix db assume ok: "db_ok db"
  let ?db1 = "snd (delete_hits (now - hit_retention_ms p) db)"
  let ?db2 = "snd (clear_flag_reasons (now - flag_reason_retention_ms p) ?db1)"
  let ?db3 = "snd (purge_tombstones (now - tombstone_retention_ms p) ?db2)"
  let ?db4 = "snd (anonymize_tombstones (now - tombstone_metadata_retention_ms p) ?db3)"
  note s1 = delete_hits_ok [OF ok]
  note s2 = clear_flag_reasons_ok [OF s1(1)]
  have s3: "db_ok ?db3" "seqs_le ?db2 ?db3"
    unfolding purge_tombstones_def snd_conv by (rule delete_fps_ok [OF s2(1)])+
  note s4 = anonymize_tombstones_ok [OF s3(1)]
  have "db_ok ?db4 \<and> seqs_le db ?db4"
    using s4 s1(2) s2(2) s3(2) by (meson seqs_le_trans)
  then show "db_ok (snd (retention_txn now p db)) \<and> seqs_le db (snd (retention_txn now p db))"
    by (simp add: retention_txn_eq Let_def)
qed

interpretation retention_op: store_op "\<lambda>db. snd (apply_retention up now p dry db)"
  for up now p dry
proof unfold_locales
  fix db assume ok: "db_ok db"
  show "db_ok (snd (apply_retention up now p dry db))"
    and "seqs_le db (snd (apply_retention up now p dry db))"
    using connection_ok [OF retention_body_ok ok] ok by (simp_all add: apply_retention_def)
qed

interpretation retention_preview_op: stats_op "\<lambda>db. snd (apply_retention up now p True db)"
  for up now p
proof unfold_locales
  fix db assume ok: "db_ok db"
  show "db_ok (snd (apply_retention up now p True db))"
    and "seqs_le db (snd (apply_retention up now p True db))"
    by (rule retention_op.step_ok [OF ok] retention_op.step_seqs [OF ok])+
  show "feed (snd (apply_retention up now p True db)) = feed db"
    by (simp add: apply_retention_def with_connection_def transaction_def feed_def case_prod_unfold
        Let_def)
qed

end
