(* ===== verification/Sync_Feed.thy ===== *)
theory Sync_Feed
  imports Store_Contracts
begin

text \<open>
  The incremental sync protocol: the page the hub's \<^verbatim>\<open>sync\<close> returns for a cursor, and the client of
  \<^verbatim>\<open>docs/CLIENT_INTEGRATION.md\<close> that applies pages to a local replica. The client's lemmas are
  proved once over an abstract paged feed; the hub's \<^verbatim>\<open>sync\<close> is the interpretation. They show that
  pages neither skip nor repeat a row, that the replica is exact for every row at or below the
  watermark whatever the store does between two pages, and that a page without \<open>has_more\<close> leaves
  the replica equal to the hub's catalogue of active peer rows.
\<close>

section \<open>The client's replica\<close>

text \<open>
  One synced row: a hidden or deleted row removes the local row, an active one is upserted
  (\<^verbatim>\<open>docs/CLIENT_INTEGRATION.md\<close>, Sync).
\<close>

type_synonym replica = "int \<rightharpoonup> sync_row"

definition apply_row :: "sync_row \<Rightarrow> replica \<Rightarrow> replica" where
  "apply_row r m = (if sy_status r = Active then m(sy_id r \<mapsto> r) else m(sy_id r := None))"

definition apply_page :: "sync_row list \<Rightarrow> replica \<Rightarrow> replica" where
  "apply_page rows m = fold apply_row rows m"

text \<open>The client's loop over pages; \<open>None\<close> is running out of fuel.\<close>

fun sync_loop ::
  "(int \<Rightarrow> sync_row list \<times> int \<times> bool) \<Rightarrow> nat \<Rightarrow> int \<Rightarrow> replica \<Rightarrow> (int \<times> replica) option"
where
  "sync_loop page 0 watermark m = None"
| "sync_loop page (Suc fuel) watermark m =
     (case page watermark of (rows, next_since, has_more) \<Rightarrow>
        if has_more then sync_loop page fuel next_since (apply_page rows m)
        else Some (next_since, apply_page rows m))"

definition live_view :: "sync_row \<Rightarrow> sync_row option" where
  "live_view r = (if sy_status r = Active then Some r else None)"

text \<open>
  The replica a client should hold for a list of feed rows, and the replicas that are exact up to a
  watermark: right for every row at or below it, and holding no row the feed does not have.
\<close>

definition catalogue :: "sync_row list \<Rightarrow> replica" where
  "catalogue rows i = (case List.find (\<lambda>r. sy_id r = i) rows of None \<Rightarrow> None | Some r \<Rightarrow> live_view r)"

definition consistent :: "sync_row list \<Rightarrow> int \<Rightarrow> replica \<Rightarrow> bool" where
  "consistent rows w m \<longleftrightarrow>
     (\<forall>r \<in> set rows. sy_sync_seq r \<le> w \<longrightarrow> m (sy_id r) = live_view r)
     \<and> (\<forall>i. m i \<noteq> None \<longrightarrow> i \<in> sy_id ` set rows)"

lemma apply_page_Nil [simp]: "apply_page [] m = m"
  by (simp add: apply_page_def)

lemma apply_page_other: "i \<notin> sy_id ` set rows \<Longrightarrow> apply_page rows m i = m i"
  unfolding apply_page_def
  by (induction rows arbitrary: m) (auto simp: apply_row_def)

lemma apply_page_row:
  "distinct (map sy_id rows) \<Longrightarrow> r \<in> set rows \<Longrightarrow> apply_page rows m (sy_id r) = live_view r"
proof (induction rows arbitrary: m)
  case Nil
  then show ?case by simp
next
  case (Cons x xs)
  show ?case
  proof (cases "r = x")
    case True
    then have "sy_id r \<notin> sy_id ` set xs" using Cons.prems(1) by simp
    then have "apply_page xs (apply_row x m) (sy_id r) = apply_row x m (sy_id r)"
      by (rule apply_page_other)
    then show ?thesis using True by (simp add: apply_page_def apply_row_def live_view_def)
  next
    case False
    then have "apply_page xs (apply_row x m) (sy_id r) = live_view r"
      using Cons.prems by (intro Cons.IH) auto
    then show ?thesis by (simp add: apply_page_def)
  qed
qed

section \<open>A paged feed and its client\<close>

text \<open>
  What a client relies on: at every valid state the feed is a set of rows with distinct ids and
  cursors, and a page after \<open>since\<close> is a cursor-ordered prefix of the rows above \<open>since\<close>; it is the
  whole rest when \<open>has_more\<close> is false and not empty when it is true.
\<close>

locale paged_feed =
  fixes rows :: "'s \<Rightarrow> sync_row list"
    and page :: "'s \<Rightarrow> int \<Rightarrow> sync_row list \<times> int \<times> bool"
    and valid :: "'s \<Rightarrow> bool"
  assumes ids: "valid s \<Longrightarrow> distinct (map sy_id (rows s))"
    and page_split: "valid s \<Longrightarrow> page s since = (ps, nxt, hm) \<Longrightarrow>
      \<exists>rest. sorted_wrt (<) (map sy_sync_seq (ps @ rest))
        \<and> set (ps @ rest) = {r \<in> set (rows s). since < sy_sync_seq r}
        \<and> (hm \<longleftrightarrow> rest \<noteq> []) \<and> (hm \<longrightarrow> ps \<noteq> [])
        \<and> nxt = (if ps = [] then since else sy_sync_seq (last ps))"
begin

lemma page_parts:
  assumes "valid s" "page s since = (ps, nxt, hm)"
  obtains rest where "sorted_wrt (<) (map sy_sync_seq (ps @ rest))"
    and "set (ps @ rest) = {r \<in> set (rows s). since < sy_sync_seq r}"
    and "hm \<longleftrightarrow> rest \<noteq> []" and "hm \<longrightarrow> ps \<noteq> []"
    and "nxt = (if ps = [] then since else sy_sync_seq (last ps))"
  using page_split [OF assms] by blast

lemma page_bounds:
  assumes v: "valid s" and p: "page s since = (ps, nxt, hm)"
  shows "since \<le> nxt" and "hm \<Longrightarrow> since < nxt"
    and "r \<in> set ps \<Longrightarrow> r \<in> set (rows s) \<and> since < sy_sync_seq r \<and> sy_sync_seq r \<le> nxt"
proof -
  from page_parts [OF v p] obtain rest where
    sorted: "sorted_wrt (<) (map sy_sync_seq (ps @ rest))"
    and rs: "set (ps @ rest) = {r \<in> set (rows s). since < sy_sync_seq r}"
    and hm: "hm \<longrightarrow> ps \<noteq> []"
    and nxt: "nxt = (if ps = [] then since else sy_sync_seq (last ps))" by metis
  have "sorted (map sy_sync_seq ps)"
    using sorted by (auto intro!: strict_sorted_imp_sorted simp: sorted_wrt_append)
  then have last: "sy_sync_seq r \<le> sy_sync_seq (last ps)" if "r \<in> set ps" for r
    using that by (induction ps) (auto split: if_splits)
  have above: "since < sy_sync_seq r \<and> r \<in> set (rows s)" if "r \<in> set ps" for r
    using rs that by auto
  show "since \<le> nxt" and "hm \<Longrightarrow> since < nxt"
    using nxt hm above [of "last ps"] by (auto intro: less_imp_le)
  show "r \<in> set ps \<Longrightarrow> r \<in> set (rows s) \<and> since < sy_sync_seq r \<and> sy_sync_seq r \<le> nxt"
    using above last nxt by (cases "ps = []") auto
qed

text \<open>A page holds exactly the rows between the two cursors.\<close>

lemma page_set:
  assumes v: "valid s" and p: "page s since = (ps, nxt, hm)"
  shows "set ps = {r \<in> set (rows s). since < sy_sync_seq r \<and> sy_sync_seq r \<le> nxt}"
proof
  show "set ps \<subseteq> {r \<in> set (rows s). since < sy_sync_seq r \<and> sy_sync_seq r \<le> nxt}"
    using page_bounds(3) [OF v p] by blast
next
  from page_parts [OF v p] obtain rest where
    sorted: "sorted_wrt (<) (map sy_sync_seq (ps @ rest))"
    and rs: "set (ps @ rest) = {r \<in> set (rows s). since < sy_sync_seq r}"
    and nxt: "nxt = (if ps = [] then since else sy_sync_seq (last ps))" by metis
  show "{r \<in> set (rows s). since < sy_sync_seq r \<and> sy_sync_seq r \<le> nxt} \<subseteq> set ps"
  proof
    fix r assume r: "r \<in> {r \<in> set (rows s). since < sy_sync_seq r \<and> sy_sync_seq r \<le> nxt}"
    then have "r \<in> set ps \<or> r \<in> set rest" using rs by auto
    moreover have "r \<notin> set rest"
    proof
      assume rest: "r \<in> set rest"
      have ne: "ps \<noteq> []" using r nxt by auto
      then have "last ps \<in> set ps" by simp
      then have "sy_sync_seq (last ps) < sy_sync_seq r"
        using sorted rest by (auto simp: sorted_wrt_append)
      then show False using r nxt ne by simp
    qed
    ultimately show "r \<in> set ps" by blast
  qed
qed

lemma page_last:
  assumes v: "valid s" and p: "page s since = (ps, nxt, False)" and r: "r \<in> set (rows s)"
  shows "sy_sync_seq r \<le> nxt"
proof (cases "since < sy_sync_seq r")
  case True
  from page_parts [OF v p] obtain rest where
    "set (ps @ rest) = {r \<in> set (rows s). since < sy_sync_seq r}" "rest = []" by metis
  then have "r \<in> set ps" using True r by auto
  then show ?thesis using page_bounds(3) [OF v p] by blast
next
  case False
  then show ?thesis using page_bounds(1) [OF v p] by linarith
qed

lemma row_ids_inject:
  "valid s \<Longrightarrow> r \<in> set (rows s) \<Longrightarrow> r' \<in> set (rows s) \<Longrightarrow> sy_id r = sy_id r' \<Longrightarrow> r = r'"
  using ids [of s] by (auto simp: distinct_map dest: inj_onD)

lemma page_distinct_ids:
  assumes v: "valid s" and p: "page s since = (ps, nxt, hm)"
  shows "distinct (map sy_id ps)"
proof -
  from page_parts [OF v p] obtain rest where
    sorted: "sorted_wrt (<) (map sy_sync_seq (ps @ rest))"
    and rs: "set (ps @ rest) = {r \<in> set (rows s). since < sy_sync_seq r}" by metis
  have "distinct (map sy_sync_seq ps)"
    using sorted by (auto simp: sorted_wrt_append strict_sorted_iff)
  then have "distinct ps" by (simp add: distinct_map)
  moreover have "inj_on sy_id (set ps)"
    using rs row_ids_inject [OF v] by (auto intro!: inj_onI)
  ultimately show ?thesis by (simp add: distinct_map)
qed

text \<open>Applying a page keeps the replica exact, up to the page's new cursor.\<close>

lemma page_consistent:
  assumes v: "valid s" and p: "page s w = (ps, nxt, hm)" and c: "consistent (rows s) w m"
  shows "consistent (rows s) nxt (apply_page ps m)"
  unfolding consistent_def
proof (intro conjI ballI allI impI)
  fix r assume r: "r \<in> set (rows s)" and le: "sy_sync_seq r \<le> nxt"
  show "apply_page ps m (sy_id r) = live_view r"
  proof (cases "w < sy_sync_seq r")
    case True
    then have "r \<in> set ps" using page_set [OF v p] r le by blast
    then show ?thesis by (rule apply_page_row [OF page_distinct_ids [OF v p]])
  next
    case False
    have "sy_id r \<notin> sy_id ` set ps"
      using page_set [OF v p] row_ids_inject [OF v r] False by fastforce
    then have "apply_page ps m (sy_id r) = m (sy_id r)" by (rule apply_page_other)
    then show ?thesis using c r False by (simp add: consistent_def)
  qed
next
  fix i assume i: "apply_page ps m i \<noteq> None"
  show "i \<in> sy_id ` set (rows s)"
  proof (cases "i \<in> sy_id ` set ps")
    case True
    then show ?thesis using page_set [OF v p] by auto
  next
    case False
    then have "m i \<noteq> None" using i apply_page_other [OF False] by simp
    then show ?thesis using c by (simp add: consistent_def)
  qed
qed

lemma consistent_complete:
  assumes v: "valid s" and c: "consistent (rows s) w m" and all: "\<forall>r \<in> set (rows s). sy_sync_seq r \<le> w"
  shows "m = catalogue (rows s)"
proof
  fix i
  show "m i = catalogue (rows s) i"
  proof (cases "List.find (\<lambda>r. sy_id r = i) (rows s)")
    case None
    then have "i \<notin> sy_id ` set (rows s)" by (simp add: find_None_iff_key)
    then show ?thesis using c None by (auto simp: consistent_def catalogue_def)
  next
    case (Some r)
    then have "r \<in> set (rows s)" "sy_id r = i" by (auto dest: find_SomeD)
    then show ?thesis using c all Some by (auto simp: consistent_def catalogue_def)
  qed
qed

text \<open>A page without more to come makes the replica the catalogue.\<close>

lemma final_page_catalogue:
  assumes "valid s" "page s w = (ps, nxt, False)" "consistent (rows s) w m"
  shows "apply_page ps m = catalogue (rows s)"
  using consistent_complete [OF assms(1) page_consistent [OF assms]] page_last [OF assms(1,2)] by blast

text \<open>At a state that does not change the loop ends: every page but the last holds a row.\<close>

lemma sync_loop_returns:
  assumes v: "valid s" and c: "consistent (rows s) w m"
    and fuel: "card {r \<in> set (rows s). w < sy_sync_seq r} < fuel"
  shows "\<exists>w'. sync_loop (page s) fuel w m = Some (w', catalogue (rows s)) \<and> w \<le> w'
    \<and> (\<forall>r \<in> set (rows s). sy_sync_seq r \<le> w')"
  using c fuel
proof (induction fuel arbitrary: w m)
  case 0
  then show ?case by simp
next
  case (Suc fuel)
  obtain ps nxt hm where p: "page s w = (ps, nxt, hm)" by (cases "page s w") auto
  note c' = page_consistent [OF v p Suc.prems(1)]
  note b = page_bounds [OF v p]
  show ?case
  proof (cases hm)
    case True
    let ?A = "{r \<in> set (rows s). w < sy_sync_seq r}" and ?B = "{r \<in> set (rows s). nxt < sy_sync_seq r}"
    from page_parts [OF v p] True have "ps \<noteq> []" by metis
    then obtain r where "r \<in> set ps" by fastforce
    then have "r \<in> ?A - ?B" using b(3) by fastforce
    moreover have "?B \<subseteq> ?A" using b(1) by auto
    ultimately have "?B \<subset> ?A" by blast
    then have "card ?B < card ?A" by (intro psubset_card_mono) auto
    then have "card ?B < fuel" using Suc.prems(2) by simp
    from Suc.IH [OF c' this] show ?thesis using p True b(1) by auto
  next
    case False
    then have "apply_page ps m = catalogue (rows s)"
      using final_page_catalogue [OF v _ Suc.prems(1)] p by simp
    moreover have "\<forall>r \<in> set (rows s). sy_sync_seq r \<le> nxt"
      using page_last [OF v] p False by simp
    ultimately show ?thesis using p False b(1) by simp
  qed
qed

end

section \<open>The hub's sync as a paged feed\<close>

type_synonym sync_filter = "string option \<times> string option \<times> string option"

definition in_feed :: "int \<Rightarrow> sync_filter \<Rightarrow> fingerprint_row \<Rightarrow> bool" where
  "in_feed requester flt r \<longleftrightarrow>
     (case flt of (a, v, n) \<Rightarrow> fp_consumer_id r \<noteq> requester \<and> matches a (fp_algorithm r)
        \<and> matches v (fp_algorithm_version r) \<and> matches n (fp_normalization_version r))"

definition feed_rows :: "int \<Rightarrow> sync_filter \<Rightarrow> db \<Rightarrow> sync_row list" where
  "feed_rows requester flt db = map sync_columns (filter (in_feed requester flt) (fingerprints db))"

text \<open>The requests the store can serve: filters a text parameter can hold and a page of at least one row.\<close>

definition sync_request_ok :: "int \<Rightarrow> sync_filter \<Rightarrow> bool" where
  "sync_request_ok limit flt \<longleftrightarrow> 1 \<le> limit \<and> pg_row_count (limit + 1)
     \<and> (case flt of (a, v, n) \<Rightarrow> filter_text_ok a \<and> filter_text_ok v \<and> filter_text_ok n)"

definition sync_page ::
  "int \<Rightarrow> int \<Rightarrow> sync_filter \<Rightarrow> db \<Rightarrow> int \<Rightarrow> sync_row list \<times> int \<times> bool"
where
  "sync_page requester limit flt db since =
     (case flt of (a, v, n) \<Rightarrow>
        (case sync True requester since limit a v n db of Inr p \<Rightarrow> p | Inl e \<Rightarrow> ([], since, False)))"

lemma sync_where_in_feed:
  "sync_where requester since a v n r \<longleftrightarrow> since < fp_sync_seq r \<and> in_feed requester (a, v, n) r"
  by (auto simp: sync_where_def in_feed_def)

lemma sync_columns_fields [simp]:
  "sy_id (sync_columns r) = fp_id r" "sy_sync_seq (sync_columns r) = fp_sync_seq r"
  "sy_status (sync_columns r) = fp_status r" "sy_phash_hex (sync_columns r) = fp_phash_hex r"
  by (simp_all add: sync_columns_def)

lemma in_feed_entry: "feed_entry r = feed_entry r' \<Longrightarrow> in_feed q flt r = in_feed q flt r'"
  by (auto simp: in_feed_def dest: feed_entry_eqD)

lemma sync_Inr:
  assumes "sync_request_ok limit (a, v, n)"
  shows "sync True q since limit a v n db = Inr (sync_page q limit (a, v, n) db since)"
  using assms by (simp add: sync_page_def sync_def sync_request_ok_def Let_def)

lemma sync_page_length:
  "sync up q since limit a v n db = Inr (rows, nxt, m) \<Longrightarrow> 0 \<le> limit \<Longrightarrow> int (length rows) \<le> limit"
  by (auto simp: sync_def Let_def slice_to_def split: if_splits)

lemma sync_page_split:
  assumes ok: "db_ok db" and req: "sync_request_ok limit flt"
    and p: "sync_page q limit flt db since = (ps, nxt, hm)"
  shows "\<exists>rest. sorted_wrt (<) (map sy_sync_seq (ps @ rest))
    \<and> set (ps @ rest) = {r \<in> set (feed_rows q flt db). since < sy_sync_seq r}
    \<and> (hm \<longleftrightarrow> rest \<noteq> []) \<and> (hm \<longrightarrow> ps \<noteq> [])
    \<and> nxt = (if ps = [] then since else sy_sync_seq (last ps))"
proof -
  obtain a v n where flt: "flt = (a, v, n)" by (cases flt) auto
  let ?sel = "filter (sync_where q since a v n) (fingerprints db)"
  let ?all = "sort_key fp_sync_seq ?sel"
  have lim: "1 \<le> limit" using req by (simp add: sync_request_ok_def)
  then have nl: "nat (limit + 1) = Suc (nat limit)" by simp
  have "sync True q since limit a v n db = Inr (ps, nxt, hm)"
    using sync_Inr req p flt by simp
  then have ps: "ps = slice_to (map sync_columns (take (Suc (nat limit)) ?all)) limit"
    and hm: "hm \<longleftrightarrow> int (length (take (Suc (nat limit)) ?all)) > limit"
    and nxt: "nxt = (if ps = [] then since else sy_sync_seq (last ps))"
    by (auto simp: sync_def Let_def nl split: if_splits)
  let ?rest = "map sync_columns (drop (nat limit) ?all)"
  have ps': "ps = map sync_columns (take (nat limit) ?all)"
    using ps lim by (simp add: slice_to_def take_map min_def)
  have split: "ps @ ?rest = map sync_columns ?all"
    using ps' by (metis append_take_drop_id map_append)
  have dist: "distinct (map fp_sync_seq ?all)"
  proof -
    have "distinct (map fp_sync_seq ?sel)"
      using ok by (intro distinct_map_filter_key) (simp add: db_ok_def fingerprints_ok_def)
    then show ?thesis by (simp add: distinct_map)
  qed
  have "sorted_wrt (<) (map sy_sync_seq (ps @ ?rest))"
    unfolding split using dist by (simp add: strict_sorted_iff comp_def)
  moreover have "set (ps @ ?rest) = {r \<in> set (feed_rows q flt db). since < sy_sync_seq r}"
    unfolding split flt by (auto simp: feed_rows_def sync_where_in_feed)
  moreover have "hm \<longleftrightarrow> ?rest \<noteq> []"
    using hm lim by (auto simp: min_def)
  moreover have "hm \<longrightarrow> ps \<noteq> []"
  proof
    assume hm
    then have "0 < nat limit" "0 < length ?all" using hm lim by (auto simp del: length_sort)
    then show "ps \<noteq> []" using ps' by (metis Nil_is_map_conv length_greater_0_conv not_gr0 take_eq_Nil)
  qed
  ultimately show ?thesis using nxt by blast
qed

interpretation hub_feed: paged_feed "feed_rows q flt" "sync_page q limit flt"
    "\<lambda>db. db_ok db \<and> sync_request_ok limit flt"
  for q limit flt
proof unfold_locales
  fix db assume "db_ok db \<and> sync_request_ok limit flt"
  then have "distinct (map fp_id (filter (in_feed q flt) (fingerprints db)))"
    by (intro distinct_map_filter_key) (simp add: db_ok_def fingerprints_ok_def)
  then show "distinct (map sy_id (feed_rows q flt db))"
    by (simp add: feed_rows_def comp_def)
next
  fix db since ps nxt hm
  assume "db_ok db \<and> sync_request_ok limit flt" "sync_page q limit flt db since = (ps, nxt, hm)"
  then show "\<exists>rest. sorted_wrt (<) (map sy_sync_seq (ps @ rest))
    \<and> set (ps @ rest) = {r \<in> set (feed_rows q flt db). since < sy_sync_seq r}
    \<and> (hm \<longleftrightarrow> rest \<noteq> []) \<and> (hm \<longrightarrow> ps \<noteq> [])
    \<and> nxt = (if ps = [] then since else sy_sync_seq (last ps))"
    by (elim conjE) (rule sync_page_split)
qed

section \<open>What changes at the hub do to a replica\<close>

text \<open>
  Between two pages the hub may run any content operation. The replica stays exact up to its
  watermark as long as no row leaves the feed; without filters none does.
\<close>

lemma consistent_advances:
  assumes adv: "advances db db'" and w: "w < fingerprints_sync_seq db"
    and stay: "sy_id ` set (feed_rows q flt db) \<subseteq> sy_id ` set (feed_rows q flt db')"
    and c: "consistent (feed_rows q flt db) w m"
  shows "consistent (feed_rows q flt db') w m"
  unfolding consistent_def
proof (intro conjI ballI allI impI)
  fix s assume "s \<in> set (feed_rows q flt db')" and le: "sy_sync_seq s \<le> w"
  then obtain r' where r': "r' \<in> set (fingerprints db')" "in_feed q flt r'" "s = sync_columns r'"
    by (auto simp: feed_rows_def)
  then have "feed_entry r' \<in> feed_entry ` set (fingerprints db)"
    using adv le w unfolding advances_def by fastforce
  then obtain r where r: "r \<in> set (fingerprints db)" "feed_entry r' = feed_entry r" by blast
  then have "s \<in> set (feed_rows q flt db)"
    using r' in_feed_entry [OF r(2)] feed_entry_eqD(1) [OF r(2)] by (auto simp: feed_rows_def)
  then show "m (sy_id s) = live_view s" using c le by (simp add: consistent_def)
next
  fix i assume "m i \<noteq> None"
  then show "i \<in> sy_id ` set (feed_rows q flt db')" using c stay by (auto simp: consistent_def)
qed

lemma unfiltered_rows_stay:
  assumes "advances db db'"
  shows "sy_id ` set (feed_rows q (None, None, None) db) \<subseteq> sy_id ` set (feed_rows q (None, None, None) db')"
proof
  fix i assume "i \<in> sy_id ` set (feed_rows q (None, None, None) db)"
  then obtain r where r: "r \<in> set (fingerprints db)" "fp_id r = i" "fp_consumer_id r \<noteq> q"
    by (auto simp: feed_rows_def in_feed_def)
  then obtain r' where "r' \<in> set (fingerprints db')" "fp_id r' = i" "fp_consumer_id r' \<noteq> q"
    using assms unfolding advances_def by metis
  then show "i \<in> sy_id ` set (feed_rows q (None, None, None) db')"
    by (auto simp: feed_rows_def in_feed_def matches_def image_iff intro!: bexI [of _ r'])
qed

lemma consistent_same_feed:
  assumes "feed db' = feed db" "consistent (feed_rows q flt db) w m"
  shows "consistent (feed_rows q flt db') w m"
proof -
  have "set (feed_rows q flt db') = set (feed_rows q flt db)"
  proof -
    have sets: "feed_entry ` set (fingerprints db') = feed_entry ` set (fingerprints db)"
      using assms(1) unfolding feed_def by (metis set_map)
    have sub: "set (feed_rows q flt a) \<subseteq> set (feed_rows q flt b)"
      if le: "feed_entry ` set (fingerprints a) \<subseteq> feed_entry ` set (fingerprints b)" for a b
    proof
      fix s assume "s \<in> set (feed_rows q flt a)"
      then obtain r where r: "r \<in> set (fingerprints a)" "in_feed q flt r" "s = sync_columns r"
        by (auto simp: feed_rows_def)
      from r(1) le have "feed_entry r \<in> feed_entry ` set (fingerprints b)" by blast
      then obtain r' where r': "r' \<in> set (fingerprints b)" "feed_entry r = feed_entry r'" by blast
      then show "s \<in> set (feed_rows q flt b)"
        using r in_feed_entry [OF r'(2)] feed_entry_eqD(1) [OF r'(2)] by (auto simp: feed_rows_def)
    qed
    show ?thesis using sub sets by (metis order_refl subset_antisym)
  qed
  then show ?thesis using assms(2) by (simp add: consistent_def)
qed

lemma consistent_start: "consistent rows 0 Map.empty \<longleftrightarrow> (\<forall>r \<in> set rows. 0 < sy_sync_seq r \<or> live_view r = None)"
  by (auto simp: consistent_def)

end
