(* ===== verification/Json_Values.thy ===== *)
theory Json_Values
  imports Py_Text
begin

text \<open>
  The Python values the program reads from JSON bodies and configuration dictionaries, and the
  built-in conversions it applies to them: \<^verbatim>\<open>str()\<close>, \<^verbatim>\<open>repr()\<close>, \<^verbatim>\<open>int()\<close>, truth, \<^verbatim>\<open>dict.get\<close>. A
  float is known by what these conversions observe of it: its \<^verbatim>\<open>repr\<close> and its integer part. Objects
  are association lists with distinct keys, as \<^verbatim>\<open>json.loads\<close> makes them.
\<close>

datatype pyfloat = Finite string int | NaN | Infinite bool

datatype json =
    JNull
  | JBool bool
  | JInt int
  | JFloat pyfloat
  | JStr string
  | JList "json list"
  | JObj "(string \<times> json) list"

type_synonym dict = "(string \<times> json) list"

section \<open>Text of a value\<close>

fun join :: "string \<Rightarrow> string list \<Rightarrow> string" where
  "join sep [] = []"
| "join sep [x] = x"
| "join sep (x # y # xs) = x @ sep @ join sep (y # xs)"

fun float_repr :: "pyfloat \<Rightarrow> string" where
  "float_repr (Finite r n) = r"
| "float_repr NaN = ''nan''"
| "float_repr (Infinite negative) = (if negative then ''-inf'' else ''inf'')"

definition hex_nibble :: "nat \<Rightarrow> char" where
  "hex_nibble n = char_of (if n < 10 then 48 + n else 87 + n)"

definition printable :: "char \<Rightarrow> bool" where
  "printable c \<longleftrightarrow> (let n = ord c in (32 \<le> n \<and> n < 127) \<or> (161 \<le> n \<and> n \<noteq> 173))"

definition repr_char :: "char \<Rightarrow> char \<Rightarrow> string" where
  "repr_char quote c =
     (let n = ord c; backslash = char_of (92::nat) in
      if c = quote \<or> c = backslash then [backslash, c]
      else if n = 9 then [backslash, CHR ''t'']
      else if n = 10 then [backslash, CHR ''n'']
      else if n = 13 then [backslash, CHR ''r'']
      else if printable c then [c]
      else [backslash, CHR ''x'', hex_nibble (n div 16), hex_nibble (n mod 16)])"

definition repr_str :: "string \<Rightarrow> string" where
  "repr_str s =
     (let apostrophe = char_of (39::nat); double = char_of (34::nat);
          quote = (if apostrophe \<in> set s \<and> double \<notin> set s then double else apostrophe)
      in [quote] @ concat (map (repr_char quote) s) @ [quote])"

fun py_repr :: "json \<Rightarrow> string" where
  "py_repr JNull = ''None''"
| "py_repr (JBool b) = (if b then ''True'' else ''False'')"
| "py_repr (JInt n) = int_str n"
| "py_repr (JFloat f) = float_repr f"
| "py_repr (JStr s) = repr_str s"
| "py_repr (JList vs) = ''['' @ join '', '' (map py_repr vs) @ '']''"
| "py_repr (JObj kvs) =
     ''{'' @ join '', '' (map (\<lambda>kv. repr_str (fst kv) @ '': '' @ py_repr (snd kv)) kvs) @ ''}''"

definition py_str :: "json \<Rightarrow> string" where
  "py_str v = (case v of JStr s \<Rightarrow> s | _ \<Rightarrow> py_repr v)"

lemma py_str_JStr [simp]: "py_str (JStr s) = s"
  by (simp add: py_str_def)

section \<open>Numbers, truth, dictionaries\<close>

text \<open>\<^verbatim>\<open>int(value)\<close>.\<close>

fun py_int_of :: "json \<Rightarrow> int result" where
  "py_int_of (JInt n) = Inr n"
| "py_int_of (JBool b) = Inr (if b then 1 else 0)"
| "py_int_of (JFloat (Finite r n)) = Inr n"
| "py_int_of (JFloat NaN) = Inl (ValueError ''cannot convert float NaN to integer'')"
| "py_int_of (JFloat (Infinite negative)) = Inl OverflowError"
| "py_int_of (JStr s) =
     (case py_int s of None \<Rightarrow> Inl (ValueError ''invalid literal for int()'') | Some n \<Rightarrow> Inr n)"
| "py_int_of JNull = Inl TypeError"
| "py_int_of (JList vs) = Inl TypeError"
| "py_int_of (JObj kvs) = Inl TypeError"

text \<open>Truth; a finite float is false when it is a zero.\<close>

fun py_true :: "json \<Rightarrow> bool" where
  "py_true JNull = False"
| "py_true (JBool b) = b"
| "py_true (JInt n) = (n \<noteq> 0)"
| "py_true (JFloat (Finite r n)) = (r \<noteq> ''0.0'' \<and> r \<noteq> ''-0.0'')"
| "py_true (JFloat NaN) = True"
| "py_true (JFloat (Infinite negative)) = True"
| "py_true (JStr s) = (s \<noteq> [])"
| "py_true (JList vs) = (vs \<noteq> [])"
| "py_true (JObj kvs) = (kvs \<noteq> [])"

text \<open>\<^verbatim>\<open>d.get(key, default)\<close> and \<^verbatim>\<open>d.get(key)\<close>.\<close>

definition dict_get :: "dict \<Rightarrow> string \<Rightarrow> json \<Rightarrow> json" where
  "dict_get d key dflt = (case map_of d key of None \<Rightarrow> dflt | Some v \<Rightarrow> v)"

lemma dict_get_simps [simp]:
  "dict_get [] k v = v"
  "dict_get ((k', w) # d) k v = (if k = k' then w else dict_get d k v)"
  by (simp_all add: dict_get_def)

section \<open>The program's own conversions\<close>

text \<open>\<^verbatim>\<open>_str_or_none\<close> and \<^verbatim>\<open>_bool_or_none\<close> of \<^verbatim>\<open>api/fingerprints.py\<close>.\<close>

definition str_or_none :: "json \<Rightarrow> string option" where
  "str_or_none value =
     (if value = JNull then None
      else (let t = strip (py_str value) in if t = [] then None else Some t))"

definition bool_or_none :: "json \<Rightarrow> bool \<Rightarrow> bool option" where
  "bool_or_none value dflt =
     (if value = JNull then Some dflt
      else (case value of JBool b \<Rightarrow> Some b | _ \<Rightarrow> None))"

lemma str_or_none_stripped: "str_or_none v = Some t \<Longrightarrow> t \<noteq> [] \<and> strip t = t"
  by (auto simp: str_or_none_def Let_def strip_idem split: if_splits)

lemma str_or_none_truthy: "str_or_none v = Some t \<Longrightarrow> truthy (Some t)"
  using str_or_none_stripped by auto

lemma str_or_none_JStr: "str_or_none (JStr t) = Some t" if "strip t = t" "t \<noteq> []"
  using that by (simp add: str_or_none_def)

end
