(* ===== verification/Consumers_Store.thy ===== *)
theory Consumers_Store
  imports Store_Contracts Sha256 Json_Values
begin

text \<open>
  \<^verbatim>\<open>api/consumers_store.py\<close>: API keys and the \<^verbatim>\<open>consumers\<close> table. The random bytes of a new key are an
  argument. The operations that write are instances of the store contracts; the lemmas show that a
  key finds the consumer it was issued to and that only its hash is stored.
\<close>

section \<open>Keys\<close>

definition API_KEY_PREFIX :: string where
  "API_KEY_PREFIX = ''fph_''"

definition hash_api_key :: "string \<Rightarrow> string" where
  "hash_api_key raw_key = hexdigest (sha256 (utf8_encode raw_key))"

definition generate_api_key :: "bytes \<Rightarrow> string" where
  "generate_api_key token = API_KEY_PREFIX @ token_urlsafe token"

section \<open>Operations\<close>

record consumer_view =
  cv_id :: int
  cv_name :: string
  cv_scopes :: "string list"
  cv_enabled :: bool

definition consumer_view_of :: "consumer_row \<Rightarrow> consumer_view" where
  "consumer_view_of c = \<lparr>cv_id = cons_id c, cv_name = cons_name c, cv_scopes = cons_scopes c,
     cv_enabled = cons_enabled c\<rparr>"

definition find_by_key_hash :: "bool \<Rightarrow> string \<Rightarrow> db \<Rightarrow> consumer_view option result" where
  "find_by_key_hash reachable key_hash db =
     (if \<not> reachable then Inl OperationalError
      else if \<not> pg_text key_hash then Inl DataError
      else Inr (map_option consumer_view_of
             (List.find (\<lambda>c. cons_api_key_hash c = key_hash) (consumers db))))"

definition touch_last_seen_txn :: "int \<Rightarrow> int \<Rightarrow> db \<Rightarrow> unit result \<times> db" where
  "touch_last_seen_txn consumer_id now_ms db =
     (Inr (), db\<lparr>consumers := map (\<lambda>c. if cons_id c = consumer_id
        then c\<lparr>cons_last_seen_at_ms := Some now_ms\<rparr> else c) (consumers db)\<rparr>)"

definition touch_last_seen :: "bool \<Rightarrow> int \<Rightarrow> int \<Rightarrow> db \<Rightarrow> unit result \<times> db" where
  "touch_last_seen reachable consumer_id now_ms db =
     with_connection reachable (transaction False (touch_last_seen_txn consumer_id now_ms)) db"

text \<open>
  \<^verbatim>\<open>INSERT INTO consumers (name, api_key_hash, scopes, created_at_ms) ... RETURNING id\<close>; the columns
  not listed take their defaults (\<open>enabled\<close> true, no last-seen time).
\<close>

definition insert_consumer ::
  "string \<Rightarrow> string \<Rightarrow> string list \<Rightarrow> int \<Rightarrow> db \<Rightarrow> int result \<times> db"
where
  "insert_consumer name key_hash scopes now_ms db =
     (if \<not> pg_text name \<or> \<not> pg_text key_hash \<or> \<not> list_all pg_text scopes then (Inl DataError, db)
      else
        (let i = consumers_id_seq db;
             row = \<lparr>cons_id = i, cons_name = name, cons_api_key_hash = key_hash,
               cons_scopes = scopes, cons_enabled = True, cons_created_at_ms = now_ms,
               cons_last_seen_at_ms = None\<rparr>;
             db1 = db\<lparr>consumers_id_seq := i + 1\<rparr>
         in
           if \<not> set scopes \<subseteq> set VALID_SCOPES then (Inl CheckViolation, db1)
           else if name \<in> cons_name ` set (consumers db)
                   \<or> key_hash \<in> cons_api_key_hash ` set (consumers db)
           then (Inl UniqueViolation, db1)
           else (Inr i, db1\<lparr>consumers := consumers db @ [row]\<rparr>)))"


definition create_consumer ::
  "bool \<Rightarrow> bytes \<Rightarrow> string \<Rightarrow> string list \<Rightarrow> int \<Rightarrow> db \<Rightarrow> (int \<times> string) result \<times> db"
where
  "create_consumer reachable token name scopes now_ms db =
     (let invalid = sort (remdups (filter (\<lambda>s. s \<notin> set VALID_SCOPES) scopes)) in
      if invalid \<noteq> [] then (Inl (ValueError (''invalid scope(s): '' @ join '', '' invalid)), db)
      else
        (let raw_key = generate_api_key token;
             key_hash = hash_api_key raw_key
         in
           (case with_connection reachable
                   (transaction False (insert_consumer name key_hash scopes now_ms)) db of
              (Inl e, db1) \<Rightarrow> (Inl e, db1)
            | (Inr i, db1) \<Rightarrow> (Inr (i, raw_key), db1))))"

section \<open>The contracts\<close>

lemma pg_text_hash: "pg_text (hash_api_key raw_key)"
  by (simp add: pg_text_def hash_api_key_def hexdigest_no_nul)

lemma hash_api_key_length: "length (hash_api_key raw_key) = 64"
  by (simp add: hash_api_key_def hexdigest_length sha256_length)

lemma touch_keeps:
  "map f (map (\<lambda>c. if cons_id c = i then c\<lparr>cons_last_seen_at_ms := t\<rparr> else c) cs) = map f cs"
  if "\<And>c. f (c\<lparr>cons_last_seen_at_ms := t\<rparr>) = f c"
  using that by (induction cs) auto

lemma touch_last_seen_body_ok: "body_ok (touch_last_seen_txn i now)"
  unfolding body_ok_def
proof (intro allI impI conjI)
  fix db assume ok: "db_ok db"
  let ?db' = "snd (touch_last_seen_txn i now db)"
  have keep: "map f (consumers ?db') = map f (consumers db)"
    if "\<And>c t. f (c\<lparr>cons_last_seen_at_ms := t\<rparr>) = f c" for f :: "consumer_row \<Rightarrow> 'f"
    using touch_keeps [of f, OF that] by (simp add: touch_last_seen_txn_def)
  have ids: "cons_id ` set (consumers ?db') = cons_id ` set (consumers db)"
    using keep [of cons_id] by (metis set_map consumer_row.simps(2) consumer_row.select_convs(1)
        consumer_row.surjective consumer_row.update_convs(7))
  have "consumers_ok ?db'"
    using ok unfolding consumers_ok_def db_ok_def
    by (auto simp: keep) (fastforce simp: touch_last_seen_txn_def split: if_splits)+
  moreover have "fingerprints_ok ?db'" "hits_ok ?db'" "flags_ok ?db'"
    using ok ids
    by (simp_all add: db_ok_def fingerprints_ok_def hits_ok_def flags_ok_def)
      (simp_all add: touch_last_seen_txn_def)
  ultimately show "db_ok ?db'" by (simp add: db_ok_def)
  show "seqs_le db ?db'" by (simp add: touch_last_seen_txn_def seqs_le_def)
qed

interpretation touch_op: stats_op "\<lambda>db. snd (touch_last_seen up i now db)"
  for up i now
proof unfold_locales
  fix db assume ok: "db_ok db"
  show "db_ok (snd (touch_last_seen up i now db))" and "seqs_le db (snd (touch_last_seen up i now db))"
    unfolding touch_last_seen_def by (rule connection_ok [OF touch_last_seen_body_ok ok])+
  show "feed (snd (touch_last_seen up i now db)) = feed db"
    unfolding touch_last_seen_def
    by (rule connection_feed) (simp add: touch_last_seen_txn_def feed_def)
qed

lemma insert_consumer_cases:
  assumes "insert_consumer name h scopes now db = (r, db')"
  obtains (fails) e where "r = Inl e"
      "db' = db \<or> db' = db\<lparr>consumers_id_seq := consumers_id_seq db + 1\<rparr>"
  | (inserted) row where "r = Inr (consumers_id_seq db)"
      "row = \<lparr>cons_id = consumers_id_seq db, cons_name = name, cons_api_key_hash = h,
         cons_scopes = scopes, cons_enabled = True, cons_created_at_ms = now,
         cons_last_seen_at_ms = None\<rparr>"
      "db' = db\<lparr>consumers_id_seq := consumers_id_seq db + 1, consumers := consumers db @ [row]\<rparr>"
      "set scopes \<subseteq> set VALID_SCOPES" "name \<notin> cons_name ` set (consumers db)"
      "h \<notin> cons_api_key_hash ` set (consumers db)"
proof -
  define bad where "bad \<longleftrightarrow> \<not> pg_text name \<or> \<not> pg_text h \<or> \<not> list_all pg_text scopes"
  define dup where "dup \<longleftrightarrow> name \<in> cons_name ` set (consumers db)
    \<or> h \<in> cons_api_key_hash ` set (consumers db)"
  define db1 where "db1 = db\<lparr>consumers_id_seq := consumers_id_seq db + 1\<rparr>"
  define row where "row = \<lparr>cons_id = consumers_id_seq db, cons_name = name, cons_api_key_hash = h,
         cons_scopes = scopes, cons_enabled = True, cons_created_at_ms = now,
         cons_last_seen_at_ms = None\<rparr>"
  have eq: "insert_consumer name h scopes now db =
    (if bad then (Inl DataError, db)
     else if \<not> set scopes \<subseteq> set VALID_SCOPES then (Inl CheckViolation, db1)
     else if dup then (Inl UniqueViolation, db1)
     else (Inr (consumers_id_seq db), db1\<lparr>consumers := consumers db @ [row]\<rparr>))"
    by (simp only: insert_consumer_def bad_def dup_def db1_def row_def Let_def)
  consider "bad" | "\<not> bad" "\<not> set scopes \<subseteq> set VALID_SCOPES"
    | "\<not> bad" "set scopes \<subseteq> set VALID_SCOPES" "dup"
    | "\<not> bad" "set scopes \<subseteq> set VALID_SCOPES" "\<not> dup" by blast
  then show ?thesis
  proof cases
    case 1
    show ?thesis by (rule that(1) [of DataError]) (use assms eq 1 in auto)
  next
    case 2
    show ?thesis by (rule that(1) [of CheckViolation]) (use assms eq 2 in \<open>auto simp: db1_def\<close>)
  next
    case 3
    show ?thesis by (rule that(1) [of UniqueViolation]) (use assms eq 3 in \<open>auto simp: db1_def\<close>)
  next
    case 4
    show ?thesis
      by (rule that(2) [of row]) (use assms eq 4 in \<open>simp_all add: db1_def row_def dup_def\<close>)
  qed
qed

lemma consumers_bump_ok:
  assumes "db_ok db"
  shows "db_ok (db\<lparr>consumers_id_seq := consumers_id_seq db + 1\<rparr>)"
proof -
  have "consumers_ok (db\<lparr>consumers_id_seq := consumers_id_seq db + 1\<rparr>)"
    using assms by (fastforce simp: db_ok_def consumers_ok_def)
  then show ?thesis using assms by (simp add: db_ok_def fingerprints_ok_def hits_ok_def flags_ok_def)
qed

lemma insert_consumer_body_ok: "body_ok (insert_consumer name h scopes now)"
  unfolding body_ok_def
proof (intro allI impI)
  fix db assume ok: "db_ok db"
  obtain r db' where run: "insert_consumer name h scopes now db = (r, db')" by fastforce
  then show "db_ok (snd (insert_consumer name h scopes now db))
    \<and> seqs_le db (snd (insert_consumer name h scopes now db))"
  proof (cases rule: insert_consumer_cases)
    case fails
    then show ?thesis using run ok consumers_bump_ok [OF ok] by (auto simp: seqs_le_def)
  next
    case (inserted row)
    have co: "consumers_ok db" using ok by (simp add: db_ok_def)
    have lt: "\<forall>c \<in> set (consumers db). cons_id c < consumers_id_seq db"
      using co by (simp add: consumers_ok_def)
    then have "consumers_id_seq db \<notin> cons_id ` set (consumers db)" by auto
    then have "consumers_ok db'"
      using co inserted lt by (auto simp: consumers_ok_def)
    moreover have "fingerprints_ok db'" "hits_ok db'" "flags_ok db'"
      using ok inserted(3) by (auto simp: db_ok_def fingerprints_ok_def hits_ok_def flags_ok_def)
    ultimately show ?thesis using run inserted(3) by (simp add: db_ok_def seqs_le_def)
  qed
qed

interpretation create_consumer_op: stats_op "\<lambda>db. snd (create_consumer up token name scopes now db)"
  for up token name scopes now
proof unfold_locales
  fix db assume ok: "db_ok db"
  note conn = connection_ok [OF insert_consumer_body_ok ok]
  show "db_ok (snd (create_consumer up token name scopes now db))"
    and "seqs_le db (snd (create_consumer up token name scopes now db))"
    using ok conn by (auto simp: create_consumer_def Let_def split: prod.split sum.split)
      (metis snd_conv)+
  have "feed (snd (with_connection up (transaction False (insert_consumer name h scopes now)) db)) = feed db"
    for h
  proof (rule connection_feed)
    fix x
    obtain r db' where run: "insert_consumer name h scopes now db = (r, db')" by fastforce
    then have "feed db' = feed db" by (cases rule: insert_consumer_cases) (auto simp: feed_def)
    then show "feed (snd (insert_consumer name h scopes now db)) = feed db" using run by simp
  qed
  then show "feed (snd (create_consumer up token name scopes now db)) = feed db"
    by (auto simp: create_consumer_def Let_def split: prod.split sum.split) (metis snd_conv)+
qed

lemma create_consumer_fingerprints:
  "fingerprints (snd (create_consumer up token name scopes now db)) = fingerprints db"
proof -
  have "fingerprints (snd (insert_consumer name h scopes now db)) = fingerprints db" for h
  proof -
    obtain r db' where run: "insert_consumer name h scopes now db = (r, db')" by fastforce
    then have "fingerprints db' = fingerprints db" by (cases rule: insert_consumer_cases) auto
    then show ?thesis using run by simp
  qed
  then have "fingerprints (snd (with_connection up (transaction False
      (insert_consumer name h scopes now)) db)) = fingerprints db" for h
    by (simp add: with_connection_def transaction_def case_prod_unfold Let_def)
  then show ?thesis
    by (auto simp: create_consumer_def Let_def split: prod.split sum.split) (metis snd_conv)+
qed

section \<open>Issuing and looking up a key\<close>

lemma create_consumer_Inr:
  assumes "create_consumer up token name scopes now db = (Inr (i, raw), db')"
  shows "raw = generate_api_key token"
    and "i = consumers_id_seq db"
    and "\<exists>row. consumers db' = consumers db @ [row] \<and> cons_id row = i \<and> cons_name row = name
      \<and> cons_api_key_hash row = hash_api_key raw \<and> cons_scopes row = scopes \<and> cons_enabled row
      \<and> hash_api_key raw \<notin> cons_api_key_hash ` set (consumers db)
      \<and> set scopes \<subseteq> set VALID_SCOPES"
proof -
  let ?h = "hash_api_key (generate_api_key token)"
  have up: "up" using assms
    by (auto simp: create_consumer_def Let_def with_connection_def split: if_splits)
  obtain r db1 where run: "insert_consumer name ?h scopes now db = (r, db1)" by fastforce
  have raw: "raw = generate_api_key token" and r: "r = Inr i" and db': "db' = db1"
    using assms up run
    by (auto simp: create_consumer_def Let_def with_connection_def transaction_def
        split: if_splits sum.splits)
  show "raw = generate_api_key token" by (rule raw)
  show "i = consumers_id_seq db" using run r by (cases rule: insert_consumer_cases) auto
  show "\<exists>row. consumers db' = consumers db @ [row] \<and> cons_id row = i \<and> cons_name row = name
      \<and> cons_api_key_hash row = hash_api_key raw \<and> cons_scopes row = scopes \<and> cons_enabled row
      \<and> hash_api_key raw \<notin> cons_api_key_hash ` set (consumers db)
      \<and> set scopes \<subseteq> set VALID_SCOPES"
    using run r db' raw by (cases rule: insert_consumer_cases) auto
qed

lemma find_by_key_hash_iff:
  assumes "consumers_ok db" "pg_text h"
  shows "find_by_key_hash True h db = Inr (Some v)
    \<longleftrightarrow> (\<exists>c \<in> set (consumers db). cons_api_key_hash c = h \<and> v = consumer_view_of c)"
proof -
  have "List.find (\<lambda>c. cons_api_key_hash c = h) (consumers db) = Some c
    \<longleftrightarrow> c \<in> set (consumers db) \<and> cons_api_key_hash c = h" for c
    using assms(1) by (intro find_Some_iff_unique) (simp add: consumers_ok_def)
  then show ?thesis using assms(2) by (auto simp: find_by_key_hash_def)
qed

text \<open>A new consumer is all that the database gains.\<close>

lemma create_consumer_gain:
  assumes "create_consumer up token name scopes now db = (Inr (i, raw), db')"
  shows "db' = db\<lparr>consumers_id_seq := i + 1, consumers := consumers db @ [\<lparr>cons_id = i, cons_name = name,
      cons_api_key_hash = hash_api_key raw, cons_scopes = scopes, cons_enabled = True,
      cons_created_at_ms = now, cons_last_seen_at_ms = None\<rparr>]\<rparr>"
proof -
  obtain r db1 where run: "insert_consumer name (hash_api_key (generate_api_key token)) scopes now db = (r, db1)"
    by fastforce
  have eqs: "raw = generate_api_key token" "r = Inr i" "db' = db1"
    using assms run by (auto simp: create_consumer_def Let_def with_connection_def transaction_def
        split: if_splits sum.splits)
  show ?thesis using run by (cases rule: insert_consumer_cases) (use eqs in auto)
qed

lemma create_then_find:
  assumes "db_ok db" "create_consumer up token name scopes now db = (Inr (i, raw), db')"
  shows "find_by_key_hash True (hash_api_key raw) db'
    = Inr (Some \<lparr>cv_id = i, cv_name = name, cv_scopes = scopes, cv_enabled = True\<rparr>)"
proof -
  have "db_ok db'"
    using create_consumer_op.stats_ok [OF assms(1), of up token name scopes now] assms(2) by simp
  then have "consumers_ok db'" by (simp add: db_ok_def)
  then show ?thesis
    using create_consumer_Inr(3) [OF assms(2)] pg_text_hash
    by (auto simp: find_by_key_hash_iff consumer_view_of_def)
qed

end
