(* ===== verification/Hub_System.thy ===== *)
theory Hub_System
  imports Sync_Feed Consumers_Store
begin

text \<open>
  The hub as a transition system: one step is one operation of \<^verbatim>\<open>api/fingerprint_store.py\<close> or
  \<^verbatim>\<open>api/consumers_store.py\<close>, with any arguments and whatever its outcome. The invariant of the
  reachable states: the declared constraints; a row's flag count is the number of distinct consumers
  that flagged it; no active row has reached the auto-hide threshold; a row's hit count is no less than
  the number of hit records kept for it (retention deletes records; \<open>Hit_History\<close> gives the exact count);
  and every private text column holds an encrypted envelope.
\<close>

section \<open>What the operations keep true of the tables\<close>

definition flags_counted :: "db \<Rightarrow> bool" where
  "flags_counted db \<longleftrightarrow> (\<forall>r \<in> set (fingerprints db). fp_flag_count r = count_flaggers (fp_id r) db)"

definition active_below :: "int \<Rightarrow> db \<Rightarrow> bool" where
  "active_below threshold db \<longleftrightarrow>
     (\<forall>r \<in> set (fingerprints db). fp_status r = Active \<longrightarrow> fp_flag_count r < threshold)"

definition hits_of :: "int \<Rightarrow> db \<Rightarrow> int" where
  "hits_of i db = int (length (filter (\<lambda>h. hit_fingerprint_id h = i) (fingerprint_hits db)))"

text \<open>No fewer than the records that are left.\<close>

definition hits_counted :: "db \<Rightarrow> bool" where
  "hits_counted db \<longleftrightarrow> (\<forall>r \<in> set (fingerprints db). hits_of (fp_id r) db \<le> fp_hit_count r)"

definition encrypted_at_rest :: "db \<Rightarrow> bool" where
  "encrypted_at_rest db \<longleftrightarrow>
     (\<forall>r \<in> set (fingerprints db). pred_option is_encrypted_value (fp_source_guild_id r)
        \<and> pred_option is_encrypted_value (fp_reason r) \<and> pred_option is_encrypted_value (fp_source_url r))
     \<and> (\<forall>h \<in> set (fingerprint_hits db). pred_option is_encrypted_value (hit_guild_id h))
     \<and> (\<forall>f \<in> set (fingerprint_flags db). pred_option is_encrypted_value (flag_reason f))"

definition hub_inv :: "int \<Rightarrow> db \<Rightarrow> bool" where
  "hub_inv threshold db \<longleftrightarrow> db_ok db \<and> flags_counted db \<and> active_below threshold db
     \<and> hits_counted db \<and> encrypted_at_rest db"

lemmas table_inv_defs = flags_counted_def active_below_def hits_counted_def encrypted_at_rest_def
  count_flaggers_def hits_of_def

definition table_inv :: "int \<Rightarrow> db \<Rightarrow> bool" where
  "table_inv threshold db \<longleftrightarrow> flags_counted db \<and> active_below threshold db
     \<and> hits_counted db \<and> encrypted_at_rest db"

lemma hub_inv_split: "hub_inv t db \<longleftrightarrow> db_ok db \<and> table_inv t db"
  by (simp add: hub_inv_def table_inv_def)

lemma table_inv_cong:
  "fingerprints a = fingerprints b \<Longrightarrow> fingerprint_hits a = fingerprint_hits b \<Longrightarrow>
    fingerprint_flags a = fingerprint_flags b \<Longrightarrow> table_inv t a = table_inv t b"
  by (simp add: table_inv_def table_inv_defs)

lemma table_inv_rollback: "table_inv t a \<Longrightarrow> table_inv t (rollback a b)"
  by (simp add: table_inv_cong [of "rollback a b" a])

text \<open>A property of the tables that a successful body keeps is kept by the operation.\<close>

lemma connection_inv:
  assumes "\<And>a b. P a \<Longrightarrow> P (rollback a b)" and "P db"
    and "\<And>x. fst (body db) = Inr x \<Longrightarrow> P (snd (body db))"
  shows "P (snd (with_connection up (transaction fr body) db))"
proof -
  obtain r db' where b: "body db = (r, db')" by fastforce
  have "is_ok r \<Longrightarrow> P db'" using assms(3) b by (cases r) auto
  then show ?thesis using assms(1,2) by (auto simp: with_connection_def transaction_def b)
qed

lemma encrypt_field_sealed:
  "encrypt_field K nonce v = Inr e \<Longrightarrow> pred_option is_encrypted_value e"
  by (cases e) (auto dest: encrypt_is_encrypted)

section \<open>Contribute\<close>

lemma flags_of_deleted:
  "count_flaggers j (delete_flags_of i db) = (if j = i then 0 else count_flaggers j db)"
proof -
  have "filter (\<lambda>f. flag_fingerprint_id f = j \<and> flag_fingerprint_id f \<noteq> i) (fingerprint_flags db)
    = (if j = i then [] else filter (\<lambda>f. flag_fingerprint_id f = j) (fingerprint_flags db))"
    by (auto simp: filter_empty_conv intro: filter_cong)
  then show ?thesis by (simp add: count_flaggers_def delete_flags_of_def conj_commute)
qed

lemma resurrect_table_inv:
  assumes ok: "db_ok db" and inv: "table_inv t db" and t: "1 \<le> t"
    and enc: "pred_option is_encrypted_value er" "pred_option is_encrypted_value eu"
      "pred_option is_encrypted_value eg"
    and run: "resurrect c er eu eg i db = (Inr x, db')"
  shows "table_inv t db'"
proof -
  let ?f = "resurrect_row c er eu eg (fingerprints_sync_seq db)"
  from run have db': "db' = update_fp i ?f
      ((delete_flags_of i db)\<lparr>fingerprints_sync_seq := fingerprints_sync_seq db + 1\<rparr>)"
    by (cases rule: resurrect_cases) auto
  have cf: "count_flaggers j db' = (if j = i then 0 else count_flaggers j db)" for j
    using flags_of_deleted [of j i db] unfolding db' by (simp add: count_flaggers_def)
  have rows: "set (fingerprints db')
      = ?f ` {r \<in> set (fingerprints db). fp_id r = i} \<union> {r \<in> set (fingerprints db). fp_id r \<noteq> i}"
    unfolding db' set_update_fp by simp
  have "flags_counted db'"
    using inv unfolding table_inv_def flags_counted_def rows cf by auto
  moreover have "active_below t db'"
    using inv t unfolding table_inv_def active_below_def rows by auto
  moreover have "hits_counted db'"
  proof -
    have "fingerprint_hits db' = fingerprint_hits db" unfolding db' by simp
    then have "hits_of j db' = hits_of j db" for j by (simp add: hits_of_def)
    then show ?thesis using inv unfolding table_inv_def hits_counted_def rows by auto
  qed
  moreover have "encrypted_at_rest db'"
  proof -
    have "fingerprint_hits db' = fingerprint_hits db"
      and "set (fingerprint_flags db') \<subseteq> set (fingerprint_flags db)"
      unfolding db' by (auto simp: delete_flags_of_def)
    then show ?thesis
      using inv enc unfolding table_inv_def encrypted_at_rest_def rows
      by (auto simp: resurrect_row_def)
  qed
  ultimately show ?thesis by (simp add: table_inv_def)
qed

lemma no_children:
  assumes "db_ok db" "fingerprints_id_seq db \<le> i"
  shows "count_flaggers i db = 0" and "hits_of i db = 0"
proof -
  have lt: "j < i" if "j \<in> fp_id ` set (fingerprints db)" for j
    using assms that by (fastforce simp: db_ok_def fingerprints_ok_def)
  have "\<forall>f \<in> set (fingerprint_flags db). flag_fingerprint_id f \<noteq> i"
    using assms(1) lt by (fastforce simp: db_ok_def flags_ok_def)
  then show "count_flaggers i db = 0" by (simp add: count_flaggers_def)
  have "\<forall>h \<in> set (fingerprint_hits db). hit_fingerprint_id h \<noteq> i"
    using assms(1) lt by (fastforce simp: db_ok_def hits_ok_def)
  then show "hits_of i db = 0" by (simp add: hits_of_def)
qed

lemma insert_fp_table_inv:
  assumes ok: "db_ok db" and inv: "table_inv t db" and t: "1 \<le> t"
    and enc: "pred_option is_encrypted_value er" "pred_option is_encrypted_value eu"
      "pred_option is_encrypted_value eg"
    and run: "insert_fp (new_row c er eu eg) db = (Inr x, db')"
  shows "table_inv t db'"
  using run
proof (cases rule: insert_fp_cases)
  case (conflict row)
  have "table_inv t db' = table_inv t db" using conflict(2) by (intro table_inv_cong) simp_all
  then show ?thesis using inv by simp
next
  case (inserted row)
  have fields: "fp_id row = fingerprints_id_seq db" "fp_flag_count row = 0" "fp_hit_count row = 0"
    "fp_source_guild_id row = eg" "fp_reason row = er" "fp_source_url row = eu"
    using inserted by (simp_all add: new_row_def)
  have tables: "set (fingerprints db') = insert row (set (fingerprints db))"
    "fingerprint_hits db' = fingerprint_hits db" "fingerprint_flags db' = fingerprint_flags db"
    using inserted by auto
  then have cf: "count_flaggers j db' = count_flaggers j db" "hits_of j db' = hits_of j db" for j
    by (simp_all add: count_flaggers_def hits_of_def)
  note none = no_children [OF ok, of "fp_id row"]
  have "flags_counted db'" "active_below t db'" "hits_counted db'" "encrypted_at_rest db'"
    using inv none fields t enc
    unfolding table_inv_def flags_counted_def active_below_def hits_counted_def
      encrypted_at_rest_def tables cf
    by auto
  then show ?thesis by (simp add: table_inv_def)
qed auto

lemma contribute_table_inv:
  assumes ok: "db_ok db" and inv: "table_inv t db" and t: "1 \<le> t"
  shows "table_inv t (snd (contribute K up nonces c db))"
proof -
  have body: "table_inv t (snd (contribute_txn c er eu eg db))"
    if run: "fst (contribute_txn c er eu eg db) = Inr x"
      and enc: "pred_option is_encrypted_value er" "pred_option is_encrypted_value eu"
        "pred_option is_encrypted_value eg" for er eu eg x
    using run inv insert_fp_table_inv [OF ok inv t enc] resurrect_table_inv [OF ok inv t enc]
    by (auto simp: contribute_txn_def split: if_splits option.splits prod.splits sum.splits)
  have conn: "table_inv t (snd (with_connection up (transaction False (contribute_txn c er eu eg)) db))"
    if "pred_option is_encrypted_value er" "pred_option is_encrypted_value eu"
      "pred_option is_encrypted_value eg" for er eu eg
    by (rule connection_inv [where P = "table_inv t"]) (use table_inv_rollback inv body that in auto)
  show ?thesis
    using inv by (auto simp: contribute_def split: sum.split dest!: encrypt_field_sealed intro!: conn)
qed

section \<open>Hits and flags\<close>

lemma report_hit_table_inv:
  assumes ok: "db_ok db" and inv: "table_inv t db"
  shows "table_inv t (snd (report_hit K up nonce fpid cid guild distance now db))"
proof -
  have body: "table_inv t db'"
    if run: "report_hit_txn K nonce fpid cid guild distance now db = (Inr x, db')" for x db'
    using run
  proof (cases rule: report_hit_txn_cases)
    case absent
    then show ?thesis using inv by simp
  next
    case (recorded fp eg db1)
    define row where "row = \<lparr>hit_id = hits_id_seq db, hit_fingerprint_id = fpid,
      hit_consumer_id = cid, hit_guild_id = eg, hit_distance = distance, hit_at_ms = now\<rparr>"
    have row: "hit_fingerprint_id row = fpid" "hit_guild_id row = eg"
      "fingerprint_hits db1 = fingerprint_hits db @ [row]"
      "fingerprints db1 = fingerprints db" "fingerprint_flags db1 = fingerprint_flags db"
      using recorded(4) by (cases rule: insert_hit_cases; simp add: row_def)+
    have rows: "set (fingerprints db')
        = hit_update now ` {r \<in> set (fingerprints db). fp_id r = fpid}
          \<union> {r \<in> set (fingerprints db). fp_id r \<noteq> fpid}"
      unfolding recorded(6) set_update_fp row(4) by simp
    have cf: "count_flaggers j db' = count_flaggers j db"
      and ch: "hits_of j db' = hits_of j db + (if j = fpid then 1 else 0)" for j
      using row unfolding recorded(6) by (simp_all add: count_flaggers_def hits_of_def)
    have hits: "fingerprint_hits db' = fingerprint_hits db @ [row]"
      and flags: "fingerprint_flags db' = fingerprint_flags db"
      using row unfolding recorded(6) by simp_all
    have "pred_option is_encrypted_value eg" using recorded(3) by (rule encrypt_field_sealed)
    then show ?thesis
      using inv row(2)
      unfolding table_inv_def flags_counted_def active_below_def hits_counted_def
        encrypted_at_rest_def rows cf ch hits flags
      by auto
  qed auto
  show ?thesis
    unfolding report_hit_def
    by (rule connection_inv [where P = "table_inv t"])
      (use table_inv_rollback inv body in \<open>auto intro: body [OF prod_eqI]\<close>)
qed

lemma insert_flag_count:
  assumes "insert_flag fpid cid er now db = (Inr u, db1)" "j \<noteq> fpid"
  shows "count_flaggers j db1 = count_flaggers j db"
  using assms by (cases rule: insert_flag_cases) (auto simp: count_flaggers_def)

lemma flag_table_inv:
  assumes ok: "db_ok db" and inv: "table_inv t db"
  shows "table_inv t (snd (flag K up nonce fpid cid reason now t db))"
proof -
  have body: "table_inv t db'"
    if run: "flag_txn K nonce fpid cid reason now t db = (Inr x, db')" for x db'
  proof -
    have flagged: "table_inv t db'"
      if sel: "select_fp fpid db = Some fp" and enc: "encrypt_field K nonce reason = Inr er"
        and ins: "insert_flag fpid cid er now db = (Inr (), db1)"
        and db': "db' = update_fp fpid f (db1\<lparr>fingerprints_sync_seq := n\<rparr>)"
        and f: "\<And>r. fp_id (f r) = fp_id r \<and> fp_flag_count (f r) = count_flaggers fpid db1
          \<and> fp_hit_count (f r) = fp_hit_count r \<and> fp_source_guild_id (f r) = fp_source_guild_id r
          \<and> fp_reason (f r) = fp_reason r \<and> fp_source_url (f r) = fp_source_url r"
        and st: "fp_status (f fp) = Active \<Longrightarrow> count_flaggers fpid db1 < t"
      for fp er db1 f n
    proof -
      have same: "fingerprints db1 = fingerprints db" "fingerprint_hits db1 = fingerprint_hits db"
        using ins by (cases rule: insert_flag_cases; auto)+
      have "fingerprints_ok db" using ok by (simp add: db_ok_def)
      then have only: "r = fp" if "r \<in> set (fingerprints db)" "fp_id r = fpid" for r
        using sel that select_fp_Some_iff [of db fpid r] by simp
      have rows: "set (fingerprints db')
        = f ` {r \<in> set (fingerprints db). fp_id r = fpid} \<union> {r \<in> set (fingerprints db). fp_id r \<noteq> fpid}"
        unfolding db' set_update_fp same(1) [symmetric] by simp
      have cf: "count_flaggers j db' = count_flaggers j db1" for j
        unfolding db' by (simp add: count_flaggers_def)
      have hits: "fingerprint_hits db' = fingerprint_hits db" unfolding db' using same by simp
      then have ch: "hits_of j db' = hits_of j db" for j by (simp add: hits_of_def)
      have "flags_counted db'"
        unfolding flags_counted_def rows cf
        using inv f insert_flag_count [OF ins] by (auto simp: table_inv_def flags_counted_def)
      moreover have "active_below t db'"
        unfolding active_below_def rows
        using inv f st only by (auto simp: table_inv_def active_below_def)
      moreover have "hits_counted db'"
        unfolding hits_counted_def rows ch using inv f by (auto simp: table_inv_def hits_counted_def)
      moreover have "encrypted_at_rest db'"
      proof -
        have "\<forall>fl \<in> set (fingerprint_flags db1). pred_option is_encrypted_value (flag_reason fl)"
          using ins inv encrypt_field_sealed [OF enc]
          by (cases rule: insert_flag_cases) (auto simp: table_inv_def encrypted_at_rest_def)
        moreover have "fingerprint_flags db' = fingerprint_flags db1" unfolding db' by simp
        ultimately show ?thesis
          unfolding encrypted_at_rest_def rows hits
          using inv f by (auto simp: table_inv_def encrypted_at_rest_def)
      qed
      ultimately show ?thesis by (simp add: table_inv_def)
    qed
    show ?thesis
      using run
    proof (cases rule: flag_txn_cases)
      case absent
      then show ?thesis using inv by simp
    next
      case (hides fp er db1)
      show ?thesis by (rule flagged [OF hides(1,7,3,6)]) auto
    next
      case (counts fp er db1)
      show ?thesis
        by (rule flagged [OF counts(1,7,3), where n = "fingerprints_sync_seq db1"])
          (use counts in auto)
    qed auto
  qed
  show ?thesis
    unfolding flag_def
    by (rule connection_inv [where P = "table_inv t"])
      (use table_inv_rollback inv body in \<open>auto intro: body [OF prod_eqI]\<close>)
qed

section \<open>Deletion and retention\<close>

lemma soft_delete_table_inv:
  assumes "db_ok db" and inv: "table_inv t db"
  shows "table_inv t (snd (soft_delete up fpid now db))"
proof -
  have "table_inv t (snd (soft_delete_txn fpid now db))"
  proof (cases rule: soft_delete_txn_cases [of fpid now db])
    case absent
    then show ?thesis using inv by simp
  next
    case (deleted fp)
    let ?db' = "snd (soft_delete_txn fpid now db)"
    have db': "?db' = update_fp fpid (tombstone (fingerprints_sync_seq db) now)
        (db\<lparr>fingerprints_sync_seq := fingerprints_sync_seq db + 1\<rparr>)"
      using deleted(3) by simp
    have cf: "count_flaggers j ?db' = count_flaggers j db" "hits_of j ?db' = hits_of j db" for j
      unfolding db' by (simp_all add: count_flaggers_def hits_of_def)
    have same: "fingerprint_hits ?db' = fingerprint_hits db" "fingerprint_flags ?db' = fingerprint_flags db"
      unfolding db' by simp_all
    have rows: "set (fingerprints ?db')
      = tombstone (fingerprints_sync_seq db) now ` {r \<in> set (fingerprints db). fp_id r = fpid}
        \<union> {r \<in> set (fingerprints db). fp_id r \<noteq> fpid}"
      unfolding db' set_update_fp by simp
    have "flags_counted ?db'" "active_below t ?db'" "hits_counted ?db'" "encrypted_at_rest ?db'"
      using inv
      unfolding table_inv_def flags_counted_def active_below_def hits_counted_def
        encrypted_at_rest_def rows cf same
      by auto
    then show ?thesis by (simp add: table_inv_def)
  qed
  then show ?thesis
    unfolding soft_delete_def
    by (intro connection_inv [where P = "table_inv t"] table_inv_rollback inv)
qed

lemma delete_hits_table_inv: "table_inv t db \<Longrightarrow> table_inv t (snd (delete_hits cutoff db))"
proof -
  assume inv: "table_inv t db"
  have hits: "fingerprint_hits (snd (delete_hits cutoff db))
      = filter (\<lambda>h. \<not> expired_hit cutoff h) (fingerprint_hits db)"
    by (simp add: delete_hits_def)
  have "length (filter P (filter Q xs)) \<le> length (filter P xs)" for P Q and xs :: "hit_row list"
    by (induction xs) auto
  then have "hits_of j (snd (delete_hits cutoff db)) \<le> hits_of j db" for j
    by (simp only: hits_of_def hits of_nat_le_iff)
  moreover have "fingerprints (snd (delete_hits cutoff db)) = fingerprints db"
    by (simp add: delete_hits_def)
  ultimately have "hits_counted (snd (delete_hits cutoff db))"
    using inv unfolding table_inv_def hits_counted_def by (metis order_trans)
  moreover have "flags_counted (snd (delete_hits cutoff db))" "active_below t (snd (delete_hits cutoff db))"
    "encrypted_at_rest (snd (delete_hits cutoff db))"
    using inv unfolding table_inv_def table_inv_defs by (auto simp: delete_hits_def)
  ultimately show ?thesis by (simp add: table_inv_def)
qed

lemma clear_flag_reasons_table_inv:
  assumes inv: "table_inv t db"
  shows "table_inv t (snd (clear_flag_reasons cutoff db))"
proof -
  let ?db' = "snd (clear_flag_reasons cutoff db)"
  have flags: "fingerprint_flags ?db'
      = map (\<lambda>f. if stale_reason cutoff f then f\<lparr>flag_reason := None\<rparr> else f) (fingerprint_flags db)"
    by (simp add: clear_flag_reasons_def)
  let ?g = "\<lambda>f. if stale_reason cutoff f then f\<lparr>flag_reason := None\<rparr> else f"
  have "map flag_consumer_id (filter (\<lambda>f. flag_fingerprint_id f = j) (map ?g fs))
    = map flag_consumer_id (filter (\<lambda>f. flag_fingerprint_id f = j) fs)" for j fs
    by (induction fs) auto
  then have cf: "count_flaggers j ?db' = count_flaggers j db" for j
    by (simp only: count_flaggers_def flags)
  have same: "fingerprints ?db' = fingerprints db" "fingerprint_hits ?db' = fingerprint_hits db"
    by (simp_all add: clear_flag_reasons_def)
  then have ch: "hits_of j ?db' = hits_of j db" for j by (simp add: hits_of_def)
  have "\<forall>f \<in> set (fingerprint_flags ?db'). pred_option is_encrypted_value (flag_reason f)"
    using inv by (auto simp: table_inv_def encrypted_at_rest_def clear_flag_reasons_def)
  then show ?thesis
    using inv
    by (auto simp: table_inv_def flags_counted_def active_below_def hits_counted_def
        encrypted_at_rest_def same cf ch)
qed

text \<open>Deleting rows with their children leaves the other rows' counts alone.\<close>

lemma delete_fps_table_inv:
  assumes ok: "db_ok db" and inv: "table_inv t db"
  shows "table_inv t (delete_fps P db)"
proof -
  let ?db' = "delete_fps P db"
  let ?gone = "fp_id ` set (filter P (fingerprints db))"
  have rows: "set (fingerprints ?db') = {r \<in> set (fingerprints db). \<not> P r}"
    by (simp add: delete_fps_def Let_def)
  have tabs: "fingerprint_flags ?db' = filter (\<lambda>f. flag_fingerprint_id f \<notin> ?gone) (fingerprint_flags db)"
    "fingerprint_hits ?db' = filter (\<lambda>h. hit_fingerprint_id h \<notin> ?gone) (fingerprint_hits db)"
    by (simp_all add: delete_fps_def Let_def)
  have dist: "distinct (map fp_id (fingerprints db))"
    using ok by (simp add: db_ok_def fingerprints_ok_def)
  have kept: "fp_id r \<notin> ?gone" if "r \<in> set (fingerprints db)" "\<not> P r" for r
    using dist that by (auto simp: distinct_map dest: inj_onD)
  have cf: "count_flaggers j ?db' = count_flaggers j db" "hits_of j ?db' = hits_of j db"
    if "j \<notin> ?gone" for j
  proof -
    have "filter (\<lambda>f. flag_fingerprint_id f = j) (filter (\<lambda>f. flag_fingerprint_id f \<notin> ?gone)
        (fingerprint_flags db)) = filter (\<lambda>f. flag_fingerprint_id f = j) (fingerprint_flags db)"
      using that by (auto simp del: set_filter simp: filter_filter intro!: filter_cong)
    then show "count_flaggers j ?db' = count_flaggers j db"
      by (simp only: count_flaggers_def tabs)
    have "filter (\<lambda>h. hit_fingerprint_id h = j) (filter (\<lambda>h. hit_fingerprint_id h \<notin> ?gone)
        (fingerprint_hits db)) = filter (\<lambda>h. hit_fingerprint_id h = j) (fingerprint_hits db)"
      using that by (auto simp del: set_filter simp: filter_filter intro!: filter_cong)
    then show "hits_of j ?db' = hits_of j db"
      by (simp only: hits_of_def tabs)
  qed
  have "flags_counted ?db'"
    using inv cf kept unfolding flags_counted_def rows by (auto simp: table_inv_def flags_counted_def)
  moreover have "hits_counted ?db'"
    using inv cf kept unfolding hits_counted_def rows by (auto simp: table_inv_def hits_counted_def)
  moreover have "active_below t ?db'" "encrypted_at_rest ?db'"
    using inv by (auto simp: table_inv_def active_below_def encrypted_at_rest_def delete_fps_def Let_def)
  ultimately show ?thesis by (simp add: table_inv_def)
qed

lemma anonymize_tombstones_table_inv:
  assumes inv: "table_inv t db"
  shows "table_inv t (snd (anonymize_tombstones cutoff db))"
proof -
  let ?db' = "snd (anonymize_tombstones cutoff db)"
  have cf: "count_flaggers j ?db' = count_flaggers j db" "hits_of j ?db' = hits_of j db" for j
    by (simp_all add: count_flaggers_def hits_of_def anonymize_tombstones_def)
  have same: "fingerprint_hits ?db' = fingerprint_hits db" "fingerprint_flags ?db' = fingerprint_flags db"
    by (simp_all add: anonymize_tombstones_def)
  have rows: "set (fingerprints ?db')
    = (\<lambda>r. if old_tombstone cutoff r \<and> has_metadata r then anonymize r else r) ` set (fingerprints db)"
    by (simp add: anonymize_tombstones_def)
  have none: "fp_source_guild_id (anonymize r) = None" "fp_reason (anonymize r) = None"
    "fp_source_url (anonymize r) = None" for r
    by (simp_all add: anonymize_def)
  have "flags_counted ?db'" "active_below t ?db'" "hits_counted ?db'" "encrypted_at_rest ?db'"
    using inv
    unfolding table_inv_def flags_counted_def active_below_def hits_counted_def
      encrypted_at_rest_def rows cf same
    by (auto simp: none)
  then show ?thesis by (simp add: table_inv_def)
qed

lemma retention_table_inv:
  assumes ok: "db_ok db" and inv: "table_inv t db"
  shows "table_inv t (snd (apply_retention up now p dry db))"
proof -
  let ?db1 = "snd (delete_hits (now - hit_retention_ms p) db)"
  let ?db2 = "snd (clear_flag_reasons (now - flag_reason_retention_ms p) ?db1)"
  have "table_inv t (snd (purge_tombstones (now - tombstone_retention_ms p) ?db2))"
    unfolding purge_tombstones_def snd_conv
    by (intro delete_fps_table_inv clear_flag_reasons_table_inv delete_hits_table_inv inv
        clear_flag_reasons_ok(1) delete_hits_ok(1) ok)
  then have "table_inv t (snd (retention_txn now p db))"
    by (simp add: retention_txn_eq Let_def anonymize_tombstones_table_inv)
  then show ?thesis
    using inv by (auto simp: apply_retention_def
        intro!: connection_inv [where P = "table_inv t"] table_inv_rollback)
qed

section \<open>The transition system\<close>

text \<open>
  \<open>K\<close> and the threshold are the running configuration; everything else of a step is arbitrary.
\<close>

inductive hub_step :: "crypto \<Rightarrow> int \<Rightarrow> db \<Rightarrow> db \<Rightarrow> bool" for K threshold where
  contributes: "hub_step K threshold db (snd (contribute K up nonces c db))"
| reports_hit: "hub_step K threshold db (snd (report_hit K up nonce fpid cid guild distance now db))"
| flags: "hub_step K threshold db (snd (flag K up nonce fpid cid reason now threshold db))"
| deletes: "hub_step K threshold db (snd (soft_delete up fpid now db))"
| retains: "hub_step K threshold db (snd (apply_retention up now p dry_run db))"
| creates_consumer: "hub_step K threshold db (snd (create_consumer up token name scopes now db))"
| touches: "hub_step K threshold db (snd (touch_last_seen up cid now db))"

inductive hub_reachable :: "crypto \<Rightarrow> int \<Rightarrow> db \<Rightarrow> bool" for K threshold where
  start: "hub_reachable K threshold empty_db"
| step: "hub_reachable K threshold db \<Longrightarrow> hub_step K threshold db db' \<Longrightarrow> hub_reachable K threshold db'"

inductive_cases hub_stepE: "hub_step K threshold db db'"

lemma same_tables_consumer_ops:
  assumes ok: "db_ok db"
  shows "table_inv t db \<Longrightarrow> table_inv t (snd (create_consumer up token name scopes now db))"
    and "table_inv t db \<Longrightarrow> table_inv t (snd (touch_last_seen up cid now db))"
proof -
  assume inv: "table_inv t db"
  have ins: "table_inv t (snd (insert_consumer name h scopes now db))" for h
  proof -
    obtain r db' where run: "insert_consumer name h scopes now db = (r, db')" by fastforce
    then have "fingerprints db' = fingerprints db" "fingerprint_hits db' = fingerprint_hits db"
      "fingerprint_flags db' = fingerprint_flags db"
      by (cases rule: insert_consumer_cases; auto)+
    then show ?thesis using inv table_inv_cong run by (metis snd_conv)
  qed
  have "table_inv t (snd (with_connection up (transaction False
      (insert_consumer name h scopes now)) db))" for h
    by (intro connection_inv [where P = "table_inv t"] table_inv_rollback inv ins)
  then show "table_inv t (snd (create_consumer up token name scopes now db))"
    using inv by (auto simp: create_consumer_def Let_def split: prod.split sum.split) (metis snd_conv)+
next
  assume inv: "table_inv t db"
  have "table_inv t (snd (touch_last_seen_txn cid now db))"
    using inv by (subst table_inv_cong [of _ db]) (simp_all add: touch_last_seen_txn_def)
  then show "table_inv t (snd (touch_last_seen up cid now db))"
    unfolding touch_last_seen_def
    by (intro connection_inv [where P = "table_inv t"] table_inv_rollback inv)
qed

lemma hub_step_inv:
  assumes "hub_step K t db db'" "1 \<le> t" "hub_inv t db"
  shows "hub_inv t db'"
  using assms unfolding hub_inv_split
  by (cases rule: hub_step.cases)
    (auto intro: contribute_op.step_ok report_hit_op.stats_ok flag_op.step_ok soft_delete_op.step_ok
      retention_op.step_ok create_consumer_op.stats_ok touch_op.stats_ok contribute_table_inv
      report_hit_table_inv flag_table_inv soft_delete_table_inv retention_table_inv
      same_tables_consumer_ops)

lemma hub_step_ok: "hub_step K t db db' \<Longrightarrow> db_ok db \<Longrightarrow> db_ok db'"
  by (cases rule: hub_step.cases)
    (auto intro: contribute_op.step_ok report_hit_op.stats_ok flag_op.step_ok
      soft_delete_op.step_ok retention_op.step_ok create_consumer_op.stats_ok touch_op.stats_ok)

lemma hub_step_seqs: "hub_step K t db db' \<Longrightarrow> db_ok db \<Longrightarrow> seqs_le db db'"
  by (cases rule: hub_step.cases)
    (auto intro: contribute_op.step_seqs report_hit_op.stats_seqs flag_op.step_seqs
      soft_delete_op.step_seqs retention_op.step_seqs create_consumer_op.stats_seqs touch_op.stats_seqs)

lemma hub_inv_empty: "hub_inv t empty_db"
  by (simp add: hub_inv_def db_ok_empty table_inv_defs) (simp add: empty_db_def)

lemma reachable_inv:
  assumes "hub_reachable K t db" "1 \<le> t"
  shows "hub_inv t db"
  using assms by (induction rule: hub_reachable.induct) (auto simp: hub_inv_empty intro: hub_step_inv)

end
