(* ===== verification/Replica_System.thy ===== *)
theory Replica_System
  imports Hub_System
begin

text \<open>
  A client that syncs while the hub runs. A session is the hub's database with one client's cursor
  and replica; its steps are the hub's operations in any order and the client's pulls. The invariant
  is that the replica is exact up to the cursor. It needs the operator's obligation of
  \<^verbatim>\<open>docs/OPERATIONS.md\<close>: a tombstone is not purged before the client has passed it.
\<close>

section \<open>Retention and the feed\<close>

lemma retention_txn_fingerprints:
  "fingerprints (snd (retention_txn now p db))
    = map (\<lambda>r. if old_tombstone (now - tombstone_metadata_retention_ms p) r \<and> has_metadata r
               then anonymize r else r)
        (filter (\<lambda>r. \<not> old_tombstone (now - tombstone_retention_ms p) r) (fingerprints db))"
  "fingerprints_sync_seq (snd (retention_txn now p db)) = fingerprints_sync_seq db"
  "consumers (snd (retention_txn now p db)) = consumers db"
  by (simp_all add: retention_txn_eq Let_def anonymize_tombstones_def purge_tombstones_def
      delete_fps_def clear_flag_reasons_def delete_hits_def)

lemma apply_retention_cases:
  obtains (unchanged) "fingerprints (snd (apply_retention up now p dry db)) = fingerprints db"
      "fingerprints_sync_seq (snd (apply_retention up now p dry db)) = fingerprints_sync_seq db"
  | (applied) "\<not> dry" "up"
      "snd (apply_retention up now p dry db) = snd (retention_txn now p db)"
proof (cases "up \<and> \<not> dry \<and> fst (apply_retention up now p dry db) \<noteq> Inl OperationalError
    \<and> snd (apply_retention up now p dry db) = snd (retention_txn now p db)")
  case True
  then show ?thesis by (intro that(2)) auto
next
  case False
  have ok: "is_ok (fst (retention_txn now p db))" by (simp add: retention_txn_eq Let_def)
  have seq: "fingerprints_sync_seq y = fingerprints_sync_seq db" if "retention_txn now p db = (x, y)" for x y
    using retention_txn_fingerprints(2) [of now p db] that by simp
  show ?thesis
    using False ok
    by (intro that(1)) (auto simp: apply_retention_def with_connection_def transaction_def
        retention_txn_fingerprints seq split: prod.splits if_splits)
qed

lemma anonymize_entry: "feed_entry (if b then anonymize r else r) = feed_entry r"
  by simp

lemma retention_feed:
  assumes "db' = snd (apply_retention up now p dry db)"
  shows "feed_entry ` set (fingerprints db') \<subseteq> feed_entry ` set (fingerprints db)"
    and "fingerprints_sync_seq db' = fingerprints_sync_seq db"
    and "r \<in> set (fingerprints db) \<Longrightarrow> \<not> old_tombstone (now - tombstone_retention_ms p) r \<Longrightarrow>
      feed_entry r \<in> feed_entry ` set (fingerprints db')"
proof -
  have "feed_entry ` set (fingerprints db') \<subseteq> feed_entry ` set (fingerprints db)
    \<and> fingerprints_sync_seq db' = fingerprints_sync_seq db
    \<and> (\<forall>r \<in> set (fingerprints db). \<not> old_tombstone (now - tombstone_retention_ms p) r
        \<longrightarrow> feed_entry r \<in> feed_entry ` set (fingerprints db'))"
  proof (cases rule: apply_retention_cases [of up now p dry db])
    case unchanged
    then show ?thesis by (auto simp: assms)
  next
    case applied
    have "set (fingerprints db') = (\<lambda>r. if old_tombstone (now - tombstone_metadata_retention_ms p) r
        \<and> has_metadata r then anonymize r else r)
        ` {r \<in> set (fingerprints db). \<not> old_tombstone (now - tombstone_retention_ms p) r}"
      unfolding assms applied(3) retention_txn_fingerprints by simp
    then have "feed_entry ` set (fingerprints db') = feed_entry
        ` {r \<in> set (fingerprints db). \<not> old_tombstone (now - tombstone_retention_ms p) r}"
      by (simp only: image_image anonymize_entry)
    then show ?thesis by (auto simp: assms applied(3) retention_txn_fingerprints(2))
  qed
  then show "feed_entry ` set (fingerprints db') \<subseteq> feed_entry ` set (fingerprints db)"
    and "fingerprints_sync_seq db' = fingerprints_sync_seq db"
    and "r \<in> set (fingerprints db) \<Longrightarrow> \<not> old_tombstone (now - tombstone_retention_ms p) r \<Longrightarrow>
      feed_entry r \<in> feed_entry ` set (fingerprints db')" by blast+
qed

text \<open>A purge keeps the replica exact when the client has already passed what is purged.\<close>

definition purges_seen :: "int \<Rightarrow> int \<Rightarrow> db \<Rightarrow> db \<Rightarrow> bool" where
  "purges_seen q w db db' \<longleftrightarrow>
     (\<forall>r \<in> set (fingerprints db). fp_consumer_id r \<noteq> q \<longrightarrow> fp_id r \<notin> fp_id ` set (fingerprints db')
        \<longrightarrow> fp_sync_seq r \<le> w)"

lemma consistent_retention:
  assumes ok: "db_ok db" and db': "db' = snd (apply_retention up now p dry db)"
    and seen: "purges_seen q w db db'" and c: "consistent (feed_rows q flt db) w m"
  shows "consistent (feed_rows q flt db') w m"
  unfolding consistent_def
proof (intro conjI ballI allI impI)
  note feed = retention_feed [OF db']
  {
    fix s assume "s \<in> set (feed_rows q flt db')" and le: "sy_sync_seq s \<le> w"
    then obtain r' where r': "r' \<in> set (fingerprints db')" "in_feed q flt r'" "s = sync_columns r'"
      by (auto simp: feed_rows_def)
    then have "feed_entry r' \<in> feed_entry ` set (fingerprints db)" using feed(1) by blast
    then obtain r where r: "r \<in> set (fingerprints db)" "feed_entry r' = feed_entry r" by blast
    then have "s \<in> set (feed_rows q flt db)"
      using r' in_feed_entry [OF r(2)] feed_entry_eqD(1) [OF r(2)] by (auto simp: feed_rows_def)
    then show "m (sy_id s) = live_view s" using c le by (simp add: consistent_def)
  next
    fix i assume i: "m i \<noteq> None"
    then obtain r where r: "r \<in> set (fingerprints db)" "in_feed q flt r" "fp_id r = i"
      using c by (auto simp: consistent_def feed_rows_def)
    have "feed_entry r \<in> feed_entry ` set (fingerprints db')"
    proof (cases "i \<in> fp_id ` set (fingerprints db')")
      case True
      then obtain r' where r': "r' \<in> set (fingerprints db')" "fp_id r' = i" by blast
      then obtain r0 where r0: "r0 \<in> set (fingerprints db)" "feed_entry r' = feed_entry r0"
        using feed(1) by blast
      then have "r0 = r"
        using ok r r'(2) feed_entry_eqD(3) [OF r0(2)]
        by (auto simp: db_ok_def fingerprints_ok_def distinct_map dest: inj_onD)
      then show ?thesis using r'(1) r0(2) by (metis imageI)
    next
      case False
      have "fp_consumer_id r \<noteq> q" using r(2) by (cases flt) (simp add: in_feed_def)
      then have "fp_sync_seq r \<le> w" using seen r False by (simp add: purges_seen_def)
      then have "m i = live_view (sync_columns r)"
        using c r by (auto simp: consistent_def feed_rows_def)
      then have "fp_status r \<noteq> Deleted" using i by (auto simp: live_view_def)
      then show ?thesis using feed(3) r(1) by (simp add: old_tombstone_def)
    qed
    then obtain r' where r': "r' \<in> set (fingerprints db')" "feed_entry r = feed_entry r'" by blast
    then have "in_feed q flt r'" "fp_id r' = i"
      using r in_feed_entry [OF r'(2)] feed_entry_eqD(3) [OF r'(2)] by simp_all
    then show "i \<in> sy_id ` set (feed_rows q flt db')"
      using r'(1) by (auto simp: feed_rows_def image_iff)
  }
qed

section \<open>Cursors are positive\<close>

definition seqs_positive :: "db \<Rightarrow> bool" where
  "seqs_positive db \<longleftrightarrow> 1 \<le> fingerprints_sync_seq db \<and> (\<forall>r \<in> set (fingerprints db). 1 \<le> fp_sync_seq r)"

lemma seqs_positive_advances:
  assumes "advances db db'" "seqs_positive db"
  shows "seqs_positive db'"
  unfolding seqs_positive_def
proof (intro conjI ballI)
  show "1 \<le> fingerprints_sync_seq db'" using assms by (auto simp: advances_def seqs_positive_def)
next
  fix r' assume "r' \<in> set (fingerprints db')"
  then have "feed_entry r' \<in> feed_entry ` set (fingerprints db) \<or> fingerprints_sync_seq db \<le> fp_sync_seq r'"
    using assms(1) unfolding advances_def by blast
  then show "1 \<le> fp_sync_seq r'"
    using assms(2) by (auto simp: seqs_positive_def dest: feed_entry_eqD(4))
qed

text \<open>Every step of the hub but retention is a content operation.\<close>

lemma hub_step_advances:
  assumes "hub_step K t db db'" "db_ok db"
  obtains (advances) "advances db db'"
  | (retention) up now p dry where "db' = snd (apply_retention up now p dry db)"
  using assms
  by (cases rule: hub_step.cases)
    (blast intro: contribute_op.step_advances report_hit_op.step_advances flag_op.step_advances
      soft_delete_op.step_advances create_consumer_op.step_advances touch_op.step_advances)+

text \<open>Along a run, an entry is either an old one or has a cursor that was free when the run began.\<close>

lemma hub_run_feed:
  assumes "(hub_step K t)\<^sup>*\<^sup>* db db'" "db_ok db"
  shows "db_ok db' \<and> fingerprints_sync_seq db \<le> fingerprints_sync_seq db'
    \<and> (\<forall>r' \<in> set (fingerprints db'). feed_entry r' \<in> feed_entry ` set (fingerprints db)
         \<or> fingerprints_sync_seq db \<le> fp_sync_seq r')"
  using assms(1)
proof (induction rule: rtranclp_induct)
  case base
  then show ?case using assms(2) by auto
next
  case (step b c)
  have ok: "db_ok c" by (rule hub_step_ok [OF step(2)]) (use step.IH in simp)
  have "fingerprints_sync_seq b \<le> fingerprints_sync_seq c
    \<and> (\<forall>r' \<in> set (fingerprints c). feed_entry r' \<in> feed_entry ` set (fingerprints b)
         \<or> fingerprints_sync_seq b \<le> fp_sync_seq r')"
    using step(2) conjunct1 [OF step.IH]
  proof (cases rule: hub_step_advances)
    case advances
    then show ?thesis unfolding advances_def by blast
  next
    case (retention up now p dry)
    show ?thesis using retention_feed(1,2) [OF retention] by auto
  qed
  then have one: "fingerprints_sync_seq b \<le> fingerprints_sync_seq c"
    and two: "\<And>r'. r' \<in> set (fingerprints c) \<Longrightarrow> (\<exists>r1 \<in> set (fingerprints b). feed_entry r' = feed_entry r1)
      \<or> fingerprints_sync_seq b \<le> fp_sync_seq r'" by blast+
  have "feed_entry r' \<in> feed_entry ` set (fingerprints db) \<or> fingerprints_sync_seq db \<le> fp_sync_seq r'"
    if r': "r' \<in> set (fingerprints c)" for r'
    using two [OF r']
  proof
    assume "\<exists>r1 \<in> set (fingerprints b). feed_entry r' = feed_entry r1"
    then obtain r1 where r1: "r1 \<in> set (fingerprints b)" "feed_entry r' = feed_entry r1" by blast
    have "feed_entry r1 \<in> feed_entry ` set (fingerprints db) \<or> fingerprints_sync_seq db \<le> fp_sync_seq r1"
      using step.IH r1(1) by blast
    then show ?thesis using r1(2) feed_entry_eqD(4) [OF r1(2)] by simp
  next
    assume "fingerprints_sync_seq b \<le> fp_sync_seq r'"
    then show ?thesis using step.IH by linarith
  qed
  then show ?case using ok one step.IH by auto
qed

lemma reachable_positive:
  assumes "hub_reachable K t db" "1 \<le> t"
  shows "seqs_positive db"
  using assms(1)
proof (induction rule: hub_reachable.induct)
  case start
  then show ?case by (simp add: seqs_positive_def empty_db_def)
next
  case (step db db')
  have "db_ok db" using reachable_inv [OF step(1) assms(2)] by (simp add: hub_inv_def)
  with step(2) show ?case
  proof (cases rule: hub_step_advances)
    case advances
    then show ?thesis using step.IH by (rule seqs_positive_advances)
  next
    case (retention up now p dry)
    note feed = retention_feed [OF retention]
    show ?thesis
      unfolding seqs_positive_def
    proof (intro conjI ballI)
      show "1 \<le> fingerprints_sync_seq db'" using feed(2) step.IH by (simp add: seqs_positive_def)
      fix r' assume "r' \<in> set (fingerprints db')"
      then have "feed_entry r' \<in> feed_entry ` set (fingerprints db)" using feed(1) by blast
      then show "1 \<le> fp_sync_seq r'"
        using step.IH by (auto simp: seqs_positive_def dest: feed_entry_eqD(4))
    qed
  qed
qed

section \<open>Sessions\<close>

record session =
  se_db :: db
  se_cursor :: int
  se_replica :: replica

abbreviation no_filter :: sync_filter where
  "no_filter \<equiv> (None, None, None)"

text \<open>
  \<open>q\<close> is the client's consumer id and \<open>limit\<close> its page size. A retention run is a step only when the
  tombstones of the feed that it may purge are at or below the client's cursor.
\<close>

inductive session_step ::
  "crypto \<Rightarrow> int \<Rightarrow> int \<Rightarrow> int \<Rightarrow> session \<Rightarrow> session \<Rightarrow> bool" for K threshold q limit
where
  hub: "hub_step K threshold (se_db s) db' \<Longrightarrow> purges_seen q (se_cursor s) (se_db s) db' \<Longrightarrow>
      session_step K threshold q limit s (s\<lparr>se_db := db'\<rparr>)"
| pull: "sync True q (se_cursor s) limit None None None (se_db s) = Inr (rows, nxt, has_more) \<Longrightarrow>
      session_step K threshold q limit s
        (s\<lparr>se_cursor := nxt, se_replica := apply_page rows (se_replica s)\<rparr>)"

inductive session_reachable ::
  "crypto \<Rightarrow> int \<Rightarrow> int \<Rightarrow> int \<Rightarrow> session \<Rightarrow> bool" for K threshold q limit
where
  opens: "hub_reachable K threshold db \<Longrightarrow>
      session_reachable K threshold q limit \<lparr>se_db = db, se_cursor = 0, se_replica = Map.empty\<rparr>"
| steps: "session_reachable K threshold q limit s \<Longrightarrow> session_step K threshold q limit s s' \<Longrightarrow>
      session_reachable K threshold q limit s'"

section \<open>The replica follows the hub\<close>

lemma sync_page_bound:
  assumes ok: "db_ok db" and req: "sync_request_ok limit flt" and w: "w < fingerprints_sync_seq db"
    and p: "sync_page q limit flt db w = (ps, nxt, hm)"
  shows "nxt < fingerprints_sync_seq db"
proof (cases "ps = []")
  case True
  then show ?thesis using hub_feed.page_split [OF conjI [OF ok req] p] w by auto
next
  case False
  then have "last ps \<in> set (feed_rows q flt db)" "nxt = sy_sync_seq (last ps)"
    using hub_feed.page_split [OF conjI [OF ok req] p] by fastforce+
  then show ?thesis using ok by (auto simp: feed_rows_def db_ok_def fingerprints_ok_def)
qed

definition session_inv :: "int \<Rightarrow> int \<Rightarrow> session \<Rightarrow> bool" where
  "session_inv threshold q s \<longleftrightarrow> hub_inv threshold (se_db s)
     \<and> se_cursor s < fingerprints_sync_seq (se_db s)
     \<and> consistent (feed_rows q no_filter (se_db s)) (se_cursor s) (se_replica s)"

lemma session_start_inv:
  assumes "hub_reachable K t db" "1 \<le> t"
  shows "session_inv t q \<lparr>se_db = db, se_cursor = 0, se_replica = Map.empty\<rparr>"
proof -
  have pos: "seqs_positive db" by (rule reachable_positive [OF assms])
  have "consistent (feed_rows q no_filter db) 0 Map.empty"
    unfolding consistent_start using pos by (fastforce simp: feed_rows_def seqs_positive_def)
  then show ?thesis using reachable_inv [OF assms] pos by (simp add: session_inv_def seqs_positive_def)
qed

lemma session_step_inv:
  assumes step: "session_step K t q limit s s'" and t: "1 \<le> t"
    and req: "sync_request_ok limit no_filter" and inv: "session_inv t q s"
  shows "session_inv t q s'"
  using step
proof (cases rule: session_step.cases)
  case (hub db')
  have ok: "db_ok (se_db s)" and hi: "hub_inv t (se_db s)"
    and w: "se_cursor s < fingerprints_sync_seq (se_db s)"
    and c: "consistent (feed_rows q no_filter (se_db s)) (se_cursor s) (se_replica s)"
    using inv by (simp_all add: session_inv_def hub_inv_def)
  have "se_cursor s < fingerprints_sync_seq db'"
    using w hub_step_seqs [OF hub(2) ok] by (simp add: seqs_le_def)
  moreover have "consistent (feed_rows q no_filter db') (se_cursor s) (se_replica s)"
    using hub(2) ok
  proof (cases rule: hub_step_advances)
    case advances
    then show ?thesis using w unfiltered_rows_stay [OF advances] c by (rule consistent_advances)
  next
    case (retention up now p dry)
    then show ?thesis by (rule consistent_retention [OF ok _ hub(3) c])
  qed
  ultimately show ?thesis
    using hub_step_inv [OF hub(2) t hi] hub(1) by (simp add: session_inv_def)
next
  case (pull rows nxt hm)
  have ok: "db_ok (se_db s)" and w: "se_cursor s < fingerprints_sync_seq (se_db s)"
    and c: "consistent (feed_rows q no_filter (se_db s)) (se_cursor s) (se_replica s)"
    using inv by (simp_all add: session_inv_def hub_inv_def)
  have p: "sync_page q limit no_filter (se_db s) (se_cursor s) = (rows, nxt, hm)"
    using pull(2) sync_Inr [OF req] by simp
  have "nxt < fingerprints_sync_seq (se_db s)" by (rule sync_page_bound [OF ok req w p])
  moreover have "consistent (feed_rows q no_filter (se_db s)) nxt (apply_page rows (se_replica s))"
    by (rule hub_feed.page_consistent [OF conjI [OF ok req] p c])
  ultimately show ?thesis using inv pull(1) by (simp add: session_inv_def)
qed

lemma session_reachable_inv:
  assumes "session_reachable K t q limit s" "1 \<le> t" "sync_request_ok limit no_filter"
  shows "session_inv t q s"
  using assms(1)
  by (induction rule: session_reachable.induct)
    (auto intro: session_start_inv session_step_inv simp: assms(2,3))

text \<open>When the hub pauses, pulling until \<open>has_more\<close> is false gives the hub's catalogue.\<close>

lemma session_catches_up:
  assumes reach: "session_reachable K t q limit s" and t: "1 \<le> t"
    and req: "sync_request_ok limit no_filter"
    and fuel: "length (fingerprints (se_db s)) < fuel"
  shows "\<exists>w. sync_loop (sync_page q limit no_filter (se_db s)) fuel (se_cursor s) (se_replica s)
    = Some (w, catalogue (feed_rows q no_filter (se_db s)))"
proof -
  let ?rows = "feed_rows q no_filter (se_db s)"
  have inv: "session_inv t q s" by (rule session_reachable_inv [OF reach t req])
  then have ok: "db_ok (se_db s)" and c: "consistent ?rows (se_cursor s) (se_replica s)"
    by (simp_all add: session_inv_def hub_inv_def)
  have "card {r \<in> set ?rows. se_cursor s < sy_sync_seq r} \<le> card (set ?rows)"
    by (intro card_mono) auto
  also have "\<dots> \<le> length ?rows" by (rule card_length)
  also have "\<dots> \<le> length (fingerprints (se_db s))" by (simp add: feed_rows_def)
  finally have "card {r \<in> set ?rows. se_cursor s < sy_sync_seq r} < fuel" using fuel by simp
  from hub_feed.sync_loop_returns [OF conjI [OF ok req] c this] show ?thesis by blast
qed

end
