(* ===== verification/Samples.thy ===== *)
theory Samples
  imports Replica_System
begin

text \<open>
  Concrete instances that the witnesses use: an authenticated cipher that satisfies the assumptions
  on AES-GCM, a keyring, a small database, and a reachable state of the hub built by its operations.
\<close>

definition sample_aead :: aead where
  "sample_aead = \<lparr>gcm_encrypt = (\<lambda>k n p. k @ n @ p),
     gcm_decrypt = (\<lambda>k n c. if take (length k + length n) c = k @ n
        then Some (drop (length k + length n) c) else None)\<rparr>"

lemma sample_aead_correct: "aead_correct sample_aead"
  by (simp add: aead_correct_def sample_aead_def)

definition sample_key :: bytes where
  "sample_key = replicate 32 7"

definition sample_ring :: keyring where
  "sample_ring = \<lparr>keys = [(''k1'', sample_key)], active_key_id = ''k1''\<rparr>"

definition sample_crypto :: crypto where
  "sample_crypto = \<lparr>cr_aead = sample_aead, cr_ring = Inr sample_ring\<rparr>"

definition sample_nonce :: bytes where
  "sample_nonce = replicate 12 9"

lemma sample_key_id [simp]: "KEY_ID_RE_fullmatch ''k1''"
  by (simp add: KEY_ID_RE_fullmatch_def is_key_id_char_def Let_def)

lemma sample_ring_ok: "keyring_ok sample_ring"
  by (simp add: keyring_ok_def keys_ok_def sample_ring_def sample_key_def KEY_BYTES_def
      KEY_ID_RE_fullmatch_def is_key_id_char_def Let_def)

definition sample_consumer :: "int \<Rightarrow> string \<Rightarrow> consumer_row" where
  "sample_consumer i name = \<lparr>cons_id = i, cons_name = name, cons_api_key_hash = name,
     cons_scopes = [''read'', ''write''], cons_enabled = True, cons_created_at_ms = 1,
     cons_last_seen_at_ms = None\<rparr>"

definition sample_row :: fingerprint_row where
  "sample_row = \<lparr>fp_id = 1, fp_sync_seq = 1, fp_phash_hex = ''00ff00ff00ff00ff'',
     fp_algorithm = ''phash'', fp_algorithm_version = ''imagehash.phash'',
     fp_normalization_version = ''alpha_white_v1'', fp_category = ''scam'', fp_action = ''kick'',
     fp_consumer_id = 1, fp_source_guild_id = None, fp_reason = None, fp_source_url = None,
     fp_added_at_ms = 10, fp_updated_at_ms = 10, fp_hit_count = 0, fp_last_hit_at_ms = None,
     fp_auto_added = False, fp_provenance = ''manual_staff'', fp_status = Active,
     fp_flag_count = 0\<rparr>"

text \<open>Three consumers, the first of which has one active row.\<close>

definition sample_db :: db where
  "sample_db = \<lparr>consumers = [sample_consumer 1 ''alpha'', sample_consumer 2 ''beta'', sample_consumer 3 ''gamma''],
     fingerprints = [sample_row], fingerprint_hits = [], fingerprint_flags = [],
     consumers_id_seq = 4, fingerprints_id_seq = 2, hits_id_seq = 1, flags_id_seq = 1,
     fingerprints_sync_seq = 2\<rparr>"

lemma sample_db_ok: "db_ok sample_db"
  by (simp add: db_ok_defs sample_db_def sample_row_def sample_consumer_def VALID_ACTIONS_def
      VALID_CATEGORIES_def VALID_SCOPES_def)

lemma sample_db_inv: "hub_inv 2 sample_db"
  unfolding hub_inv_def
  by (simp add: sample_db_ok) (simp add: table_inv_defs sample_db_def sample_row_def)

definition sample_contribution :: "int \<Rightarrow> contribution" where
  "sample_contribution cid = \<lparr>con_consumer_id = cid, con_phash_hex = ''00ff00ff00ff00ff'',
     con_algorithm = ''phash'', con_algorithm_version = ''imagehash.phash'',
     con_normalization_version = ''alpha_white_v1'', con_category = ''scam'', con_action = ''kick'',
     con_source_guild_id = None, con_reason = Some ''x'', con_source_url = None,
     con_auto_added = False, con_provenance = ''manual_staff'', con_now_ms = 10\<rparr>"

text \<open>A reachable state: a consumer is created, contributes a row and flags it.\<close>

definition hub_day1 :: db where
  "hub_day1 = snd (create_consumer True [] ''alpha'' [''read'', ''write''] 5 empty_db)"

definition hub_day2 :: db where
  "hub_day2 = snd (contribute sample_crypto True ([], sample_nonce, []) (sample_contribution 1) hub_day1)"

definition hub_day3 :: db where
  "hub_day3 = snd (flag sample_crypto True sample_nonce 1 1 None 20 2 hub_day2)"

lemma hub_days_reachable:
  "hub_reachable sample_crypto 2 hub_day1" "hub_reachable sample_crypto 2 hub_day2"
  "hub_reachable sample_crypto 2 hub_day3"
proof -
  show d1: "hub_reachable sample_crypto 2 hub_day1"
    unfolding hub_day1_def by (rule hub_reachable.step [OF hub_reachable.start hub_step.creates_consumer])
  show d2: "hub_reachable sample_crypto 2 hub_day2"
    unfolding hub_day2_def by (rule hub_reachable.step [OF d1 hub_step.contributes])
  show "hub_reachable sample_crypto 2 hub_day3"
    unfolding hub_day3_def by (rule hub_reachable.step [OF d2 hub_step.flags])
qed

text \<open>The state is what it should be: one active row with one flag.\<close>

lemma hub_day1_eval:
  "hub_day1 = empty_db\<lparr>consumers := [\<lparr>cons_id = 1, cons_name = ''alpha'',
     cons_api_key_hash = hash_api_key (generate_api_key []), cons_scopes = [''read'', ''write''],
     cons_enabled = True, cons_created_at_ms = 5, cons_last_seen_at_ms = None\<rparr>],
     consumers_id_seq := 2\<rparr>"
  by (simp add: hub_day1_def create_consumer_def with_connection_def transaction_def Let_def
      insert_consumer_def empty_db_def VALID_SCOPES_def pg_text_hash)
    (simp add: sql_simps)

lemma hub_day2_eval:
  "map (\<lambda>r. (fp_id r, fp_sync_seq r, fp_status r, fp_flag_count r)) (fingerprints hub_day2)
    = [(1, 1, Active, 0)]"
  by (simp add: hub_day2_def hub_day1_eval contribute_def sample_contribution_def encrypt_text_def
      sample_crypto_def sample_ring_def ring_of_def with_connection_def transaction_def
      contribute_txn_def envelope_pg_text [OF sample_key_id, unfolded pg_text_code] sql_simps select_fp_by_phash_def empty_db_def insert_fp_def new_row_def
      VALID_ACTIONS_def VALID_CATEGORIES_def Let_def)

lemma hub_day2_row:
  obtains r where "fingerprints hub_day2 = [r]" "fp_id r = 1" "fp_sync_seq r = 1"
    "fp_status r = Active" "fp_consumer_id r = 1"
proof -
  have "map (\<lambda>r. (fp_id r, fp_sync_seq r, fp_status r, fp_consumer_id r)) (fingerprints hub_day2)
    = [(1, 1, Active, 1)]"
    by (simp add: hub_day2_def hub_day1_eval contribute_def sample_contribution_def encrypt_text_def
        sample_crypto_def sample_ring_def ring_of_def with_connection_def transaction_def
        contribute_txn_def envelope_pg_text [OF sample_key_id, unfolded pg_text_code] sql_simps select_fp_by_phash_def empty_db_def insert_fp_def new_row_def
        VALID_ACTIONS_def VALID_CATEGORIES_def Let_def)
  then show ?thesis using that by auto
qed

end
