(* ===== verification/Row_Lifecycle.thy ===== *)
theory Row_Lifecycle
  imports Replica_System
begin

text \<open>
  The life of one fingerprint row: which columns never change, and the state machine of its status.
  A row is active, is hidden by flags, is deleted by its owner or an administrator, and becomes
  active again only when its own contributor contributes the hash again; every change of status
  takes a new sync cursor.
\<close>

inductive status_step :: "status \<Rightarrow> status \<Rightarrow> bool" where
  hides: "status_step Active Hidden"
| deletes_active: "status_step Active Deleted"
| deletes_hidden: "status_step Hidden Deleted"
| revives: "status_step Deleted Active"

inductive_simps status_step_simps [simp]:
  "status_step Active s" "status_step Hidden s" "status_step Deleted s"

definition row_moves :: "fingerprint_row \<Rightarrow> fingerprint_row \<Rightarrow> bool" where
  "row_moves r r' \<longleftrightarrow> fp_phash_hex r' = fp_phash_hex r \<and> fp_consumer_id r' = fp_consumer_id r
     \<and> fp_hit_count r \<le> fp_hit_count r'
     \<and> (fp_status r' = fp_status r
        \<or> (status_step (fp_status r) (fp_status r') \<and> fp_sync_seq r < fp_sync_seq r'))"

definition rows_move :: "db \<Rightarrow> db \<Rightarrow> bool" where
  "rows_move db db' \<longleftrightarrow> (\<forall>r \<in> set (fingerprints db). \<forall>r' \<in> set (fingerprints db').
     fp_id r' = fp_id r \<longrightarrow> row_moves r r')"

lemma row_moves_refl [simp]: "row_moves r r"
  by (simp add: row_moves_def)

lemma same_id_same_row:
  "db_ok db \<Longrightarrow> r \<in> set (fingerprints db) \<Longrightarrow> s \<in> set (fingerprints db) \<Longrightarrow> fp_id r = fp_id s \<Longrightarrow> r = s"
  by (auto simp: db_ok_def fingerprints_ok_def distinct_map dest: inj_onD)

lemma rows_move_refl: "db_ok db \<Longrightarrow> rows_move db db"
  unfolding rows_move_def by (metis same_id_same_row row_moves_refl)

lemma rows_move_same: "db_ok db \<Longrightarrow> fingerprints db' = fingerprints db \<Longrightarrow> rows_move db db'"
  using rows_move_refl [of db] by (simp add: rows_move_def)

lemma rows_move_connection:
  assumes ok: "db_ok db" and body: "\<And>x. fst (body db) = Inr x \<Longrightarrow> rows_move db (snd (body db))"
  shows "rows_move db (snd (with_connection up (transaction fr body) db))"
  by (rule connection_inv [where P = "rows_move db"])
    (use rows_move_refl [OF ok] body in \<open>auto simp: rows_move_def\<close>)

lemma rows_move_update:
  assumes ok: "db_ok db" and same: "fingerprints db1 = fingerprints db"
    and f: "\<And>r. r \<in> set (fingerprints db) \<Longrightarrow> fp_id r = i \<Longrightarrow> fp_id (f r) = fp_id r \<and> row_moves r (f r)"
  shows "rows_move db (update_fp i f db1)"
  unfolding rows_move_def
proof (intro ballI impI)
  fix r r' assume r: "r \<in> set (fingerprints db)" and r': "r' \<in> set (fingerprints (update_fp i f db1))"
    and id: "fp_id r' = fp_id r"
  from r' consider s where "s \<in> set (fingerprints db)" "fp_id s = i" "r' = f s"
    | "r' \<in> set (fingerprints db)"
    by (auto simp: set_update_fp same)
  then show "row_moves r r'"
  proof cases
    case 1
    then have "s = r" using f [OF 1(1,2)] id same_id_same_row [OF ok 1(1) r] by simp
    then show ?thesis using f [OF 1(1,2)] 1(3) by simp
  next
    case 2
    then show ?thesis using same_id_same_row [OF ok 2 r] id by simp
  qed
qed

lemma seq_lt: "db_ok db \<Longrightarrow> r \<in> set (fingerprints db) \<Longrightarrow> fp_sync_seq r < fingerprints_sync_seq db"
  by (simp add: db_ok_def fingerprints_ok_def)

lemma contribute_moves:
  assumes ok: "db_ok db"
  shows "rows_move db (snd (contribute K up nonces c db))"
proof -
  have ins: "rows_move db db'" if "insert_fp v db = (Inr x, db')" for v x db'
    using that
  proof (cases rule: insert_fp_cases)
    case conflict
    then show ?thesis by (intro rows_move_same [OF ok]) simp
  next
    case (inserted row)
    have "fp_id r \<noteq> fp_id row" if "r \<in> set (fingerprints db)" for r
      using ok that inserted(2) by (fastforce simp: db_ok_def fingerprints_ok_def)
    then show ?thesis
      using rows_move_refl [OF ok] inserted(3) by (fastforce simp: rows_move_def)
  qed auto
  have res: "rows_move db db'"
    if run: "resurrect c er eu eg (fp_id ex) db = (Inr x, db')"
      and ex: "ex \<in> set (fingerprints db)" "fp_status ex = Deleted" for er eu eg ex x db'
    using run
  proof (cases rule: resurrect_cases)
    case resurrected
    show ?thesis
      unfolding resurrected(2)
    proof (rule rows_move_update [OF ok])
      fix r assume r: "r \<in> set (fingerprints db)" "fp_id r = fp_id ex"
      then have "r = ex" by (intro same_id_same_row [OF ok] ex) auto
      then show "fp_id (resurrect_row c er eu eg (fingerprints_sync_seq db) r) = fp_id r
        \<and> row_moves r (resurrect_row c er eu eg (fingerprints_sync_seq db) r)"
        using ex(2) seq_lt [OF ok r(1)] by (simp add: row_moves_def)
    qed simp
  qed auto
  have body: "rows_move db (snd (contribute_txn c er eu eg db))"
    if "fst (contribute_txn c er eu eg db) = Inr x" for er eu eg x
  proof (cases "select_fp_by_phash (con_phash_hex c) (con_consumer_id c) db")
    case None
    then show ?thesis
      using that ins rows_move_refl [OF ok]
      by (auto simp: contribute_txn_def split: if_splits prod.splits sum.splits option.splits)
  next
    case (Some ex)
    then have "ex \<in> set (fingerprints db)" by (auto dest: select_fp_by_phash_SomeD)
    then show ?thesis
      using that Some res [of _ _ _ ex] rows_move_refl [OF ok]
      by (auto simp: contribute_txn_def split: if_splits prod.splits sum.splits)
  qed
  have conn: "rows_move db (snd (with_connection up (transaction False (contribute_txn c er eu eg)) db))"
    for er eu eg by (rule rows_move_connection [OF ok]) (rule body)
  show ?thesis
    using conn rows_move_refl [OF ok] by (auto simp: contribute_def split: sum.split)
qed

lemma report_hit_moves:
  assumes ok: "db_ok db"
  shows "rows_move db (snd (report_hit K up nonce fpid cid guild distance now db))"
  unfolding report_hit_def
proof (rule rows_move_connection [OF ok])
  fix x assume "fst (report_hit_txn K nonce fpid cid guild distance now db) = Inr x"
  then obtain db' where run: "report_hit_txn K nonce fpid cid guild distance now db = (Inr x, db')"
    by (metis prod.collapse)
  then have "rows_move db db'"
  proof (cases rule: report_hit_txn_cases)
    case (recorded fp eg db1)
    show ?thesis
      unfolding recorded(6)
      by (rule rows_move_update [OF ok insert_hit_ok(3) [OF ok recorded(4)]])
        (simp add: row_moves_def)
  qed (use rows_move_refl [OF ok] in auto)
  then show "rows_move db (snd (report_hit_txn K nonce fpid cid guild distance now db))"
    using run by simp
qed

lemma flag_moves:
  assumes ok: "db_ok db"
  shows "rows_move db (snd (flag K up nonce fpid cid reason now t db))"
  unfolding flag_def
proof (rule rows_move_connection [OF ok])
  fix x assume "fst (flag_txn K nonce fpid cid reason now t db) = Inr x"
  then obtain db' where run: "flag_txn K nonce fpid cid reason now t db = (Inr x, db')"
    by (metis prod.collapse)
  then have "rows_move db db'"
  proof (cases rule: flag_txn_cases)
    case (hides fp er db1)
    note ins = insert_flag_ok [OF ok hides(3)]
    have only: "r = fp" if "r \<in> set (fingerprints db)" "fp_id r = fpid" for r
      using hides(1) that ok select_fp_Some_iff [of db fpid r] by (simp add: db_ok_def)
    show ?thesis
      unfolding hides(6)
      by (rule rows_move_update [OF ok]) (use ins(3) only hides(2) seq_lt [OF ok] in \<open>auto simp: row_moves_def\<close>)
  next
    case (counts fp er db1)
    show ?thesis
      unfolding counts(6)
      by (rule rows_move_update [OF ok insert_flag_ok(3) [OF ok counts(3)]]) (simp add: row_moves_def)
  qed (use rows_move_refl [OF ok] in auto)
  then show "rows_move db (snd (flag_txn K nonce fpid cid reason now t db))" using run by simp
qed

lemma soft_delete_moves:
  assumes ok: "db_ok db"
  shows "rows_move db (snd (soft_delete up fpid now db))"
  unfolding soft_delete_def
proof (rule rows_move_connection [OF ok])
  show "rows_move db (snd (soft_delete_txn fpid now db))"
  proof (cases rule: soft_delete_txn_cases [of fpid now db])
    case (deleted fp)
    have only: "r = fp" if "r \<in> set (fingerprints db)" "fp_id r = fpid" for r
      using deleted(1) that ok select_fp_Some_iff [of db fpid r] by (simp add: db_ok_def)
    have "status_step (fp_status fp) Deleted" using deleted(2) by (cases "fp_status fp") simp_all
    then show ?thesis
      unfolding deleted(3) snd_conv
      by (intro rows_move_update [OF ok]) (use only seq_lt [OF ok] in \<open>auto simp: row_moves_def\<close>)
  qed (use rows_move_refl [OF ok] in auto)
qed

lemma retention_moves:
  assumes ok: "db_ok db"
  shows "rows_move db (snd (apply_retention up now p dry db))"
proof (cases rule: apply_retention_cases [of up now p dry db])
  case unchanged
  then show ?thesis by (intro rows_move_same [OF ok])
next
  case applied
  have "\<exists>s \<in> set (fingerprints db). r' = s \<or> r' = anonymize s"
    if "r' \<in> set (fingerprints (snd (retention_txn now p db)))" for r'
    using that by (auto simp: retention_txn_fingerprints split: if_splits)
  moreover have "row_moves s (anonymize s)" for s by (simp add: row_moves_def)
  ultimately show ?thesis
    unfolding applied(3) rows_move_def
    by (metis same_id_same_row [OF ok] anonymize_fields(1) row_moves_refl)
qed

lemma consumer_ops_move:
  assumes ok: "db_ok db"
  shows "rows_move db (snd (create_consumer up token name scopes now db))"
    and "rows_move db (snd (touch_last_seen up cid now db))"
proof -
  have "fingerprints (snd (insert_consumer name h scopes now db)) = fingerprints db" for h
  proof -
    obtain r db' where run: "insert_consumer name h scopes now db = (r, db')" by fastforce
    then have "fingerprints db' = fingerprints db" by (cases rule: insert_consumer_cases) auto
    then show ?thesis using run by simp
  qed
  then have "rows_move db (snd (with_connection up (transaction False
      (insert_consumer name h scopes now)) db))" for h
    by (intro rows_move_connection [OF ok] rows_move_same [OF ok])
  then show "rows_move db (snd (create_consumer up token name scopes now db))"
    using rows_move_refl [OF ok]
    by (auto simp: create_consumer_def Let_def split: prod.split sum.split) (metis snd_conv)+
  show "rows_move db (snd (touch_last_seen up cid now db))"
    unfolding touch_last_seen_def
    by (intro rows_move_connection [OF ok] rows_move_same [OF ok]) (simp add: touch_last_seen_txn_def)
qed

lemma hub_step_moves: "hub_step K t db db' \<Longrightarrow> db_ok db \<Longrightarrow> rows_move db db'"
  by (cases rule: hub_step.cases)
    (auto intro: contribute_moves report_hit_moves flag_moves soft_delete_moves retention_moves
      consumer_ops_move)

end
