(* ===== verification/Store_Outcomes.thy ===== *)
theory Store_Outcomes
  imports Row_Lifecycle
begin

text \<open>
  What each writing operation of \<^verbatim>\<open>api/fingerprint_store.py\<close> returns and stores when the database
  answers and the keyring is usable: total descriptions, so that they also say that the operation
  succeeds.
\<close>

section \<open>Encrypting a column\<close>

lemma encrypt_field_usable:
  assumes "cr_ring K = Inr ring" "keyring_ok ring"
  obtains e where "encrypt_field K nonce v = Inr e" "pred_option pg_text e" "e = None \<longleftrightarrow> v = None"
proof (cases v)
  case None
  then show ?thesis by (intro that [of None]) simp_all
next
  case (Some t)
  have ring: "ring_of None (cr_ring K) = Inr ring" using assms(1) by (simp add: ring_of_def)
  have "\<exists>env. encrypt_text (cr_aead K) (cr_ring K) None None nonce (Some t) = Inr (Some env)"
    by (rule encrypt_active_ok [OF ring assms(2)]) simp
  then obtain env
    where env: "encrypt_text (cr_aead K) (cr_ring K) None None nonce (Some t) = Inr (Some env)" by blast
  from encrypt_text_SomeD [OF env] obtain i key c where "map_of (keys ring) i = Some key"
    "env = envelope i nonce c"
    using ring by auto
  then have "pg_text env" using envelope_pg_text keyring_ok_lookup(1) [OF assms(2)] by blast
  then show ?thesis using env Some by (intro that [of "Some env"]) simp_all
qed

section \<open>Flags\<close>

definition flaggers :: "int \<Rightarrow> db \<Rightarrow> int set" where
  "flaggers fpid db =
     {c. \<exists>f \<in> set (fingerprint_flags db). flag_fingerprint_id f = fpid \<and> flag_consumer_id f = c}"

lemma count_flaggers_card: "count_flaggers fpid db = int (card (flaggers fpid db))"
proof -
  have "length (remdups xs) = card (set xs)" for xs :: "int list" by (metis length_remdups_card_conv)
  moreover have "set (map flag_consumer_id (filter (\<lambda>f. flag_fingerprint_id f = fpid)
      (fingerprint_flags db))) = flaggers fpid db"
    by (auto simp: flaggers_def)
  ultimately show ?thesis by (simp only: count_flaggers_def)
qed

lemma finite_flaggers [simp]: "finite (flaggers fpid db)"
proof -
  have "flaggers fpid db \<subseteq> flag_consumer_id ` set (fingerprint_flags db)" by (auto simp: flaggers_def)
  then show ?thesis by (rule finite_subset) simp
qed

lemma insert_flag_flaggers:
  "insert_flag fpid cid er now db = (Inr u, db1) \<Longrightarrow> flaggers fpid db1 = insert cid (flaggers fpid db)"
  by (erule insert_flag_cases) (auto simp: flaggers_def)

lemma insert_flag_succeeds:
  assumes "pred_option pg_text er" "fpid \<in> fp_id ` set (fingerprints db)" "cid \<in> cons_id ` set (consumers db)"
  obtains db1 where "insert_flag fpid cid er now db = (Inr (), db1)"
proof -
  have "\<exists>db1. insert_flag fpid cid er now db = (Inr (), db1)"
    using assms by (simp add: insert_flag_def Let_def)
  then show ?thesis using that by blast
qed

definition flag_hides :: "int \<Rightarrow> int \<Rightarrow> fingerprint_row \<Rightarrow> db \<Rightarrow> bool" where
  "flag_hides threshold cid fp db \<longleftrightarrow>
     fp_status fp = Active \<and> threshold \<le> int (card (insert cid (flaggers (fp_id fp) db)))"

lemma flag_outcome_lemma:
  assumes ok: "db_ok db" and fp: "fp \<in> set (fingerprints db)" "fp_status fp \<noteq> Deleted"
    and cid: "cid \<in> cons_id ` set (consumers db)"
    and ring: "cr_ring K = Inr ring" "keyring_ok ring"
  shows "\<exists>db'. flag K True nonce (fp_id fp) cid reason now t db
      = (Inr (Some \<lparr>fr_flag_count = int (card (insert cid (flaggers (fp_id fp) db))),
                    fr_status = (if flag_hides t cid fp db then Hidden else fp_status fp),
                    fr_hidden = flag_hides t cid fp db\<rparr>), db')
    \<and> select_fp (fp_id fp) db' = Some (fp\<lparr>
          fp_status := (if flag_hides t cid fp db then Hidden else fp_status fp),
          fp_flag_count := int (card (insert cid (flaggers (fp_id fp) db))),
          fp_sync_seq := (if flag_hides t cid fp db then fingerprints_sync_seq db else fp_sync_seq fp),
          fp_updated_at_ms := now\<rparr>)
    \<and> flaggers (fp_id fp) db' = insert cid (flaggers (fp_id fp) db)"
proof -
  obtain er where enc: "encrypt_field K nonce reason = Inr er" "pred_option pg_text er"
    using encrypt_field_usable [OF ring] by metis
  obtain db1 where ins: "insert_flag (fp_id fp) cid er now db = (Inr (), db1)"
    using insert_flag_succeeds [OF enc(2) _ cid] fp(1) by blast
  have sel: "select_fp (fp_id fp) db = Some fp"
    using ok fp(1) select_fp_Some_iff [of db "fp_id fp" fp] by (simp add: db_ok_def)
  note same = insert_flag_ok [OF ok ins]
  have sel1: "select_fp (fp_id fp) db1 = Some fp" using sel select_fp_cong [OF same(3)] by simp
  have cnt: "count_flaggers (fp_id fp) db1 = int (card (insert cid (flaggers (fp_id fp) db)))"
    by (simp only: count_flaggers_card insert_flag_flaggers [OF ins])
  have hid: "flag_hides t cid fp db \<longleftrightarrow> t \<le> count_flaggers (fp_id fp) db1 \<and> fp_status fp = Active"
    by (auto simp: flag_hides_def cnt)
  have fl: "flaggers (fp_id fp) (update_fp i f db2) = insert cid (flaggers (fp_id fp) db)"
    if "fingerprint_flags db2 = fingerprint_flags db1" for i f db2
    using insert_flag_flaggers [OF ins] that by (simp add: flaggers_def)
  show ?thesis
  proof (cases "flag_hides t cid fp db")
    case True
    then have h: "t \<le> count_flaggers (fp_id fp) db1" "fp_status fp = Active" using hid by auto
    have seq: "nextval_sync db1 = (fingerprints_sync_seq db,
        db1\<lparr>fingerprints_sync_seq := fingerprints_sync_seq db + 1\<rparr>)"
      by (simp add: nextval_sync_def same(4))
    have sel2: "select_fp (fp_id fp) (db1\<lparr>fingerprints_sync_seq := n\<rparr>) = Some fp" for n
      using sel1 by (simp add: select_fp_def)
    show ?thesis
      using True h sel enc(1) ins seq sel2 cnt
      by (simp add: flag_def with_connection_def transaction_def flag_txn_def select_fp_update fl Let_def)
  next
    case False
    then have h: "\<not> (t \<le> count_flaggers (fp_id fp) db1 \<and> fp_status fp = Active)" using hid by auto
    show ?thesis
      using False h fp(2) sel enc(1) ins sel1 cnt
      by (auto simp: flag_def with_connection_def transaction_def flag_txn_def select_fp_update fl Let_def)
  qed
qed

section \<open>Hits\<close>

lemma insert_hit_succeeds:
  assumes "pred_option pg_text eg" "pred_option pg_integer distance"
    "fpid \<in> fp_id ` set (fingerprints db)" "cid \<in> cons_id ` set (consumers db)"
  obtains db1 where "insert_hit fpid cid eg distance now db = (Inr (), db1)"
proof -
  have "\<exists>db1. insert_hit fpid cid eg distance now db = (Inr (), db1)"
    using assms by (simp add: insert_hit_def Let_def)
  then show ?thesis using that by blast
qed

lemma report_hit_outcome_lemma:
  assumes ok: "db_ok db" and fp: "fp \<in> set (fingerprints db)" "fp_status fp \<noteq> Deleted"
    and cid: "cid \<in> cons_id ` set (consumers db)" and dist: "pred_option pg_integer distance"
    and ring: "cr_ring K = Inr ring" "keyring_ok ring"
  shows "\<exists>db'. report_hit K True nonce (fp_id fp) cid guild distance now db
      = (Inr (Some (fp_hit_count fp + 1)), db')
    \<and> select_fp (fp_id fp) db' = Some (fp\<lparr>fp_hit_count := fp_hit_count fp + 1, fp_last_hit_at_ms := Some now\<rparr>)
    \<and> hits_of (fp_id fp) db' = hits_of (fp_id fp) db + 1
    \<and> (\<exists>h. fingerprint_hits db' = fingerprint_hits db @ [h] \<and> hit_fingerprint_id h = fp_id fp
        \<and> hit_consumer_id h = cid \<and> hit_distance h = distance \<and> hit_at_ms h = now
        \<and> encrypt_field K nonce guild = Inr (hit_guild_id h))
    \<and> (\<forall>j. j \<noteq> fp_id fp \<longrightarrow> select_fp j db' = select_fp j db)"
proof -
  obtain eg where enc: "encrypt_field K nonce guild = Inr eg" "pred_option pg_text eg"
    using encrypt_field_usable [OF ring] by metis
  obtain db1 where ins: "insert_hit (fp_id fp) cid eg distance now db = (Inr (), db1)"
    using insert_hit_succeeds [OF enc(2) dist _ cid] fp(1) by blast
  have sel: "select_fp (fp_id fp) db = Some fp"
    using ok fp(1) select_fp_Some_iff [of db "fp_id fp" fp] by (simp add: db_ok_def)
  have sel1: "select_fp (fp_id fp) db1 = Some fp"
    using sel select_fp_cong [OF insert_hit_ok(3) [OF ok ins]] by simp
  have "hits_of (fp_id fp) (update_fp i f db1) = hits_of (fp_id fp) db + 1" for i f
    using ins by (cases rule: insert_hit_cases) (auto simp: hits_of_def)
  moreover have "\<exists>h. fingerprint_hits (update_fp i f db1) = fingerprint_hits db @ [h] \<and> hit_fingerprint_id h = fp_id fp
      \<and> hit_consumer_id h = cid \<and> hit_distance h = distance \<and> hit_at_ms h = now \<and> eg = hit_guild_id h" for i f
    using ins by (cases rule: insert_hit_cases) auto
  moreover have "select_fp j db1 = select_fp j db" for j
    by (rule select_fp_cong [OF insert_hit_ok(3) [OF ok ins]])
  ultimately show ?thesis
    using fp(2) sel sel1 enc(1) ins
    by (simp add: report_hit_def with_connection_def transaction_def report_hit_txn_def
        select_fp_update Let_def)
qed

section \<open>Deletion\<close>

lemma soft_delete_outcome_lemma:
  assumes ok: "db_ok db" and fp: "fp \<in> set (fingerprints db)"
  shows "soft_delete True (fp_id fp) now db =
    (if fp_status fp = Deleted then (Inr False, db)
     else (Inr True, update_fp (fp_id fp) (tombstone (fingerprints_sync_seq db) now)
            (db\<lparr>fingerprints_sync_seq := fingerprints_sync_seq db + 1\<rparr>)))"
proof -
  have "select_fp (fp_id fp) db = Some fp"
    using ok fp select_fp_Some_iff [of db "fp_id fp" fp] by (simp add: db_ok_def)
  then show ?thesis
    by (simp add: soft_delete_def with_connection_def transaction_def soft_delete_txn_def
        nextval_sync_def Let_def)
qed

section \<open>Contributions\<close>

definition live_contribution :: "contribution \<Rightarrow> db \<Rightarrow> fingerprint_row \<Rightarrow> bool" where
  "live_contribution c db r \<longleftrightarrow> r \<in> set (fingerprints db) \<and> fp_phash_hex r = con_phash_hex c
     \<and> fp_consumer_id r = con_consumer_id c \<and> fp_status r \<noteq> Deleted"

definition contribution_ok :: "contribution \<Rightarrow> db \<Rightarrow> bool" where
  "contribution_ok c db \<longleftrightarrow> list_all pg_text [con_phash_hex c, con_algorithm c,
       con_algorithm_version c, con_normalization_version c, con_category c, con_action c,
       con_provenance c]
     \<and> con_action c \<in> set VALID_ACTIONS \<and> con_category c \<in> set VALID_CATEGORIES
     \<and> con_consumer_id c \<in> cons_id ` set (consumers db)"

text \<open>The columns a row has after it was contributed.\<close>

definition contributed :: "contribution \<Rightarrow> int \<Rightarrow> fingerprint_row \<Rightarrow> bool" where
  "contributed c seq r \<longleftrightarrow> fp_phash_hex r = con_phash_hex c \<and> fp_consumer_id r = con_consumer_id c
     \<and> fp_algorithm r = con_algorithm c \<and> fp_algorithm_version r = con_algorithm_version c
     \<and> fp_normalization_version r = con_normalization_version c \<and> fp_category r = con_category c
     \<and> fp_action r = con_action c \<and> fp_auto_added r = con_auto_added c
     \<and> fp_provenance r = con_provenance c \<and> fp_added_at_ms r = con_now_ms c
     \<and> fp_updated_at_ms r = con_now_ms c \<and> fp_status r = Active \<and> fp_flag_count r = 0
     \<and> fp_sync_seq r = seq"

text \<open>The private columns hold the encryptions of the contribution's texts.\<close>

definition sealed_as :: "crypto \<Rightarrow> bytes \<times> bytes \<times> bytes \<Rightarrow> contribution \<Rightarrow> fingerprint_row \<Rightarrow> bool" where
  "sealed_as K nonces c r \<longleftrightarrow> encrypt_field K (fst nonces) (con_reason c) = Inr (fp_reason r)
     \<and> encrypt_field K (fst (snd nonces)) (con_source_url c) = Inr (fp_source_url r)
     \<and> encrypt_field K (snd (snd nonces)) (con_source_guild_id c) = Inr (fp_source_guild_id r)"

lemma same_hash_same_row:
  assumes "db_ok db" "r \<in> set (fingerprints db)" "s \<in> set (fingerprints db)"
    and "fp_phash_hex r = fp_phash_hex s" "fp_consumer_id r = fp_consumer_id s"
  shows "r = s"
proof -
  have "inj_on (\<lambda>r. (fp_phash_hex r, fp_consumer_id r)) (set (fingerprints db))"
    using assms(1) by (simp add: db_ok_def fingerprints_ok_def distinct_map)
  then show ?thesis using assms(2-) by (auto dest: inj_onD)
qed

lemma contribute_outcome_lemma:
  assumes ok: "db_ok db" and c: "contribution_ok c db"
    and ring: "cr_ring K = Inr ring" "keyring_ok ring"
  shows "\<exists>row created db'. contribute K True nonces c db = (Inr (Some row, created), db')
    \<and> (created \<longleftrightarrow> \<not> (\<exists>r. live_contribution c db r))
    \<and> (\<not> created \<longrightarrow> live_contribution c db row \<and> fingerprints db' = fingerprints db)
    \<and> (created \<longrightarrow> row \<in> set (fingerprints db') \<and> contributed c (fingerprints_sync_seq db) row
         \<and> sealed_as K nonces c row \<and> flaggers (fp_id row) db' = {})"
proof -
  obtain er where er: "encrypt_field K (fst nonces) (con_reason c) = Inr er" "pred_option pg_text er"
    using encrypt_field_usable [OF ring] by metis
  obtain eu where eu: "encrypt_field K (fst (snd nonces)) (con_source_url c) = Inr eu" "pred_option pg_text eu"
    using encrypt_field_usable [OF ring] by metis
  obtain eg where eg: "encrypt_field K (snd (snd nonces)) (con_source_guild_id c) = Inr eg" "pred_option pg_text eg"
    using encrypt_field_usable [OF ring] by metis
  have run: "contribute K True nonces c db = transaction False (contribute_txn c er eu eg) db"
    using er(1) eu(1) eg(1) by (simp add: contribute_def with_connection_def)
  have hexok: "pg_text (con_phash_hex c)" using c by (simp add: contribution_ok_def)
  show ?thesis
  proof (cases "select_fp_by_phash (con_phash_hex c) (con_consumer_id c) db")
    case None
    then have free: "\<not> live_contribution c db r" for r
      using select_fp_by_phash_None_iff [of "con_phash_hex c" "con_consumer_id c" db]
      by (force simp: live_contribution_def)
    let ?v = "new_row c er eu eg"
    let ?row = "?v\<lparr>fp_id := fingerprints_id_seq db, fp_sync_seq := fingerprints_sync_seq db\<rparr>"
    let ?db' = "db\<lparr>fingerprints_id_seq := fingerprints_id_seq db + 1,
        fingerprints_sync_seq := fingerprints_sync_seq db + 1, fingerprints := fingerprints db @ [?row]\<rparr>"
    have "insert_fp ?v db = (Inr (Some ?row), ?db')"
      using c None er(2) eu(2) eg(2) by (simp add: insert_fp_def new_row_def contribution_ok_def Let_def)
    then have "contribute K True nonces c db = (Inr (Some ?row, True), ?db')"
      using None hexok by (simp add: run transaction_def contribute_txn_def)
    moreover have "sealed_as K nonces c ?row"
      using er(1) eu(1) eg(1) by (simp add: sealed_as_def new_row_def)
    moreover have "contributed c (fingerprints_sync_seq db) ?row"
      by (simp add: contributed_def new_row_def)
    moreover have "flaggers (fp_id ?row) ?db' = {}"
    proof -
      have "count_flaggers (fp_id ?row) db = 0" using no_children(1) [OF ok] by simp
      then have "flaggers (fp_id ?row) db = {}" by (simp add: count_flaggers_card)
      then show ?thesis by (simp add: flaggers_def)
    qed
    ultimately show ?thesis using free by (intro exI [of _ ?row] exI [of _ True] exI [of _ ?db']) simp
  next
    case (Some ex)
    note found = select_fp_by_phash_SomeD [OF Some]
    have unique: "r = ex" if "r \<in> set (fingerprints db)" "fp_phash_hex r = con_phash_hex c"
      "fp_consumer_id r = con_consumer_id c" for r
      by (rule same_hash_same_row [OF ok that(1)]) (use that found in auto)
    show ?thesis
    proof (cases "fp_status ex = Deleted")
      case False
      then have "contribute K True nonces c db = (Inr (Some ex, False), db)"
        using Some hexok by (simp add: run transaction_def contribute_txn_def)
      then show ?thesis
        using found False
        by (intro exI [of _ ex] exI [of _ False] exI [of _ db]) (auto simp: live_contribution_def)
    next
      case True
      let ?f = "resurrect_row c er eu eg (fingerprints_sync_seq db)"
      let ?db' = "update_fp (fp_id ex) ?f
        ((delete_flags_of (fp_id ex) db)\<lparr>fingerprints_sync_seq := fingerprints_sync_seq db + 1\<rparr>)"
      have sel: "select_fp (fp_id ex) ?db' = Some (?f ex)"
      proof -
        have "select_fp (fp_id ex) db = Some ex"
          using ok found select_fp_Some_iff [of db "fp_id ex" ex] by (simp add: db_ok_def)
        then have "select_fp (fp_id ex) ((delete_flags_of (fp_id ex) db)
            \<lparr>fingerprints_sync_seq := fingerprints_sync_seq db + 1\<rparr>) = Some ex"
          by (simp add: select_fp_def)
        then show ?thesis by (simp add: select_fp_update)
      qed
      have "resurrect c er eu eg (fp_id ex) db = (Inr (Some (?f ex)), ?db')"
        using c er(2) eu(2) eg(2) sel
        by (simp add: resurrect_def contribution_ok_def nextval_sync_def Let_def)
      then have "contribute K True nonces c db = (Inr (Some (?f ex), True), ?db')"
        using Some hexok True by (simp add: run transaction_def contribute_txn_def)
      moreover have "sealed_as K nonces c (?f ex)"
        using er(1) eu(1) eg(1) by (simp add: sealed_as_def resurrect_row_def)
      moreover have "contributed c (fingerprints_sync_seq db) (?f ex)"
        using found by (simp add: contributed_def resurrect_row_def)
      moreover have "flaggers (fp_id (?f ex)) ?db' = {}"
        by (simp add: flaggers_def delete_flags_of_def)
      moreover have "?f ex \<in> set (fingerprints ?db')" using select_fp_SomeD [OF sel] by blast
      moreover have "\<not> live_contribution c db r" for r
        using unique [of r] True by (auto simp: live_contribution_def)
      ultimately show ?thesis
        by (intro exI [of _ "?f ex"] exI [of _ True] exI [of _ ?db']) simp
    qed
  qed
qed

end
