(* ===== verification/Hit_History.thy ===== *)
theory Hit_History
  imports Row_Lifecycle
begin

text \<open>
  What a row's hit count counts: every hit ever recorded for it, also those whose record the retention
  run has deleted since. The recorded hits are a function of the run: what each step adds to the table
  of hits under new ids.
\<close>

section \<open>Runs and the hits they record\<close>

text \<open>The records of hits on fingerprint \<open>i\<close> that a step from \<open>db\<close> to \<open>db'\<close> adds.\<close>

definition new_hits :: "int \<Rightarrow> db \<Rightarrow> db \<Rightarrow> int" where
  "new_hits i db db' = int (length (filter
     (\<lambda>h. hit_fingerprint_id h = i \<and> hits_id_seq db \<le> hit_id h) (fingerprint_hits db')))"

inductive hub_history :: "crypto \<Rightarrow> int \<Rightarrow> db \<Rightarrow> (int \<Rightarrow> int) \<Rightarrow> bool" for K threshold where
  start: "hub_history K threshold empty_db (\<lambda>_. 0)"
| step: "hub_history K threshold db recorded \<Longrightarrow> hub_step K threshold db db' \<Longrightarrow>
    hub_history K threshold db' (\<lambda>i. recorded i + new_hits i db db')"

lemma history_reachable: "hub_history K t db recorded \<Longrightarrow> hub_reachable K t db"
  by (induction rule: hub_history.induct) (auto intro: hub_reachable.intros)

lemma reachable_history: "hub_reachable K t db \<Longrightarrow> \<exists>recorded. hub_history K t db recorded"
  by (induction rule: hub_reachable.induct) (blast intro: hub_history.intros)+

section \<open>What a step does to hit counts\<close>

definition hits_move :: "db \<Rightarrow> db \<Rightarrow> bool" where
  "hits_move db db' \<longleftrightarrow> (\<forall>r' \<in> set (fingerprints db').
     (\<exists>r \<in> set (fingerprints db). fp_id r = fp_id r'
        \<and> fp_hit_count r' = fp_hit_count r + new_hits (fp_id r') db db')
     \<or> (fingerprints_id_seq db \<le> fp_id r' \<and> fp_hit_count r' = new_hits (fp_id r') db db'))"

text \<open>Steps that record no hit: they keep the counts of old rows and start new rows at zero.\<close>

definition no_hit :: "db \<Rightarrow> db \<Rightarrow> bool" where
  "no_hit db db' \<longleftrightarrow> set (fingerprint_hits db') \<subseteq> set (fingerprint_hits db)
     \<and> (\<forall>r' \<in> set (fingerprints db').
          (\<exists>r \<in> set (fingerprints db). fp_id r = fp_id r' \<and> fp_hit_count r' = fp_hit_count r)
          \<or> (fingerprints_id_seq db \<le> fp_id r' \<and> fp_hit_count r' = 0))"

lemma no_hit_refl [simp]: "no_hit db db"
  by (auto simp: no_hit_def)

lemma no_hit_same:
  "fingerprints db' = fingerprints db \<Longrightarrow> set (fingerprint_hits db') \<subseteq> set (fingerprint_hits db) \<Longrightarrow> no_hit db db'"
  by (auto simp: no_hit_def)

lemma no_hit_moves:
  assumes "db_ok db" "no_hit db db'"
  shows "hits_move db db'"
proof -
  have "new_hits i db db' = 0" for i
    using assms by (fastforce simp: new_hits_def no_hit_def db_ok_def hits_ok_def filter_empty_conv)
  then show ?thesis using assms(2) by (simp add: hits_move_def no_hit_def)
qed

lemma no_hit_connection:
  assumes "\<And>x. fst (body db) = Inr x \<Longrightarrow> no_hit db (snd (body db))"
  shows "no_hit db (snd (with_connection up (transaction fr body) db))"
  by (rule connection_inv [where P = "no_hit db"]) (use assms in \<open>auto simp: no_hit_def\<close>)

lemma no_hit_update:
  assumes "fingerprints db1 = fingerprints db" "set (fingerprint_hits db1) \<subseteq> set (fingerprint_hits db)"
    and "\<And>r. fp_id (f r) = fp_id r \<and> fp_hit_count (f r) = fp_hit_count r"
  shows "no_hit db (update_fp i f db1)"
  using assms(2) unfolding no_hit_def set_update_fp assms(1) by (auto simp: assms(3))

section \<open>The operations\<close>

lemma contribute_no_hit: "no_hit db (snd (contribute K up nonces c db))"
proof -
  have ins: "no_hit db db'" if "insert_fp (new_row c er eu eg) db = (Inr x, db')" for er eu eg x db'
    using that by (cases rule: insert_fp_cases) (auto simp: no_hit_def new_row_def)
  have res: "no_hit db db'" if "resurrect c er eu eg i db = (Inr x, db')" for er eu eg i x db'
    using that
    by (cases rule: resurrect_cases)
      (auto intro!: no_hit_update simp: delete_flags_of_def resurrect_row_def)
  have body: "no_hit db (snd (contribute_txn c er eu eg db))"
    if "fst (contribute_txn c er eu eg db) = Inr x" for er eu eg x
    using that ins res by (auto simp: contribute_txn_def split: if_splits prod.splits sum.splits option.splits)
  have "no_hit db (snd (with_connection up (transaction False (contribute_txn c er eu eg)) db))" for er eu eg
    by (rule no_hit_connection) (rule body)
  then show ?thesis by (auto simp: contribute_def split: sum.split)
qed

lemma insert_flag_hits: "insert_flag i cid er now db = (r, db') \<Longrightarrow> fingerprint_hits db' = fingerprint_hits db"
  by (erule insert_flag_cases) auto

lemma flag_no_hit:
  assumes ok: "db_ok db"
  shows "no_hit db (snd (flag K up nonce i cid reason now t db))"
  unfolding flag_def
proof (rule no_hit_connection)
  fix x assume "fst (flag_txn K nonce i cid reason now t db) = Inr x"
  then obtain db' where run: "flag_txn K nonce i cid reason now t db = (Inr x, db')" by (metis prod.collapse)
  then have "no_hit db db'"
  proof (cases rule: flag_txn_cases)
    case (hides fp er db1)
    show ?thesis
      unfolding hides(6)
      by (rule no_hit_update) (use insert_flag_ok(3) [OF ok hides(3)] insert_flag_hits [OF hides(3)] in auto)
  next
    case (counts fp er db1)
    show ?thesis
      unfolding counts(6)
      by (rule no_hit_update) (use insert_flag_ok(3) [OF ok counts(3)] insert_flag_hits [OF counts(3)] in auto)
  qed auto
  then show "no_hit db (snd (flag_txn K nonce i cid reason now t db))" using run by simp
qed

lemma soft_delete_no_hit: "no_hit db (snd (soft_delete up i now db))"
  unfolding soft_delete_def
proof (rule no_hit_connection)
  show "no_hit db (snd (soft_delete_txn i now db))"
    by (cases rule: soft_delete_txn_cases [of i now db]) (auto intro!: no_hit_update)
qed

lemma retention_no_hit: "no_hit db (snd (apply_retention up now p dry db))"
proof -
  have "no_hit db (snd (retention_txn now p db))"
  proof -
    have "set (fingerprint_hits (snd (retention_txn now p db))) \<subseteq> set (fingerprint_hits db)"
      by (auto simp: retention_txn_eq Let_def anonymize_tombstones_def purge_tombstones_def
          delete_fps_def clear_flag_reasons_def delete_hits_def)
    then show ?thesis by (auto simp: no_hit_def retention_txn_fingerprints anonymize_def)
  qed
  then have "no_hit db (snd (with_connection up (transaction dry (retention_txn now p)) db))"
    by (intro no_hit_connection)
  then show ?thesis by (simp add: apply_retention_def)
qed

lemma consumer_ops_no_hit:
  "no_hit db (snd (create_consumer up token name scopes now db))"
  "no_hit db (snd (touch_last_seen up cid now db))"
proof -
  have "no_hit db (snd (insert_consumer name h scopes now db))" for h
  proof -
    obtain r db' where run: "insert_consumer name h scopes now db = (r, db')" by fastforce
    then have "no_hit db db'" by (cases rule: insert_consumer_cases) (auto intro!: no_hit_same)
    then show ?thesis using run by simp
  qed
  then have "no_hit db (snd (with_connection up (transaction False (insert_consumer name h scopes now)) db))" for h
    by (intro no_hit_connection)
  then show "no_hit db (snd (create_consumer up token name scopes now db))"
    by (auto simp: create_consumer_def Let_def split: prod.split sum.split) (metis snd_conv)+
  show "no_hit db (snd (touch_last_seen up cid now db))"
    unfolding touch_last_seen_def
    by (intro no_hit_connection no_hit_same) (simp_all add: touch_last_seen_txn_def)
qed

text \<open>A reported hit is counted once, for its row, with one new record.\<close>

lemma report_hit_counts:
  assumes ok: "db_ok db"
  shows "hits_move db (snd (report_hit K up nonce i cid guild distance now db))"
  unfolding report_hit_def
proof (rule connection_inv [where P = "hits_move db"])
  show "hits_move db (rollback a b)" if "hits_move db a" for a b
    using that by (simp add: hits_move_def new_hits_def)
  show "hits_move db db" by (rule no_hit_moves [OF ok no_hit_refl])
  fix x assume "fst (report_hit_txn K nonce i cid guild distance now db) = Inr x"
  then obtain db' where run: "report_hit_txn K nonce i cid guild distance now db = (Inr x, db')"
    by (metis prod.collapse)
  then have "hits_move db db'"
  proof (cases rule: report_hit_txn_cases)
    case (recorded fp eg db1)
    from recorded(4) obtain h where h: "fingerprint_hits db1 = fingerprint_hits db @ [h]"
      "hit_id h = hits_id_seq db" "hit_fingerprint_id h = i"
      by (cases rule: insert_hit_cases) auto
    have old: "\<forall>h \<in> set (fingerprint_hits db). hit_id h < hits_id_seq db"
      using ok by (simp add: db_ok_def hits_ok_def)
    then have none: "filter (\<lambda>h. hit_fingerprint_id h = j \<and> hits_id_seq db \<le> hit_id h) (fingerprint_hits db) = []" for j
      by (auto simp: filter_empty_conv)
    have new: "new_hits j db db' = (if j = i then 1 else 0)" for j
      unfolding recorded(6) using h none by (simp add: new_hits_def)
    have rows: "fingerprints db1 = fingerprints db" by (rule insert_hit_ok(3) [OF ok recorded(4)])
    show ?thesis
      unfolding hits_move_def new
      unfolding recorded(6) set_update_fp rows by auto
  qed (use no_hit_moves [OF ok no_hit_refl] in auto)
  then show "hits_move db (snd (report_hit_txn K nonce i cid guild distance now db))" using run by simp
qed

lemma hub_step_hits:
  assumes "hub_step K t db db'" "db_ok db"
  shows "hits_move db db'"
  using assms(1)
  by (cases rule: hub_step.cases)
    (auto intro: no_hit_moves [OF assms(2)] contribute_no_hit flag_no_hit [OF assms(2)] soft_delete_no_hit
      retention_no_hit consumer_ops_no_hit report_hit_counts [OF assms(2)])

section \<open>The count is the history\<close>

lemma history_counts:
  assumes "hub_history K t db recorded" "1 \<le> t"
  shows "(\<forall>r \<in> set (fingerprints db). fp_hit_count r = recorded (fp_id r))
    \<and> (\<forall>i. fingerprints_id_seq db \<le> i \<longrightarrow> recorded i = 0)"
  using assms(1)
proof (induction rule: hub_history.induct)
  case start
  then show ?case by (simp add: empty_db_def)
next
  case (step db recorded db')
  have ok: "db_ok db" using reachable_inv [OF history_reachable [OF step.hyps(1)] assms(2)] by (simp add: hub_inv_def)
  have ok': "db_ok db'" by (rule hub_step_ok [OF step.hyps(2) ok])
  have seq: "fingerprints_id_seq db \<le> fingerprints_id_seq db'"
    using hub_step_seqs [OF step.hyps(2) ok] by (simp add: seqs_le_def)
  have fresh: "new_hits i db db' = 0" if "fingerprints_id_seq db' \<le> i" for i
    using ok' that
    by (fastforce simp: new_hits_def db_ok_def hits_ok_def fingerprints_ok_def filter_empty_conv)
  have "fp_hit_count r' = recorded (fp_id r') + new_hits (fp_id r') db db'" if "r' \<in> set (fingerprints db')" for r'
    using hub_step_hits [OF step.hyps(2) ok] that step.IH unfolding hits_move_def by fastforce
  then show ?case using step.IH fresh seq by fastforce
qed

end
