(* ===== verification/Hub_Properties.thy ===== *)
theory Hub_Properties
  imports Samples Store_Outcomes Hit_History
begin

text \<open>
  The properties of the store as a whole and of the sync protocol: the invariant of the reachable
  states, what one operation may change, and what a syncing client may rely on.
\<close>

section \<open>Sample states\<close>

text \<open>The flag of a second consumer that hides the row of the sample database.\<close>

definition flagged_once :: db where
  "flagged_once = snd (flag sample_crypto True sample_nonce 1 2 None 20 2 sample_db)"

definition flagged_twice :: db where
  "flagged_twice = snd (flag sample_crypto True sample_nonce 1 3 None 30 2 flagged_once)"

lemma flagged_once_eval:
  "flagged_once = sample_db\<lparr>fingerprints := [sample_row\<lparr>fp_flag_count := 1, fp_updated_at_ms := 20\<rparr>],
     fingerprint_flags := [\<lparr>flag_id = 1, flag_fingerprint_id = 1, flag_consumer_id = 2,
       flag_reason = None, flag_created_at_ms = 20\<rparr>], flags_id_seq := 2\<rparr>"
  by (simp add: flagged_once_def flag_def with_connection_def transaction_def flag_txn_def
      select_fp_def sample_db_def sample_row_def insert_flag_def sample_consumer_def Let_def
      count_flaggers_def update_fp_def)

lemma flagged_twice_eval:
  "flagged_twice = flagged_once\<lparr>fingerprints := [sample_row\<lparr>fp_status := Hidden, fp_flag_count := 2,
       fp_sync_seq := 2, fp_updated_at_ms := 30\<rparr>],
     fingerprint_flags := fingerprint_flags flagged_once @ [\<lparr>flag_id = 2, flag_fingerprint_id = 1,
       flag_consumer_id = 3, flag_reason = None, flag_created_at_ms = 30\<rparr>],
     flags_id_seq := 3, fingerprints_sync_seq := 3\<rparr>"
  by (simp add: flagged_twice_def flagged_once_eval flag_def with_connection_def transaction_def
      flag_txn_def select_fp_def sample_db_def sample_row_def insert_flag_def sample_consumer_def
      Let_def count_flaggers_def update_fp_def nextval_sync_def)

section \<open>The hub\<close>

text \<open>C1: every state the hub can reach from the empty database, by any sequence of store operations with any arguments and outcomes, satisfies the declared constraints, counts each row's distinct flaggers exactly, has no active row at the auto-hide threshold, and stores private text only as encrypted envelopes. Each row's hit count is the number of hit records that the run has ever added for it, those that retention has deleted since included, so no hit is counted twice, without a record, or not at all.\<close>

theorem hub_invariant:
  assumes "hub_history K threshold db recorded" "1 \<le> threshold"
  shows "hub_inv threshold db \<and> (\<forall>r \<in> set (fingerprints db). fp_hit_count r = recorded (fp_id r))"
  using reachable_inv [OF history_reachable [OF assms(1)] assms(2)] history_counts [OF assms] by blast

lemma hub_invariant_witness:
  "\<exists>recorded. hub_history sample_crypto 2 hub_day3 recorded \<and> hub_inv 2 hub_day3"
proof -
  obtain recorded where "hub_history sample_crypto 2 hub_day3 recorded"
    using reachable_history [OF hub_days_reachable(3)] by blast
  from hub_invariant [OF this] this show ?thesis by auto
qed

text \<open>C2: a step of the hub never moves the cursor sequence back, and gives every row whose peer-visible columns are new or changed a sync cursor that no earlier row had.\<close>

theorem content_change_fresh_cursor:
  assumes "hub_step K threshold db db'" "db_ok db"
  shows "fingerprints_sync_seq db \<le> fingerprints_sync_seq db'
    \<and> (\<forall>r' \<in> set (fingerprints db'). feed_entry r' \<in> feed_entry ` set (fingerprints db)
         \<or> fingerprints_sync_seq db \<le> fp_sync_seq r')"
  using assms
proof (cases rule: hub_step_advances)
  case advances
  then show ?thesis unfolding advances_def by blast
next
  case (retention up now p dry)
  show ?thesis using retention_feed(1,2) [OF retention] by auto
qed

lemma content_change_fresh_cursor_witness:
  "fingerprints_sync_seq flagged_once \<le> fp_sync_seq (hd (fingerprints flagged_twice))"
proof -
  have step: "hub_step sample_crypto 2 flagged_once flagged_twice"
    unfolding flagged_twice_def by (rule hub_step.flags)
  have ok: "db_ok flagged_once" unfolding flagged_once_def by (rule flag_op.step_ok [OF sample_db_ok])
  have "hd (fingerprints flagged_twice) \<in> set (fingerprints flagged_twice)"
    and "feed_entry (hd (fingerprints flagged_twice)) \<notin> feed_entry ` set (fingerprints flagged_once)"
    by (simp_all add: flagged_once_eval flagged_twice_eval sample_db_def sample_row_def feed_entry_def
        sync_columns_def)
  then show ?thesis using content_change_fresh_cursor [OF step ok] by blast
qed

text \<open>C8: the life of a row: a step of the hub never changes a row's hash or owner and never lowers its hit count; its status only moves from active to hidden, from active or hidden to deleted, or from deleted to active, and every move takes a later sync cursor.\<close>

theorem row_lifecycle:
  assumes "hub_step K threshold db db'" "db_ok db" "r \<in> set (fingerprints db)"
    "r' \<in> set (fingerprints db')" "fp_id r' = fp_id r"
  shows "fp_phash_hex r' = fp_phash_hex r \<and> fp_consumer_id r' = fp_consumer_id r
    \<and> fp_hit_count r \<le> fp_hit_count r'
    \<and> (fp_status r' \<noteq> fp_status r \<longrightarrow>
         (fp_status r, fp_status r') \<in> {(Active, Hidden), (Active, Deleted), (Hidden, Deleted), (Deleted, Active)}
         \<and> fp_sync_seq r < fp_sync_seq r')"
proof -
  have "row_moves r r'" using hub_step_moves [OF assms(1,2)] assms(3-5) by (simp add: rows_move_def)
  then show ?thesis unfolding row_moves_def by (cases "fp_status r") auto
qed

lemma row_lifecycle_witness:
  "let r = hd (fingerprints flagged_once); r' = hd (fingerprints flagged_twice)
   in (fp_status r, fp_status r') = (Active, Hidden)
     \<and> fp_phash_hex r' = fp_phash_hex r \<and> fp_sync_seq r < fp_sync_seq r'"
proof -
  have step: "hub_step sample_crypto 2 flagged_once flagged_twice"
    unfolding flagged_twice_def by (rule hub_step.flags)
  have ok: "db_ok flagged_once" unfolding flagged_once_def by (rule flag_op.step_ok [OF sample_db_ok])
  have "hd (fingerprints flagged_once) \<in> set (fingerprints flagged_once)"
    and "hd (fingerprints flagged_twice) \<in> set (fingerprints flagged_twice)"
    and ids: "fp_id (hd (fingerprints flagged_twice)) = fp_id (hd (fingerprints flagged_once))"
    and st: "fp_status (hd (fingerprints flagged_once)) = Active"
      "fp_status (hd (fingerprints flagged_twice)) = Hidden"
    by (simp_all add: flagged_once_eval flagged_twice_eval sample_db_def sample_row_def)
  from row_lifecycle [OF step ok this(1,2) ids] st show ?thesis by (simp add: Let_def)
qed

text \<open>C15: contributing, when the database answers, the keyring is usable and the columns are valid: the hash is stored as a new active row of the contributor, with no flags and a fresh cursor, exactly when the contributor has no row for it that is not deleted; otherwise that row is returned and nothing changes.\<close>

theorem contribute_outcome:
  assumes "db_ok db" "contribution_ok c db" "cr_ring K = Inr ring" "keyring_ok ring"
  shows "\<exists>row created db'. contribute K True nonces c db = (Inr (Some row, created), db')
    \<and> (created \<longleftrightarrow> \<not> (\<exists>r. live_contribution c db r))
    \<and> (\<not> created \<longrightarrow> live_contribution c db row \<and> fingerprints db' = fingerprints db)
    \<and> (created \<longrightarrow> row \<in> set (fingerprints db') \<and> contributed c (fingerprints_sync_seq db) row
         \<and> sealed_as K nonces c row \<and> flaggers (fp_id row) db' = {})"
  by (rule contribute_outcome_lemma [OF assms])

lemma sample_contribution_ok: "contribution_ok (sample_contribution 2) sample_db"
  by (simp add: contribution_ok_def sample_contribution_def sample_db_def sample_consumer_def
      VALID_ACTIONS_def VALID_CATEGORIES_def sql_simps)

lemma contribute_outcome_witness:
  "\<exists>row db'. contribute sample_crypto True ([], [], []) (sample_contribution 2) sample_db
      = (Inr (Some row, True), db') \<and> contributed (sample_contribution 2) 2 row"
proof -
  have "\<not> live_contribution (sample_contribution 2) sample_db r" for r
    by (auto simp: live_contribution_def sample_contribution_def sample_db_def sample_row_def)
  moreover have "fingerprints_sync_seq sample_db = 2" by (simp add: sample_db_def)
  ultimately show ?thesis
    using contribute_outcome [OF sample_db_ok sample_contribution_ok, of sample_crypto sample_ring "([], [], [])"]
      sample_ring_ok by (fastforce simp: sample_crypto_def)
qed

text \<open>C14: flagging a row that is not deleted, by an existing consumer, when the database answers and the keyring is usable: the result and the stored row carry the number of distinct consumers that flagged it, a second flag of the same consumer counting once; the row is hidden, with a fresh cursor, exactly when it was active and that number has reached the threshold.\<close>

theorem flag_outcome:
  assumes "db_ok db" "fp \<in> set (fingerprints db)" "fp_status fp \<noteq> Deleted"
    "cid \<in> cons_id ` set (consumers db)" "cr_ring K = Inr ring" "keyring_ok ring"
  shows "\<exists>db'. flag K True nonce (fp_id fp) cid reason now threshold db
      = (Inr (Some \<lparr>fr_flag_count = int (card (insert cid (flaggers (fp_id fp) db))),
                    fr_status = (if flag_hides threshold cid fp db then Hidden else fp_status fp),
                    fr_hidden = flag_hides threshold cid fp db\<rparr>), db')
    \<and> select_fp (fp_id fp) db' = Some (fp\<lparr>
          fp_status := (if flag_hides threshold cid fp db then Hidden else fp_status fp),
          fp_flag_count := int (card (insert cid (flaggers (fp_id fp) db))),
          fp_sync_seq := (if flag_hides threshold cid fp db then fingerprints_sync_seq db
            else fp_sync_seq fp),
          fp_updated_at_ms := now\<rparr>)
    \<and> flaggers (fp_id fp) db' = insert cid (flaggers (fp_id fp) db)"
  by (rule flag_outcome_lemma [OF assms])

lemma flag_outcome_witness:
  "\<exists>db'. flag sample_crypto True [] 1 2 None 20 1 sample_db
      = (Inr (Some \<lparr>fr_flag_count = 1, fr_status = Hidden, fr_hidden = True\<rparr>), db')"
proof -
  have fp: "sample_row \<in> set (fingerprints sample_db)" "fp_id sample_row = 1"
    "fp_status sample_row = Active" "2 \<in> cons_id ` set (consumers sample_db)"
    by (simp_all add: sample_db_def sample_row_def sample_consumer_def)
  have none: "flaggers 1 sample_db = {}" by (simp add: flaggers_def sample_db_def)
  have "flag_hides 1 2 sample_row sample_db" by (simp add: flag_hides_def fp none)
  then show ?thesis
    using flag_outcome [OF sample_db_ok fp(1), of 2 sample_crypto sample_ring "[]" None 20 1] fp none
      sample_ring_ok by (auto simp: sample_crypto_def)
qed

text \<open>C18: reporting a hit on a row that is not deleted, when the database answers, the keyring is usable, the consumer exists and the distance is absent or fits its column: the call returns the row's hit count plus one and stores it with the time, exactly one hit record is added, for that row and consumer, with the distance, the time and the guild encrypted, no other row changes, and the sync feed of every peer stays as it was.\<close>

theorem report_hit_outcome:
  assumes "db_ok db" "fp \<in> set (fingerprints db)" "fp_status fp \<noteq> Deleted"
    "cid \<in> cons_id ` set (consumers db)" "pred_option pg_integer distance"
    "cr_ring K = Inr ring" "keyring_ok ring"
  shows "\<exists>db' h. report_hit K True nonce (fp_id fp) cid guild distance now db
      = (Inr (Some (fp_hit_count fp + 1)), db')
    \<and> select_fp (fp_id fp) db'
        = Some (fp\<lparr>fp_hit_count := fp_hit_count fp + 1, fp_last_hit_at_ms := Some now\<rparr>)
    \<and> fingerprint_hits db' = fingerprint_hits db @ [h] \<and> hit_fingerprint_id h = fp_id fp
    \<and> hit_consumer_id h = cid \<and> hit_distance h = distance \<and> hit_at_ms h = now
    \<and> encrypt_field K nonce guild = Inr (hit_guild_id h)
    \<and> (\<forall>j. j = fp_id fp \<or> select_fp j db' = select_fp j db) \<and> feed db' = feed db"
proof -
  note feed = report_hit_op.stats_feed [OF assms(1), of K True nonce "fp_id fp" cid guild distance now]
  show ?thesis
    using report_hit_outcome_lemma [OF assms(1-3), of cid distance K ring nonce guild now] assms(4-) feed
    by fastforce
qed

lemma report_hit_outcome_witness:
  "\<exists>db'. report_hit sample_crypto True [] 1 2 None (Some 4) 30 sample_db = (Inr (Some 1), db')
    \<and> feed db' = feed sample_db"
proof -
  have fp: "sample_row \<in> set (fingerprints sample_db)" "fp_id sample_row = 1"
    "fp_status sample_row \<noteq> Deleted" "2 \<in> cons_id ` set (consumers sample_db)"
    "fp_hit_count sample_row = 0" "pred_option pg_integer (Some 4)"
    by (simp_all add: sample_db_def sample_row_def sample_consumer_def pg_integer_def)
  show ?thesis
    using report_hit_outcome [OF sample_db_ok fp(1,3,4,6), of sample_crypto sample_ring "[]" None 30]
      fp sample_ring_ok by (auto simp: sample_crypto_def)
qed

end
