(* ===== verification/Concurrency.thy ===== *)
theory Concurrency
  imports Store_Outcomes
begin

text \<open>
  Two contributions at the same time. A transaction takes its sync cursor from the sequence when its
  INSERT or UPDATE runs and becomes visible when it commits; between the two, other transactions can
  take later cursors and commit first. The model splits a contribution into these two moments.
\<close>

text \<open>
  The statements of a contribution that stores a new row: the row it will commit, and the database
  as others see it meanwhile, with the tables unchanged and the sequences advanced.
\<close>

definition begin_contribute ::
  "contribution \<Rightarrow> string option \<Rightarrow> string option \<Rightarrow> string option \<Rightarrow> db
   \<Rightarrow> fingerprint_row option \<times> db"
where
  "begin_contribute c enc_reason enc_source_url enc_guild db =
     (case contribute_txn c enc_reason enc_source_url enc_guild db of
        (Inr (row, created), after) \<Rightarrow> (if created then row else None, rollback db after)
      | (Inl e, after) \<Rightarrow> (None, rollback db after))"

text \<open>The commit makes the new row visible.\<close>

definition commit_insert :: "fingerprint_row \<Rightarrow> db \<Rightarrow> db" where
  "commit_insert row db = db\<lparr>fingerprints := fingerprints db @ [row]\<rparr>"

text \<open>Without anything in between, the two moments are the operation.\<close>

lemma begin_commit_is_contribute:
  assumes "select_fp_by_phash (con_phash_hex c) (con_consumer_id c) db = None"
    and "begin_contribute c er eu eg db = (Some row, db1)"
  shows "transaction False (contribute_txn c er eu eg) db = (Inr (Some row, True), commit_insert row db1)"
proof -
  obtain r after where run: "contribute_txn c er eu eg db = (r, after)" by fastforce
  then have r: "r = Inr (Some row, True)" "db1 = rollback db after"
    using assms(2) by (auto simp: begin_contribute_def split: sum.splits if_splits)
  obtain r0 db0 where ins: "insert_fp (new_row c er eu eg) db = (r0, db0)" by fastforce
  have "r0 = Inr (Some row)" "db0 = after"
    using run r(1) assms(1) ins
    by (auto simp: contribute_txn_def split: if_splits sum.splits option.splits)
  then have "after = commit_insert row (rollback db after)"
    using ins by (auto elim!: insert_fp_cases simp: commit_insert_def rollback_def)
  then show ?thesis using run r by (simp add: transaction_def)
qed

text \<open>A page holds rows of the database with cursors after the one it was asked for.\<close>

lemma sync_rows_above:
  assumes "sync up q since limit a v n db = Inr (rows, nxt, m)" "x \<in> set rows"
  shows "\<exists>r \<in> set (fingerprints db). x = sync_columns r \<and> since < fp_sync_seq r"
proof -
  let ?sel = "filter (sync_where q since a v n) (fingerprints db)"
  have "rows = slice_to (map sync_columns (take (nat (limit + 1)) (sort_key fp_sync_seq ?sel))) limit"
    using assms(1) by (auto simp: sync_def Let_def split: if_splits)
  moreover have "set (slice_to xs k) \<subseteq> set xs" for xs :: "sync_row list" and k
    by (auto simp: slice_to_def dest: in_set_takeD)
  moreover have "set (map sync_columns (take k (sort_key fp_sync_seq ?sel))) \<subseteq> sync_columns ` set ?sel" for k
    by (auto dest: in_set_takeD)
  ultimately have "set rows \<subseteq> sync_columns ` set ?sel" by blast
  then show ?thesis using assms(2) by (force simp: sync_where_def)
qed

text \<open>What a successful contribution created: its cursor, its owner, and no id but its own is new.\<close>

lemma created_row:
  assumes ok: "db_ok db" and run: "contribute K up nonces c db = (Inr (Some row, True), db')"
  shows "row \<in> set (fingerprints db') \<and> fp_sync_seq row = fingerprints_sync_seq db
    \<and> fp_consumer_id row = con_consumer_id c
    \<and> fp_id ` set (fingerprints db') \<subseteq> insert (fingerprints_id_seq db) (fp_id ` set (fingerprints db))"
proof -
  obtain er eu eg where txn: "contribute_txn c er eu eg db = (Inr (Some row, True), db')"
    using run by (auto simp: contribute_def with_connection_def transaction_def Let_def case_prod_unfold
        split: sum.splits if_splits) (metis is_ok.simps(1) prod.collapse)
  show ?thesis
  proof (cases "select_fp_by_phash (con_phash_hex c) (con_consumer_id c) db")
    case None
    then have "insert_fp (new_row c er eu eg) db = (Inr (Some row), db')"
      using txn by (auto simp: contribute_txn_def split: if_splits prod.splits sum.splits option.splits)
    then show ?thesis by (cases rule: insert_fp_cases) (auto simp: new_row_def)
  next
    case (Some ex)
    then have res: "resurrect c er eu eg (fp_id ex) db = (Inr (Some row), db')"
      using txn by (auto simp: contribute_txn_def split: if_splits prod.splits sum.splits)
    note ex = select_fp_by_phash_SomeD [OF Some]
    let ?f = "resurrect_row c er eu eg (fingerprints_sync_seq db)"
    have sel: "select_fp (fp_id ex) db = Some ex"
      using ok ex select_fp_Some_iff [of db "fp_id ex" ex] by (simp add: db_ok_def)
    from res show ?thesis
    proof (cases rule: resurrect_cases)
      case resurrected
      have "select_fp (fp_id ex) db' = Some (?f ex)"
        unfolding resurrected(2) using sel
        by (simp add: select_fp_update
            select_fp_cong [of "(delete_flags_of (fp_id ex) db)\<lparr>fingerprints_sync_seq := fingerprints_sync_seq db + 1\<rparr>" db])
      then have row: "row = ?f ex" and inn: "row \<in> set (fingerprints db')"
        using resurrected(1) select_fp_SomeD by (simp, metis option.inject sum.inject(2))
      have "fp_id ` set (fingerprints db') = fp_id ` set (fingerprints db)"
        unfolding resurrected(2) by (simp add: fp_ids_update)
      then show ?thesis using row inn ex by (auto simp: resurrect_row_def)
    qed auto
  qed
qed

text \<open>The row a contribution will insert has its id and cursor before anyone else sees it.\<close>

lemma begun_row:
  assumes new: "select_fp_by_phash (con_phash_hex c) (con_consumer_id c) db = None"
    and b: "begin_contribute c er eu eg db = (Some row, db1)"
  shows "fp_id row = fingerprints_id_seq db" and "fp_sync_seq row = fingerprints_sync_seq db"
    and "fingerprints db1 = fingerprints db"
    and "fingerprints_id_seq db1 = fingerprints_id_seq db + 1"
    and "fingerprints_sync_seq db1 = fingerprints_sync_seq db + 1"
    and "fp_consumer_id row = con_consumer_id c" and "db1 = rollback db db1"
proof -
  obtain r after where run: "contribute_txn c er eu eg db = (r, after)" by fastforce
  then have r: "r = Inr (Some row, True)" "db1 = rollback db after"
    using b by (auto simp: begin_contribute_def split: sum.splits if_splits)
  then have "insert_fp (new_row c er eu eg) db = (Inr (Some row), after)"
    using new run by (auto simp: contribute_txn_def split: if_splits prod.splits sum.splits option.splits)
  then have "row = (new_row c er eu eg)\<lparr>fp_id := fingerprints_id_seq db, fp_sync_seq := fingerprints_sync_seq db\<rparr>"
    and "after = db\<lparr>fingerprints_id_seq := fingerprints_id_seq db + 1,
        fingerprints_sync_seq := fingerprints_sync_seq db + 1, fingerprints := fingerprints db @ [row]\<rparr>"
    by (auto elim: insert_fp_cases)
  then show "fp_id row = fingerprints_id_seq db" and "fp_sync_seq row = fingerprints_sync_seq db"
    and "fingerprints db1 = fingerprints db"
    and "fingerprints_id_seq db1 = fingerprints_id_seq db + 1"
    and "fingerprints_sync_seq db1 = fingerprints_sync_seq db + 1"
    and "fp_consumer_id row = con_consumer_id c" and "db1 = rollback db db1"
    using r(2) by (simp_all add: new_row_def rollback_def)
qed

lemma begun_ok:
  assumes ok: "db_ok db" and b: "begin_contribute c er eu eg db = (x, db1)"
  shows "db_ok db1"
proof -
  obtain r after where run: "contribute_txn c er eu eg db = (r, after)" by fastforce
  then have "db1 = rollback db after"
    using b by (auto simp: begin_contribute_def split: sum.splits)
  then show ?thesis
    using contribute_txn_ok [of c er eu eg] ok run by (simp add: body_ok_def db_ok_rollback)
       (metis db_ok_rollback snd_conv)
qed

end
