(* ===== verification/Sync_Properties.thy ===== *)
theory Sync_Properties
  imports Samples Concurrency
begin

text \<open>
  The properties of the sync protocol: what one page holds, that a client's replica is exact up to
  its cursor and complete after the last page, and two cases in which a client misses a change: a
  row that commits late, and a row that leaves the client's filter.
\<close>

section \<open>Pages\<close>

text \<open>C12: a sync page holds exactly the rows of other consumers that match the filters and have a cursor above the requested one and up to the returned one, in strictly increasing cursor order and at most as many as the limit; has_more is true exactly when a matching row above the returned cursor is left.\<close>

theorem sync_page_exact:
  assumes "db_ok db" "sync_request_ok limit (a, v, n)"
    "sync True q since limit a v n db = Inr (rows, nxt, has_more)"
  shows "set rows = sync_columns ` {r \<in> set (fingerprints db). in_feed q (a, v, n) r
          \<and> since < fp_sync_seq r \<and> fp_sync_seq r \<le> nxt}
    \<and> sorted_wrt (<) (map sy_sync_seq rows) \<and> int (length rows) \<le> limit
    \<and> (has_more \<longleftrightarrow> (\<exists>r \<in> set (fingerprints db). in_feed q (a, v, n) r \<and> nxt < fp_sync_seq r))
    \<and> nxt = (if rows = [] then since else sy_sync_seq (last rows))"
proof -
  have v: "db_ok db \<and> sync_request_ok limit (a, v, n)" using assms(1,2) by simp
  have p: "sync_page q limit (a, v, n) db since = (rows, nxt, has_more)"
    using assms(3) sync_Inr [OF assms(2)] by simp
  obtain rest where
    rest: "sorted_wrt (<) (map sy_sync_seq (rows @ rest))"
    "set (rows @ rest) = {r \<in> set (feed_rows q (a, v, n) db). since < sy_sync_seq r}"
    "has_more \<longleftrightarrow> rest \<noteq> []" "has_more \<longrightarrow> rows \<noteq> []"
    "nxt = (if rows = [] then since else sy_sync_seq (last rows))"
    by (rule hub_feed.page_parts [OF v p])
  have set_rows: "set rows = sync_columns ` {r \<in> set (fingerprints db). in_feed q (a, v, n) r
          \<and> since < fp_sync_seq r \<and> fp_sync_seq r \<le> nxt}"
    unfolding hub_feed.page_set [OF v p] by (auto simp: feed_rows_def)
  have len: "int (length rows) \<le> limit"
    using sync_page_length [OF assms(3)] assms(2) by (simp add: sync_request_ok_def)
  have "has_more \<longleftrightarrow> (\<exists>r \<in> set (feed_rows q (a, v, n) db). nxt < sy_sync_seq r)"
  proof
    assume hm: has_more
    then obtain s where s: "s \<in> set rest" using rest(3) by fastforce
    have "last rows \<in> set rows" using hm rest(4) by simp
    then have "nxt < sy_sync_seq s" using s rest(1,5) hm rest(4) by (auto simp: sorted_wrt_append)
    then show "\<exists>r \<in> set (feed_rows q (a, v, n) db). nxt < sy_sync_seq r" using s rest(2) by auto
  next
    assume "\<exists>r \<in> set (feed_rows q (a, v, n) db). nxt < sy_sync_seq r"
    then obtain s where s: "s \<in> set (feed_rows q (a, v, n) db)" "nxt < sy_sync_seq s" by blast
    show has_more
    proof (rule ccontr)
      assume "\<not> has_more"
      then have "sy_sync_seq s \<le> nxt" using hub_feed.page_last [OF v _ s(1)] p by simp
      then show False using s(2) by simp
    qed
  qed
  then have hm: "has_more \<longleftrightarrow> (\<exists>r \<in> set (fingerprints db). in_feed q (a, v, n) r \<and> nxt < fp_sync_seq r)"
    by (auto simp: feed_rows_def)
  have "sorted_wrt (<) (map sy_sync_seq rows)" using rest(1) by (simp add: sorted_wrt_append)
  with set_rows len hm rest(5) show ?thesis by blast
qed

lemma sample_request_ok: "sync_request_ok 10 no_filter"
  by (simp add: sync_request_ok_def filter_text_ok_def pg_row_count_def)

lemma sample_page:
  "sync True 2 0 10 None None None sample_db = Inr ([sync_columns sample_row], 1, False)"
  by (simp add: sync_def sample_db_def sample_row_def sync_where_def matches_def filter_text_ok_def
      pg_row_count_def)

lemma sync_page_exact_witness:
  "set [sync_columns sample_row] = sync_columns ` {r \<in> set (fingerprints sample_db). in_feed 2 no_filter r
     \<and> 0 < fp_sync_seq r \<and> fp_sync_seq r \<le> 1}"
  using sync_page_exact [OF sample_db_ok sample_request_ok sample_page] by blast

section \<open>Replicas\<close>

text \<open>C3: a client without filters that applies the pages it pulls, with the hub's operations running in any order between its pulls and no tombstone purged before the client passed it, holds at every moment exactly the active version of every peer row at or below its cursor, and no row the hub does not have.\<close>

theorem replica_exact:
  assumes "session_reachable K threshold q limit s" "1 \<le> threshold" "sync_request_ok limit no_filter"
  shows "(\<forall>r \<in> set (fingerprints (se_db s)). fp_consumer_id r \<noteq> q \<longrightarrow> fp_sync_seq r \<le> se_cursor s
      \<longrightarrow> se_replica s (fp_id r) = (if fp_status r = Active then Some (sync_columns r) else None))
    \<and> (\<forall>i. se_replica s i \<noteq> None
        \<longrightarrow> (\<exists>r \<in> set (fingerprints (se_db s)). fp_id r = i \<and> fp_consumer_id r \<noteq> q))"
proof -
  let ?peers = "filter (\<lambda>r. fp_consumer_id r \<noteq> q) (fingerprints (se_db s))"
  have rows: "feed_rows q no_filter (se_db s) = map sync_columns ?peers"
    unfolding feed_rows_def by (intro arg_cong2 [where f = map] filter_cong) (simp_all add: in_feed_def matches_def)
  have c: "consistent (map sync_columns ?peers) (se_cursor s) (se_replica s)"
    using session_reachable_inv [OF assms] rows by (simp add: session_inv_def)
  have ids: "sy_id ` set (map sync_columns ?peers) = fp_id ` set ?peers" by (simp add: image_image)
  have "\<exists>r \<in> set ?peers. fp_id r = i" if "se_replica s i \<noteq> None" for i
    using c that ids unfolding consistent_def by (metis (no_types, lifting) imageE)
  then show ?thesis using c by (auto simp: consistent_def live_view_def)
qed

definition sample_session :: session where
  "sample_session = \<lparr>se_db = hub_day2, se_cursor = 1,
     se_replica = apply_page (map sync_columns (fingerprints hub_day2)) Map.empty\<rparr>"

lemma sample_session_reachable: "session_reachable sample_crypto 2 2 10 sample_session"
proof -
  obtain r where r: "fingerprints hub_day2 = [r]" "fp_id r = 1" "fp_sync_seq r = 1"
    "fp_status r = Active" "fp_consumer_id r = 1" by (rule hub_day2_row)
  let ?s = "\<lparr>se_db = hub_day2, se_cursor = 0, se_replica = Map.empty\<rparr>"
  have "sync True 2 0 10 None None None hub_day2 = Inr ([sync_columns r], 1, False)"
    by (simp add: sync_def r sync_where_def matches_def filter_text_ok_def pg_row_count_def)
  then have "session_step sample_crypto 2 2 10 ?s
      (?s\<lparr>se_cursor := 1, se_replica := apply_page [sync_columns r] Map.empty\<rparr>)"
    using session_step.pull [of 2 ?s 10 "[sync_columns r]" 1 False] by simp
  then have "session_step sample_crypto 2 2 10 ?s sample_session"
    by (simp add: sample_session_def r(1))
  with session_reachable.opens [OF hub_days_reachable(2)] show ?thesis by (rule session_reachable.steps)
qed

lemma replica_exact_witness: "\<exists>row. se_replica sample_session 1 = Some row \<and> sy_status row = Active"
proof -
  obtain r where r: "fingerprints hub_day2 = [r]" "fp_id r = 1" "fp_sync_seq r = 1"
    "fp_status r = Active" "fp_consumer_id r = 1" by (rule hub_day2_row)
  show ?thesis
    using replica_exact [OF sample_session_reachable _ sample_request_ok] r
    by (simp add: sample_session_def)
qed

text \<open>C11: when the hub pauses, the client's loop over pages ends and leaves the client with exactly the hub's active peer rows; as many rounds as the hub has rows, plus one, are enough.\<close>

theorem replica_catches_up:
  assumes "session_reachable K threshold q limit s" "1 \<le> threshold" "sync_request_ok limit no_filter"
    "length (fingerprints (se_db s)) < fuel"
  shows "\<exists>w. sync_loop (sync_page q limit no_filter (se_db s)) fuel (se_cursor s) (se_replica s)
    = Some (w, catalogue (feed_rows q no_filter (se_db s)))"
  by (rule session_catches_up [OF assms])

lemma replica_catches_up_witness:
  "\<exists>w m. sync_loop (sync_page 2 10 no_filter hub_day2) 2 1 (se_replica sample_session) = Some (w, m)
    \<and> m 1 \<noteq> None"
proof -
  obtain r where r: "fingerprints hub_day2 = [r]" "fp_id r = 1" "fp_sync_seq r = 1"
    "fp_status r = Active" "fp_consumer_id r = 1" by (rule hub_day2_row)
  have "catalogue (feed_rows 2 no_filter hub_day2) 1 \<noteq> None"
    using r by (simp add: catalogue_def feed_rows_def in_feed_def matches_def live_view_def)
  then show ?thesis
    using replica_catches_up [OF sample_session_reachable _ sample_request_ok, of 2] r(1)
    by (simp add: sample_session_def) blast
qed

section \<open>Changes a client misses\<close>

text \<open>C39: a new row whose transaction takes its cursor first, but commits only after another contribution with a later cursor was committed and pulled by a client, is in the hub from its commit on, but whatever happens to the hub afterwards, as long as no operation gives the row a fresh cursor (a later hide, deletion or revival does), peers would still be shown it exactly as it was committed and no page that this client pulls from where it stands, or from any later cursor, holds it: cursors follow the order of allocation, not of commit.\<close>

theorem late_commit_missed:
  assumes "db_ok db" "select_fp_by_phash (con_phash_hex c1) (con_consumer_id c1) db = None"
    "begin_contribute c1 er eu eg db = (Some row1, db1)"
    "contribute K True nonces c2 db1 = (Inr (Some row2, True), db2)"
    "con_consumer_id c2 \<noteq> q" "sync_request_ok limit no_filter"
    "sync True q since limit None None None db2 = Inr (rows, nxt, False)" "nxt \<le> since'"
    "db_ok (commit_insert row1 db2)" "(hub_step K threshold)\<^sup>*\<^sup>* (commit_insert row1 db2) db3"
    "sync True q since' limit' a v n db3 = Inr (rows', nxt', more')"
  shows "row1 \<in> set (fingerprints (commit_insert row1 db2))
    \<and> (\<forall>r \<in> set (fingerprints db3). fp_id r = fp_id row1 \<longrightarrow>
        fingerprints_sync_seq (commit_insert row1 db2) \<le> fp_sync_seq r
        \<or> (sync_columns r = sync_columns row1 \<and> fp_id row1 \<notin> sy_id ` set rows'))"
proof -
  note begun = begun_row [OF assms(2,3)]
  have ok1: "db_ok db1" by (rule begun_ok [OF assms(1,3)])
  note made = created_row [OF ok1 assms(4)]
  have ok2: "db_ok db2" using contribute_op.step_ok [OF ok1, of K True nonces c2] assms(4) by simp
  have "sync_columns row2 \<in> set (feed_rows q no_filter db2)"
    using made assms(5) by (simp add: feed_rows_def in_feed_def matches_def)
  then have "fp_sync_seq row2 \<le> nxt"
    using hub_feed.page_last [OF conjI [OF ok2 assms(6)], of q since rows nxt "sync_columns row2"]
      assms(7) sync_Inr [OF assms(6)] by simp
  then have behind: "fp_sync_seq row1 \<le> since'" using begun made assms(8) by simp
  have in1: "row1 \<in> set (fingerprints (commit_insert row1 db2))" by (simp add: commit_insert_def)
  note run = hub_run_feed [OF assms(10,9)]
  have "sync_columns r = sync_columns row1 \<and> fp_id row1 \<notin> sy_id ` set rows'"
    if r: "r \<in> set (fingerprints db3)" "fp_id r = fp_id row1"
      "\<not> fingerprints_sync_seq (commit_insert row1 db2) \<le> fp_sync_seq r" for r
  proof -
    obtain r0 where r0: "r0 \<in> set (fingerprints (commit_insert row1 db2))" "feed_entry r = feed_entry r0"
      using run r(1,3) by blast
    have "r0 = row1" by (rule same_id_same_row [OF assms(9) r0(1) in1]) (use feed_entry_eqD(3) [OF r0(2)] r(2) in simp)
    then have same: "sync_columns r = sync_columns row1" "fp_sync_seq r = fp_sync_seq row1"
      using feed_entry_eqD(1,4) [OF r0(2)] by simp_all
    have "fp_id row1 \<noteq> sy_id x" if x: "x \<in> set rows'" for x
    proof
      assume eq: "fp_id row1 = sy_id x"
      obtain s where s: "s \<in> set (fingerprints db3)" "x = sync_columns s" "since' < fp_sync_seq s"
        using sync_rows_above [OF assms(11) x] by blast
      have "s = r" by (rule same_id_same_row [OF _ s(1) r(1)]) (use run eq s(2) r(2) in auto)
      then show False using s(3) same(2) behind by simp
    qed
    then show ?thesis using same(1) by blast
  qed
  then show ?thesis using in1 by blast
qed

definition plain_contribution :: "int \<Rightarrow> string \<Rightarrow> contribution" where
  "plain_contribution cid version = (sample_contribution cid)
     \<lparr>con_reason := None, con_algorithm_version := version\<rparr>"

lemmas contribution_eval = contribute_def contribute_txn_def encrypt_text_def with_connection_def
  transaction_def plain_contribution_def sample_contribution_def insert_fp_def new_row_def
  select_fp_by_phash_def sample_db_def sample_row_def sample_consumer_def VALID_ACTIONS_def
  VALID_CATEGORIES_def Let_def sql_simps

lemma late_commit_missed_witness:
  "\<exists>row1 db1 row2 db2. begin_contribute (plain_contribution 2 ''v'') None None None sample_db = (Some row1, db1)
    \<and> contribute sample_crypto True ([], [], []) (plain_contribution 3 ''v'') db1 = (Inr (Some row2, True), db2)
    \<and> (\<exists>db3. db3 = snd (report_hit sample_crypto True [] 2 1 None None 50 (commit_insert row1 db2))
        \<and> (\<exists>r. select_fp 2 db3 = Some r \<and> fp_hit_count r = 1)
        \<and> fp_id row1 \<notin> sy_id ` set (fst (sync_page 1 10 no_filter db3 3)))"
proof -
  let ?c1 = "plain_contribution 2 ''v''" and ?c2 = "plain_contribution 3 ''v''"
  let ?row1 = "(new_row ?c1 None None None)\<lparr>fp_id := 2, fp_sync_seq := 2\<rparr>"
  let ?row2 = "(new_row ?c2 None None None)\<lparr>fp_id := 3, fp_sync_seq := 3\<rparr>"
  let ?db1 = "sample_db\<lparr>fingerprints_id_seq := 3, fingerprints_sync_seq := 3\<rparr>"
  let ?db2 = "sample_db\<lparr>fingerprints_id_seq := 4, fingerprints_sync_seq := 4,
    fingerprints := [sample_row, ?row2]\<rparr>"
  have free: "select_fp_by_phash (con_phash_hex ?c1) (con_consumer_id ?c1) sample_db = None"
    by (simp add: contribution_eval)
  have b: "begin_contribute ?c1 None None None sample_db = (Some ?row1, ?db1)"
    by (simp add: begin_contribute_def rollback_def contribution_eval)
  have c: "contribute sample_crypto True ([], [], []) ?c2 ?db1 = (Inr (Some ?row2, True), ?db2)"
    by (simp add: contribution_eval)
  have q: "con_consumer_id ?c2 \<noteq> 1" by (simp add: contribution_eval)
  have s: "sync True 1 0 10 None None None ?db2 = Inr ([sync_columns ?row2], 3, False)"
    by (simp add: sync_def sync_where_def matches_def filter_text_ok_def pg_row_count_def new_row_def
        plain_contribution_def sample_contribution_def sample_row_def)
  let ?db2' = "commit_insert ?row1 ?db2" and ?db3 = "snd (report_hit sample_crypto True [] 2 1 None None 50 (commit_insert ?row1 ?db2))"
  have ok: "db_ok ?db2'"
    by (simp add: db_ok_defs commit_insert_def sample_db_def sample_row_def sample_consumer_def new_row_def
        plain_contribution_def sample_contribution_def VALID_ACTIONS_def VALID_CATEGORIES_def VALID_SCOPES_def)
  have step: "(hub_step sample_crypto 2)\<^sup>*\<^sup>* ?db2' ?db3"
    by (rule r_into_rtranclp) (rule hub_step.reports_hit)
  obtain r where r: "select_fp 2 ?db3 = Some r" "fp_hit_count r = 1" "fp_sync_seq r = 2"
    by (rule that [of "?row1\<lparr>fp_hit_count := 1, fp_last_hit_at_ms := Some 50\<rparr>"])
      (simp_all add: report_hit_def with_connection_def transaction_def report_hit_txn_def select_fp_def
        commit_insert_def sample_db_def sample_row_def sample_consumer_def new_row_def plain_contribution_def
        sample_contribution_def encrypt_text_def insert_hit_def Let_def update_fp_def)
  obtain rows nxt more' where p: "sync_page 1 10 no_filter ?db3 3 = (rows, nxt, more')"
    by (metis prod_cases3)
  have s': "sync True 1 3 10 None None None ?db3 = Inr (rows, nxt, more')"
    using sync_Inr [OF sample_request_ok] p by simp
  note missed = late_commit_missed [OF sample_db_ok free b c q sample_request_ok s order_refl ok step s']
  have seq: "fingerprints_sync_seq ?db2' = 4" by (simp add: commit_insert_def)
  have "fp_id ?row1 \<notin> sy_id ` set rows"
    using missed select_fp_SomeD [OF r(1)] r(3) seq by force
  then show ?thesis using b c p r by (intro exI conjI) auto
qed

text \<open>C40: when a contribution revives a deleted row under another algorithm or version, a client whose filter matched the old triple but not the new one is never told: whatever happens to the hub afterwards, as long as no later operation gives the row yet another cursor, no page the client pulls with its filter, from any cursor, holds the row, so a version of it that the client holds stays as it is.\<close>

theorem filtered_row_leaves:
  assumes "db_ok db" "r \<in> set (fingerprints db)" "in_feed q (a, v, n) r"
    "contribute K up nonces c db = (Inr (Some row, True), db')" "fp_id row = fp_id r"
    "\<not> in_feed q (a, v, n) row" "(hub_step K threshold)\<^sup>*\<^sup>* db' db3"
    "\<forall>s \<in> set (fingerprints db3). fp_id s = fp_id r \<longrightarrow> fp_sync_seq s < fingerprints_sync_seq db'"
    "sync_request_ok limit (a, v, n)" "sync True q since limit a v n db3 = Inr (rows, nxt, more')"
  shows "fp_id r \<notin> sy_id ` set rows \<and> apply_page rows m (fp_id r) = m (fp_id r)"
proof -
  note made = created_row [OF assms(1,4)]
  have ok: "db_ok db'" using contribute_op.step_ok [OF assms(1), of K up nonces c] assms(4) by simp
  note run = hub_run_feed [OF assms(7) ok]
  have p: "sync_page q limit (a, v, n) db3 since = (rows, nxt, more')"
    using assms(10) sync_Inr [OF assms(9)] by simp
  have "fp_id s \<noteq> fp_id r" if s: "s \<in> set (fingerprints db3)" "in_feed q (a, v, n) s" for s
  proof
    assume id: "fp_id s = fp_id r"
    then have "\<not> fingerprints_sync_seq db' \<le> fp_sync_seq s" using assms(8) s(1) by force
    then obtain r0 where r0: "r0 \<in> set (fingerprints db')" "feed_entry s = feed_entry r0"
      using run s(1) by blast
    have "r0 = row"
      by (rule same_id_same_row [OF ok r0(1)]) (use made feed_entry_eqD(3) [OF r0(2)] id assms(5) in auto)
    then have "in_feed q (a, v, n) row"
      using s(2) feed_entry_eqD(2,6,7,8) [OF r0(2)] by (simp add: in_feed_def)
    then show False using assms(6) by simp
  qed
  then have "fp_id r \<notin> sy_id ` set (feed_rows q (a, v, n) db3)" by (force simp: feed_rows_def)
  then have "fp_id r \<notin> sy_id ` set rows"
    using hub_feed.page_set [OF conjI [OF conjunct1 [OF run] assms(9)] p] by blast
  then show ?thesis by (simp add: apply_page_other)
qed

lemma filtered_row_leaves_witness:
  "apply_page (fst (sync_page 2 10 (None, Some ''imagehash.phash'', None)
      (snd (contribute sample_crypto True ([], [], []) (plain_contribution 1 ''v2'')
        (snd (soft_delete True 1 20 sample_db)))) 1)) [1 \<mapsto> sync_columns sample_row] 1
   = Some (sync_columns sample_row)"
proof -
  let ?db = "snd (soft_delete True 1 20 sample_db)" and ?flt = "(None, Some ''imagehash.phash'', None)"
  let ?r = "sample_row\<lparr>fp_status := Deleted, fp_sync_seq := 2, fp_updated_at_ms := 20\<rparr>"
  let ?row = "resurrect_row (plain_contribution 1 ''v2'') None None None 3 ?r"
  let ?out = "contribute sample_crypto True ([], [], []) (plain_contribution 1 ''v2'') ?db"
  have ok: "db_ok ?db" by (rule soft_delete_op.step_ok [OF sample_db_ok])
  have db: "?db = sample_db\<lparr>fingerprints := [?r], fingerprints_sync_seq := 3\<rparr>"
    by (simp add: soft_delete_def with_connection_def transaction_def soft_delete_txn_def select_fp_def
        sample_db_def sample_row_def nextval_sync_def update_fp_def Let_def)
  have run: "?out = (Inr (Some ?row, True), snd ?out)"
    unfolding db by (simp add: contribution_eval resurrect_def nextval_sync_def update_fp_def
        select_fp_def resurrect_row_def delete_flags_of_def)
  have rq: "sync_request_ok 10 ?flt"
    by (simp add: sync_request_ok_def filter_text_ok_def pg_row_count_def sql_simps)
  obtain rows nxt more' where p: "sync_page 2 10 ?flt (snd ?out) 1 = (rows, nxt, more')" by (metis prod_cases3)
  have s: "sync True 2 1 10 None (Some ''imagehash.phash'') None (snd ?out) = Inr (rows, nxt, more')"
    using sync_Inr [OF rq] p by simp
  have r: "?r \<in> set (fingerprints ?db)" "in_feed 2 ?flt ?r" "\<not> in_feed 2 ?flt ?row" "fp_id ?row = fp_id ?r"
    "fp_id ?r = 1"
    by (simp_all add: db in_feed_def matches_def sample_row_def resurrect_row_def plain_contribution_def)
  have cur: "\<forall>s \<in> set (fingerprints (snd ?out)). fp_id s = fp_id ?r \<longrightarrow> fp_sync_seq s < fingerprints_sync_seq (snd ?out)"
    using contribute_op.step_ok [OF ok, of sample_crypto True "([], [], [])" "plain_contribution 1 ''v2''"]
    by (simp add: db_ok_def fingerprints_ok_def)
  from filtered_row_leaves [OF ok r(1,2) run r(4,3) rtranclp.rtrancl_refl cur rq s] p r(5) show ?thesis by simp
qed

end
