(* ===== verification/Service_Config.thy ===== *)
theory Service_Config
  imports Json_Values
begin

text \<open>
  \<^verbatim>\<open>config.py\<close>, the accessors of \<^verbatim>\<open>utils/config_access.py\<close> and the worker count of
  \<^verbatim>\<open>utils/async_utils.py\<close>. The process environment is a function from names to optional texts.
\<close>

type_synonym environ = "string \<Rightarrow> string option"

definition DEFAULT_HOST :: string where "DEFAULT_HOST = ''127.0.0.1''"
definition DEFAULT_PORT :: int where "DEFAULT_PORT = 58751"
definition DEFAULT_RATE_LIMIT_PER_MINUTE :: int where "DEFAULT_RATE_LIMIT_PER_MINUTE = 300"
definition DEFAULT_AUTO_HIDE_FLAG_THRESHOLD :: int where "DEFAULT_AUTO_HIDE_FLAG_THRESHOLD = 2"
definition DEFAULT_MAX_SYNC_LIMIT :: int where "DEFAULT_MAX_SYNC_LIMIT = 500"
definition DEFAULT_SYNC_LIMIT :: int where "DEFAULT_SYNC_LIMIT = 200"
definition DEFAULT_MAX_LIST_LIMIT :: int where "DEFAULT_MAX_LIST_LIMIT = 200"

definition int_env :: "environ \<Rightarrow> string \<Rightarrow> int \<Rightarrow> int" where
  "int_env env name dflt =
     (case env name of
        None \<Rightarrow> dflt
      | Some raw \<Rightarrow>
          if strip raw = [] then dflt
          else (case py_int raw of None \<Rightarrow> dflt | Some n \<Rightarrow> n))"

record service_config =
  host :: string
  port :: int
  rate_limit_per_minute :: int
  auto_hide_flag_threshold :: int
  max_sync_limit :: int
  default_sync_limit :: int
  max_list_limit :: int

definition postgres_config :: "service_config \<Rightarrow> dict" where
  "postgres_config cfg = [(''database'', JObj [])]"

definition load_config_from_env :: "environ \<Rightarrow> service_config" where
  "load_config_from_env env =
     \<lparr>host = (case env ''FINGERPRINTHUB_HOST'' of None \<Rightarrow> DEFAULT_HOST | Some h \<Rightarrow> h),
      port = int_env env ''FINGERPRINTHUB_PORT'' DEFAULT_PORT,
      rate_limit_per_minute =
        int_env env ''FINGERPRINTHUB_RATE_LIMIT'' DEFAULT_RATE_LIMIT_PER_MINUTE,
      auto_hide_flag_threshold =
        max 1 (int_env env ''FINGERPRINTHUB_AUTO_HIDE_FLAG_THRESHOLD''
                 DEFAULT_AUTO_HIDE_FLAG_THRESHOLD),
      max_sync_limit = int_env env ''FINGERPRINTHUB_MAX_SYNC_LIMIT'' DEFAULT_MAX_SYNC_LIMIT,
      default_sync_limit = int_env env ''FINGERPRINTHUB_DEFAULT_SYNC_LIMIT'' DEFAULT_SYNC_LIMIT,
      max_list_limit = int_env env ''FINGERPRINTHUB_MAX_LIST_LIMIT'' DEFAULT_MAX_LIST_LIMIT\<rparr>"

section \<open>Accessors\<close>

definition mapping_at :: "dict \<Rightarrow> string \<Rightarrow> dict" where
  "mapping_at node key = (case dict_get node key JNull of JObj d \<Rightarrow> d | _ \<Rightarrow> [])"

definition tuple_at :: "dict \<Rightarrow> string \<Rightarrow> json list" where
  "tuple_at node key = (case dict_get node key JNull of JList vs \<Rightarrow> vs | _ \<Rightarrow> [])"

section \<open>The worker pool\<close>

definition DEFAULT_MAX_WORKERS :: int where "DEFAULT_MAX_WORKERS = 16"

definition get_max_workers :: "environ \<Rightarrow> int" where
  "get_max_workers env =
     (let raw = (case env ''FINGERPRINTHUB_BLOCKING_IO_MAX_WORKERS'' of
                   None \<Rightarrow> int_str DEFAULT_MAX_WORKERS | Some r \<Rightarrow> r)
      in case py_int raw of None \<Rightarrow> DEFAULT_MAX_WORKERS | Some n \<Rightarrow> max 1 n)"

text \<open>The lazily created executor, known by its size: created once, then kept.\<close>

definition get_executor :: "environ \<Rightarrow> int option \<Rightarrow> int \<times> int option" where
  "get_executor env executor =
     (case executor of
        Some workers \<Rightarrow> (workers, executor)
      | None \<Rightarrow> (get_max_workers env, Some (get_max_workers env)))"

section \<open>What the configuration guarantees\<close>

lemma threshold_positive: "1 \<le> auto_hide_flag_threshold (load_config_from_env env)"
  by (simp add: load_config_from_env_def)

lemma get_max_workers_positive: "1 \<le> get_max_workers env"
  by (simp add: get_max_workers_def DEFAULT_MAX_WORKERS_def Let_def split: option.split)

lemma int_env_set:
  "env name = Some (int_str n) \<Longrightarrow> py_int (int_str n) = Some n \<Longrightarrow> strip (int_str n) \<noteq> [] \<Longrightarrow>
    int_env env name d = n"
  by (simp add: int_env_def)

lemma int_env_unset: "env name = None \<Longrightarrow> int_env env name d = d"
  by (simp add: int_env_def)

end
