(* ===== verification/Auth.thy ===== *)
theory Auth
  imports Consumers_Store Service_Config
begin

text \<open>
  \<^verbatim>\<open>api/auth.py\<close>: scope checks, the sliding-window rate limiter and the authentication middleware.
  Times of \<^verbatim>\<open>time.monotonic()\<close> are reals; the two dictionaries the middleware closes over are its
  state.
\<close>

section \<open>Requests and responses\<close>

text \<open>
  What the program uses of a request: the path, the key header, the query, the \<^verbatim>\<open>{id}\<close> of the matched
  route and the outcome of reading the body as JSON. Query lookup takes the first value of a name.
\<close>

datatype body_read = BodyJson json | BodyInvalid string | BodyRaises exn

record request =
  rq_path :: string
  rq_api_key :: "string option"
  rq_query :: "(string \<times> string) list"
  rq_id :: "string option"
  rq_body :: body_read

datatype payload = Json json | Text string | Empty

record response =
  rs_status :: int
  rs_payload :: payload

definition json_response :: "json \<Rightarrow> int \<Rightarrow> response" where
  "json_response body st = \<lparr>rs_status = st, rs_payload = Json body\<rparr>"

definition error_response :: "string \<Rightarrow> int \<Rightarrow> response" where
  "error_response message st = json_response (JObj [(''error'', JStr message)]) st"

lemma rs_status_json [simp]: "rs_status (json_response b st) = st" "rs_status (error_response m st) = st"
  by (simp_all add: json_response_def error_response_def)

lemma json_response_inject [simp]: "json_response a s = json_response b t \<longleftrightarrow> a = b \<and> s = t"
  by (auto simp: json_response_def)

section \<open>Scopes\<close>

definition require_scope :: "consumer_view \<Rightarrow> string \<Rightarrow> unit result" where
  "require_scope consumer scope =
     (if scope \<notin> set (cv_scopes consumer)
      then Inl (HTTPForbidden (''{\"error\": \"missing required scope: '' @ scope @ ''\"}''))
      else Inr ())"

section \<open>The rate limiter\<close>

record limiter =
  request_times :: "int \<Rightarrow> real list"
  last_seen_marked :: "int \<rightharpoonup> real"

definition fresh_limiter :: limiter where
  "fresh_limiter = \<lparr>request_times = (\<lambda>_. []), last_seen_marked = Map.empty\<rparr>"

definition rate_limited :: "int \<Rightarrow> int \<Rightarrow> real \<Rightarrow> limiter \<Rightarrow> bool \<times> limiter" where
  "rate_limited rate_limit consumer_id now L =
     (let cutoff = now - 60;
          window = dropWhile (\<lambda>t. t < cutoff) (request_times L consumer_id)
      in
        if int (length window) \<ge> rate_limit
        then (True, L\<lparr>request_times := (request_times L)(consumer_id := window)\<rparr>)
        else (False, L\<lparr>request_times := (request_times L)(consumer_id := window @ [now])\<rparr>))"

section \<open>The middleware\<close>

definition PUBLIC_PATHS :: "string list" where
  "PUBLIC_PATHS = [''/v1/health'']"

definition LAST_SEEN_THROTTLE_SECONDS :: real where
  "LAST_SEEN_THROTTLE_SECONDS = 60"

text \<open>
  The surroundings of one request: whether the pool hands out a connection at its n-th store call,
  the wall clock and the monotonic clock when they are read, the random nonces it draws, and what
  other requests do to the database between two store calls of one handler.
\<close>

record surroundings =
  su_up :: "nat \<Rightarrow> bool"
  su_now_ms :: int
  su_monotonic :: real
  su_nonces :: "bytes \<times> bytes \<times> bytes"
  su_others :: "db \<Rightarrow> db"

text \<open>
  \<open>handler\<close> is what the middleware wraps; it gets the consumer the request is attached to, \<open>None\<close> on
  a public path. The second store call is the best-effort last-seen update, whose failure is ignored.
\<close>

definition mark_last_seen ::
  "surroundings \<Rightarrow> consumer_view \<Rightarrow> limiter \<Rightarrow> db \<Rightarrow> limiter \<times> db"
where
  "mark_last_seen t consumer L db =
     (if su_monotonic t - (case last_seen_marked L (cv_id consumer) of None \<Rightarrow> 0 | Some m \<Rightarrow> m)
           \<ge> LAST_SEEN_THROTTLE_SECONDS
      then (L\<lparr>last_seen_marked := (last_seen_marked L)(cv_id consumer \<mapsto> su_monotonic t)\<rparr>,
            snd (touch_last_seen (su_up t 1) (cv_id consumer) (su_now_ms t) db))
      else (L, db))"

definition auth_middleware ::
  "int \<Rightarrow> (consumer_view option \<Rightarrow> request \<Rightarrow> db \<Rightarrow> response result \<times> db)
   \<Rightarrow> surroundings \<Rightarrow> request \<Rightarrow> limiter \<Rightarrow> db \<Rightarrow> response result \<times> limiter \<times> db"
where
  "auth_middleware rate_limit handler t rq L db =
     (if rq_path rq \<in> set PUBLIC_PATHS
      then (case handler None rq db of (r, db1) \<Rightarrow> (r, L, db1))
      else
        (case rq_api_key rq of
           None \<Rightarrow> (Inr (error_response ''missing X-API-Key'' 401), L, db)
         | Some api_key \<Rightarrow>
             if api_key = [] then (Inr (error_response ''missing X-API-Key'' 401), L, db)
             else
               (case find_by_key_hash (su_up t 0) (hash_api_key api_key) db of
                  Inl e \<Rightarrow> (Inl e, L, db)
                | Inr None \<Rightarrow> (Inr (error_response ''invalid or disabled API key'' 401), L, db)
                | Inr (Some consumer) \<Rightarrow>
                    if \<not> cv_enabled consumer
                    then (Inr (error_response ''invalid or disabled API key'' 401), L, db)
                    else
                      (let (limited, L1) = rate_limited rate_limit (cv_id consumer) (su_monotonic t) L in
                       if limited then (Inr (error_response ''rate limit exceeded'' 429), L1, db)
                       else
                         (let (L2, db1) = mark_last_seen t consumer L1 db;
                              (r, db2) = handler (Some consumer) rq db1
                          in (r, L2, db2))))))"

end
