(* ===== verification/Handlers.thy ===== *)
theory Handlers
  imports Auth
begin

text \<open>
  \<^verbatim>\<open>api/fingerprints.py\<close> and \<^verbatim>\<open>parse_json_body\<close> of \<^verbatim>\<open>api/errors.py\<close>: one function per handler, from
  the authenticated consumer, the request and the database to a response or the exception that
  leaves the handler, and the database afterwards. Store calls of one handler are numbered from 2;
  0 and 1 are the middleware's.
\<close>

section \<open>Request parts\<close>

record service =
  sv_crypto :: crypto
  sv_config :: service_config

definition DEFAULT_ALGORITHM :: string where "DEFAULT_ALGORITHM = ''phash''"
definition DEFAULT_ALGORITHM_VERSION :: string where "DEFAULT_ALGORITHM_VERSION = ''imagehash.phash''"
definition DEFAULT_NORMALIZATION_VERSION :: string where
  "DEFAULT_NORMALIZATION_VERSION = ''alpha_white_v1''"

definition path_id :: "request \<Rightarrow> int option" where
  "path_id rq = (case rq_id rq of None \<Rightarrow> None | Some s \<Rightarrow> py_int s)"

text \<open>\<^verbatim>\<open>request.query.get(name)\<close> and \<^verbatim>\<open>request.query.get(name, default)\<close>.\<close>

definition query :: "request \<Rightarrow> string \<Rightarrow> string option" where
  "query rq name = map_of (rq_query rq) name"

definition query_or :: "request \<Rightarrow> string \<Rightarrow> string \<Rightarrow> string" where
  "query_or rq name dflt = (case query rq name of None \<Rightarrow> dflt | Some v \<Rightarrow> v)"

definition query_text :: "request \<Rightarrow> string \<Rightarrow> string option" where
  "query_text rq name =
     str_or_none (case query rq name of None \<Rightarrow> JNull | Some v \<Rightarrow> JStr v)"

text \<open>\<^verbatim>\<open>parse_json_body\<close>: the object, or the error response; other exceptions pass through.\<close>

datatype parsed_body = Parsed dict | Refused response

definition parse_json_body :: "request \<Rightarrow> parsed_body result" where
  "parse_json_body rq =
     (case rq_body rq of
        BodyRaises e \<Rightarrow> Inl e
      | BodyInvalid details \<Rightarrow>
          Inr (Refused (json_response (JObj [(''error'', JStr ''Invalid JSON''),
                 (''details'', JStr details)]) 400))
      | BodyJson data \<Rightarrow>
          (case data of
             JObj d \<Rightarrow> Inr (Parsed d)
           | _ \<Rightarrow> Inr (Refused (error_response ''JSON body must be an object'' 400))))"

section \<open>What a response shows of a row\<close>

definition is_admin :: "consumer_view \<Rightarrow> bool" where
  "is_admin consumer \<longleftrightarrow> ''admin'' \<in> set (cv_scopes consumer)"

definition can_see_secrets :: "consumer_view \<Rightarrow> fingerprint_row \<Rightarrow> bool" where
  "can_see_secrets consumer r \<longleftrightarrow> is_admin consumer \<or> fp_consumer_id r = cv_id consumer"

text \<open>\<^verbatim>\<open>_decrypt\<close>: an envelope that does not decrypt shows as null; other exceptions pass through.\<close>

definition decrypt_shown :: "crypto \<Rightarrow> string option \<Rightarrow> json result" where
  "decrypt_shown K value =
     (case value of
        None \<Rightarrow> Inr JNull
      | Some v \<Rightarrow>
          (case decrypt_text_field (cr_aead K) (cr_ring K) None (Some v) of
             Inl (FieldDecryptionError e) \<Rightarrow> Inr JNull
           | Inl e \<Rightarrow> Inl e
           | Inr None \<Rightarrow> Inr JNull
           | Inr (Some t) \<Rightarrow> Inr (JStr t)))"

definition peer_fp :: "sync_row \<Rightarrow> json" where
  "peer_fp r = JObj
     [(''id'', JInt (sy_id r)), (''sync_seq'', JInt (sy_sync_seq r)),
      (''phash_hex'', JStr (sy_phash_hex r)), (''algorithm'', JStr (sy_algorithm r)),
      (''algorithm_version'', JStr (sy_algorithm_version r)),
      (''normalization_version'', JStr (sy_normalization_version r)),
      (''category'', JStr (sy_category r)), (''action'', JStr (sy_action r)),
      (''status'', JStr (status_text (sy_status r)))]"

definition opt_int :: "int option \<Rightarrow> json" where
  "opt_int v = (case v of None \<Rightarrow> JNull | Some n \<Rightarrow> JInt n)"

definition detail_fp :: "crypto \<Rightarrow> consumer_view \<Rightarrow> fingerprint_row \<Rightarrow> json result" where
  "detail_fp K consumer r =
     (if \<not> can_see_secrets consumer r then Inr (peer_fp (sync_columns r))
      else
        (case decrypt_shown K (fp_source_guild_id r) of
           Inl e \<Rightarrow> Inl e
         | Inr guild \<Rightarrow>
             (case decrypt_shown K (fp_reason r) of
                Inl e \<Rightarrow> Inl e
              | Inr reason \<Rightarrow>
                  (case decrypt_shown K (fp_source_url r) of
                     Inl e \<Rightarrow> Inl e
                   | Inr source_url \<Rightarrow> Inr (JObj
                       [(''id'', JInt (fp_id r)), (''sync_seq'', JInt (fp_sync_seq r)),
                        (''phash_hex'', JStr (fp_phash_hex r)), (''algorithm'', JStr (fp_algorithm r)),
                        (''algorithm_version'', JStr (fp_algorithm_version r)),
                        (''normalization_version'', JStr (fp_normalization_version r)),
                        (''category'', JStr (fp_category r)), (''action'', JStr (fp_action r)),
                        (''consumer_id'', JInt (fp_consumer_id r)), (''source_guild_id'', guild),
                        (''added_at_ms'', JInt (fp_added_at_ms r)),
                        (''updated_at_ms'', JInt (fp_updated_at_ms r)),
                        (''hit_count'', JInt (fp_hit_count r)),
                        (''last_hit_at_ms'', opt_int (fp_last_hit_at_ms r)),
                        (''auto_added'', JBool (fp_auto_added r)),
                        (''provenance'', JStr (fp_provenance r)),
                        (''status'', JStr (status_text (fp_status r))),
                        (''flag_count'', JInt (fp_flag_count r)),
                        (''reason'', reason), (''source_url'', source_url)])))))"

fun detail_fps :: "crypto \<Rightarrow> consumer_view \<Rightarrow> fingerprint_row list \<Rightarrow> json list result" where
  "detail_fps K consumer [] = Inr []"
| "detail_fps K consumer (r # rs) =
     (case detail_fp K consumer r of
        Inl e \<Rightarrow> Inl e
      | Inr j \<Rightarrow> (case detail_fps K consumer rs of Inl e \<Rightarrow> Inl e | Inr js \<Rightarrow> Inr (j # js)))"

section \<open>Reading handlers\<close>

definition ping :: "bool \<Rightarrow> unit result" where
  "ping reachable = (if reachable then Inr () else Inl OperationalError)"

definition health :: "surroundings \<Rightarrow> request \<Rightarrow> db \<Rightarrow> response result \<times> db" where
  "health t rq db =
     (case ping (su_up t 2) of
        Inl e \<Rightarrow>
          (Inr (json_response (JObj [(''status'', JStr ''degraded''), (''db'', JBool False)]) 503), db)
      | Inr _ \<Rightarrow> (Inr (json_response (JObj [(''status'', JStr ''ok''), (''db'', JBool True)]) 200), db))"

definition sync_fingerprints ::
  "service \<Rightarrow> surroundings \<Rightarrow> consumer_view \<Rightarrow> request \<Rightarrow> db \<Rightarrow> response result \<times> db"
where
  "sync_fingerprints sv t consumer rq db =
     (case require_scope consumer ''read'' of
        Inl e \<Rightarrow> (Inl e, db)
      | Inr _ \<Rightarrow>
          (case py_int (query_or rq ''since'' ''0'') of
             None \<Rightarrow> (Inr (error_response ''since must be an integer'' 400), db)
           | Some since \<Rightarrow>
               (case py_int (query_or rq ''limit'' (int_str (default_sync_limit (sv_config sv)))) of
                  None \<Rightarrow> (Inr (error_response ''limit must be an integer'' 400), db)
                | Some raw_limit \<Rightarrow>
                    (let limit = max 1 (min raw_limit (max_sync_limit (sv_config sv))) in
                     case sync (su_up t 2) (cv_id consumer) (max 0 since) limit
                            (query_text rq ''algorithm'') (query_text rq ''algorithm_version'')
                            (query_text rq ''normalization_version'') db of
                       Inl e \<Rightarrow> (Inl e, db)
                     | Inr (rows, next_since, has_more) \<Rightarrow>
                         (Inr (json_response (JObj
                            [(''fingerprints'', JList (map peer_fp rows)),
                             (''next_since'', JInt next_since), (''has_more'', JBool has_more)]) 200),
                          db)))))"

definition get_fingerprint ::
  "service \<Rightarrow> surroundings \<Rightarrow> consumer_view \<Rightarrow> request \<Rightarrow> db \<Rightarrow> response result \<times> db"
where
  "get_fingerprint sv t consumer rq db =
     (case require_scope consumer ''read'' of
        Inl e \<Rightarrow> (Inl e, db)
      | Inr _ \<Rightarrow>
          (case path_id rq of
             None \<Rightarrow> (Inr (error_response ''invalid fingerprint id'' 400), db)
           | Some i \<Rightarrow>
               (case get (su_up t 2) i db of
                  Inl e \<Rightarrow> (Inl e, db)
                | Inr None \<Rightarrow> (Inr (error_response ''fingerprint not found'' 404), db)
                | Inr (Some r) \<Rightarrow>
                    if fp_status r = Deleted then (Inr (error_response ''fingerprint not found'' 404), db)
                    else if fp_status r = Hidden \<and> \<not> can_see_secrets consumer r
                    then (Inr (error_response ''fingerprint not found'' 404), db)
                    else
                      (case detail_fp (sv_crypto sv) consumer r of
                         Inl e \<Rightarrow> (Inl e, db)
                       | Inr j \<Rightarrow> (Inr (json_response j 200), db)))))"

definition include_hidden_set :: "request \<Rightarrow> bool" where
  "include_hidden_set rq \<longleftrightarrow>
     lower (query_or rq ''include_hidden'' []) \<in> {''1'', ''true'', ''yes''}"

text \<open>The consumer filter of the browse: a refusal, or the filter the store gets.\<close>

definition list_consumer :: "consumer_view \<Rightarrow> request \<Rightarrow> response + int option" where
  "list_consumer consumer rq =
     (let requested = (case query rq ''consumer_id'' of
                         None \<Rightarrow> Some None
                       | Some s \<Rightarrow> map_option Some (py_int s))
      in case requested of
           None \<Rightarrow> Inl (error_response ''consumer_id must be an integer'' 400)
         | Some cid \<Rightarrow>
             if is_admin consumer then Inr cid
             else if cid \<noteq> None \<and> cid \<noteq> Some (cv_id consumer)
             then Inl (error_response ''consumer_id filtering is limited to your own records'' 403)
             else Inr (Some (cv_id consumer)))"

definition list_handler ::
  "service \<Rightarrow> surroundings \<Rightarrow> consumer_view \<Rightarrow> request \<Rightarrow> db \<Rightarrow> response result \<times> db"
where
  "list_handler sv t consumer rq db =
     (case require_scope consumer ''read'' of
        Inl e \<Rightarrow> (Inl e, db)
      | Inr _ \<Rightarrow>
          (case (py_int (query_or rq ''limit'' ''50''), py_int (query_or rq ''offset'' ''0'')) of
             (Some raw_limit, Some raw_offset) \<Rightarrow>
               (let limit = max 1 (min raw_limit (max_list_limit (sv_config sv)));
                    offset = max 0 raw_offset
                in
                  (case list_consumer consumer rq of
                     Inl refusal \<Rightarrow> (Inr refusal, db)
                   | Inr cid \<Rightarrow>
                       (case list_fingerprints (su_up t 2) (query_text rq ''category'')
                               (query_text rq ''algorithm'') cid
                               (include_hidden_set rq \<and> is_admin consumer) limit offset db of
                          Inl e \<Rightarrow> (Inl e, db)
                        | Inr rows \<Rightarrow>
                            (case detail_fps (sv_crypto sv) consumer rows of
                               Inl e \<Rightarrow> (Inl e, db)
                             | Inr js \<Rightarrow>
                                 (Inr (json_response (JObj [(''fingerprints'', JList js),
                                    (''count'', JInt (int (length rows)))]) 200), db)))))
           | _ \<Rightarrow> (Inr (error_response ''limit/offset must be integers'' 400), db)))"

definition counts_json :: "(string \<times> int) list \<Rightarrow> json" where
  "counts_json kvs = JObj (map (\<lambda>kv. (fst kv, JInt (snd kv))) kvs)"

definition stats_handler ::
  "service \<Rightarrow> surroundings \<Rightarrow> consumer_view \<Rightarrow> request \<Rightarrow> db \<Rightarrow> response result \<times> db"
where
  "stats_handler sv t consumer rq db =
     (case require_scope consumer ''admin'' of
        Inl e \<Rightarrow> (Inl e, db)
      | Inr _ \<Rightarrow>
          (case stats (su_up t 2) db of
             Inl e \<Rightarrow> (Inl e, db)
           | Inr s \<Rightarrow>
               (Inr (json_response (JObj
                  [(''total_active'', JInt (total_active s)), (''total_hidden'', JInt (total_hidden s)),
                   (''total_deleted'', JInt (total_deleted s)), (''total_hits'', JInt (total_hits s)),
                   (''by_category'', counts_json (by_category s)),
                   (''by_provenance'', counts_json (by_provenance s)),
                   (''active_consumers'', JInt (active_consumers s))]) 200), db)))"

section \<open>Writing handlers\<close>

definition choices_message :: "string \<Rightarrow> string list \<Rightarrow> string" where
  "choices_message what choices =
     what @ '' must be one of '' @ py_repr (JList (map JStr (sort choices)))"

definition or_default :: "string option \<Rightarrow> string \<Rightarrow> string" where
  "or_default v d = (if truthy v then the v else d)"

text \<open>The checks on the body in their order: a refusal, or the arguments of the store's \<open>contribute\<close>.\<close>

definition contribution_of_body ::
  "consumer_view \<Rightarrow> int \<Rightarrow> dict \<Rightarrow> response + contribution"
where
  "contribution_of_body consumer now body =
     (let phash = lower (strip (py_str (dict_get body ''phash_hex'' (JStr []))));
          category = strip (py_str (dict_get body ''category'' (JStr [])));
          action = strip (py_str (dict_get body ''action'' (JStr [])));
          opt = (\<lambda>key. str_or_none (dict_get body key JNull))
      in
        if \<not> PHASH_RE_match phash
        then Inl (error_response ''phash_hex must be 16 lowercase hex characters'' 400)
        else if category \<notin> set VALID_CATEGORIES
        then Inl (error_response (choices_message ''category'' VALID_CATEGORIES) 400)
        else if action \<notin> set VALID_ACTIONS
        then Inl (error_response (choices_message ''action'' VALID_ACTIONS) 400)
        else
          (case bool_or_none (dict_get body ''auto_added'' JNull) False of
             None \<Rightarrow> Inl (error_response ''auto_added must be a boolean'' 400)
           | Some auto \<Rightarrow>
               Inr \<lparr>con_consumer_id = cv_id consumer, con_phash_hex = phash,
                 con_algorithm = or_default (opt ''algorithm'') DEFAULT_ALGORITHM,
                 con_algorithm_version = or_default (opt ''algorithm_version'') DEFAULT_ALGORITHM_VERSION,
                 con_normalization_version =
                   or_default (opt ''normalization_version'') DEFAULT_NORMALIZATION_VERSION,
                 con_category = category, con_action = action,
                 con_source_guild_id = opt ''source_guild_id'', con_reason = opt ''reason'',
                 con_source_url = opt ''source_url'', con_auto_added = auto,
                 con_provenance = or_default (opt ''provenance'') ''manual_staff'', con_now_ms = now\<rparr>))"

text \<open>
  A store that returns no row makes the subscript of the row raise \<^verbatim>\<open>TypeError\<close>.
\<close>

definition contribute_fingerprint ::
  "service \<Rightarrow> surroundings \<Rightarrow> consumer_view \<Rightarrow> request \<Rightarrow> db \<Rightarrow> response result \<times> db"
where
  "contribute_fingerprint sv t consumer rq db =
     (case require_scope consumer ''write'' of
        Inl e \<Rightarrow> (Inl e, db)
      | Inr _ \<Rightarrow>
          (case parse_json_body rq of
             Inl e \<Rightarrow> (Inl e, db)
           | Inr (Refused r) \<Rightarrow> (Inr r, db)
           | Inr (Parsed body) \<Rightarrow>
               (case contribution_of_body consumer (su_now_ms t) body of
                  Inl refusal \<Rightarrow> (Inr refusal, db)
                | Inr c \<Rightarrow>
                    (case contribute (sv_crypto sv) (su_up t 2) (su_nonces t) c db of
                       (Inl e, db1) \<Rightarrow> (Inl e, db1)
                     | (Inr (None, created), db1) \<Rightarrow> (Inl TypeError, db1)
                     | (Inr (Some row, created), db1) \<Rightarrow>
                         if \<not> created
                         then (Inr (json_response (JObj
                                [(''error'', JStr ''duplicate fingerprint for this consumer''),
                                 (''existing_id'', JInt (fp_id row))]) 409), db1)
                         else
                           (case detail_fp (sv_crypto sv) consumer row of
                              Inl e \<Rightarrow> (Inl e, db1)
                            | Inr j \<Rightarrow> (Inr (json_response j 201), db1))))))"

text \<open>The optional body of a hit or a flag: anything but an object counts as an empty one.\<close>

definition optional_body :: "request \<Rightarrow> dict result" where
  "optional_body rq =
     (case parse_json_body rq of
        Inl e \<Rightarrow> Inl e
      | Inr (Parsed d) \<Rightarrow> Inr d
      | Inr (Refused r) \<Rightarrow> Inr [])"

definition distance_of :: "json \<Rightarrow> int option result" where
  "distance_of raw =
     (if raw = JNull then Inr None
      else
        (case py_int_of raw of
           Inr n \<Rightarrow> Inr (Some n)
         | Inl TypeError \<Rightarrow> Inr None
         | Inl (ValueError m) \<Rightarrow> Inr None
         | Inl e \<Rightarrow> Inl e))"

definition report_hit_handler ::
  "service \<Rightarrow> surroundings \<Rightarrow> consumer_view \<Rightarrow> request \<Rightarrow> db \<Rightarrow> response result \<times> db"
where
  "report_hit_handler sv t consumer rq db =
     (case require_scope consumer ''write'' of
        Inl e \<Rightarrow> (Inl e, db)
      | Inr _ \<Rightarrow>
          (case path_id rq of
             None \<Rightarrow> (Inr (error_response ''invalid fingerprint id'' 400), db)
           | Some i \<Rightarrow>
               (case optional_body rq of
                  Inl e \<Rightarrow> (Inl e, db)
                | Inr body \<Rightarrow>
                    (case distance_of (dict_get body ''distance'' JNull) of
                       Inl e \<Rightarrow> (Inl e, db)
                     | Inr distance \<Rightarrow>
                         (case report_hit (sv_crypto sv) (su_up t 2) (fst (su_nonces t)) i
                                 (cv_id consumer) (str_or_none (dict_get body ''guild_id'' JNull))
                                 distance (su_now_ms t) db of
                            (Inl e, db1) \<Rightarrow> (Inl e, db1)
                          | (Inr None, db1) \<Rightarrow>
                              (Inr (error_response ''fingerprint not found'' 404), db1)
                          | (Inr (Some n), db1) \<Rightarrow>
                              (Inr (json_response (JObj [(''id'', JInt i), (''hit_count'', JInt n)]) 200),
                               db1))))))"

definition flag_fingerprint ::
  "service \<Rightarrow> surroundings \<Rightarrow> consumer_view \<Rightarrow> request \<Rightarrow> db \<Rightarrow> response result \<times> db"
where
  "flag_fingerprint sv t consumer rq db =
     (case require_scope consumer ''write'' of
        Inl e \<Rightarrow> (Inl e, db)
      | Inr _ \<Rightarrow>
          (case path_id rq of
             None \<Rightarrow> (Inr (error_response ''invalid fingerprint id'' 400), db)
           | Some i \<Rightarrow>
               (case optional_body rq of
                  Inl e \<Rightarrow> (Inl e, db)
                | Inr body \<Rightarrow>
                    (case flag (sv_crypto sv) (su_up t 2) (fst (su_nonces t)) i (cv_id consumer)
                            (str_or_none (dict_get body ''reason'' JNull)) (su_now_ms t)
                            (auto_hide_flag_threshold (sv_config sv)) db of
                       (Inl e, db1) \<Rightarrow> (Inl e, db1)
                     | (Inr None, db1) \<Rightarrow> (Inr (error_response ''fingerprint not found'' 404), db1)
                     | (Inr (Some fr), db1) \<Rightarrow>
                         (Inr (json_response (JObj
                            [(''id'', JInt i), (''flag_count'', JInt (fr_flag_count fr)),
                             (''status'', JStr (status_text (fr_status fr))),
                             (''hidden'', JBool (fr_hidden fr))]) 200), db1)))))"

definition delete_fingerprint ::
  "service \<Rightarrow> surroundings \<Rightarrow> consumer_view \<Rightarrow> request \<Rightarrow> db \<Rightarrow> response result \<times> db"
where
  "delete_fingerprint sv t consumer rq db =
     (case require_scope consumer ''write'' of
        Inl e \<Rightarrow> (Inl e, db)
      | Inr _ \<Rightarrow>
          (case path_id rq of
             None \<Rightarrow> (Inr (error_response ''invalid fingerprint id'' 400), db)
           | Some i \<Rightarrow>
               (case get (su_up t 2) i db of
                  Inl e \<Rightarrow> (Inl e, db)
                | Inr None \<Rightarrow> (Inr (error_response ''fingerprint not found'' 404), db)
                | Inr (Some r) \<Rightarrow>
                    if fp_status r = Deleted then (Inr (error_response ''fingerprint not found'' 404), db)
                    else if \<not> (fp_consumer_id r = cv_id consumer \<or> is_admin consumer)
                    then (Inr (error_response (''only the owning consumer or an admin may delete; ''
                                 @ ''use /flag instead'') 403), db)
                    else
                      (case soft_delete (su_up t 3) i (su_now_ms t) (su_others t db) of
                         (Inl e, db1) \<Rightarrow> (Inl e, db1)
                       | (Inr _, db1) \<Rightarrow> (Inr \<lparr>rs_status = 204, rs_payload = Empty\<rparr>, db1)))))"

end
