(* ===== verification/Postgres_Runtime.thy ===== *)
theory Postgres_Runtime
  imports Service_Config
begin

text \<open>
  \<^verbatim>\<open>utils/postgres_utils.py\<close>: the database URL, the settings, the process-wide pool manager and the
  schema check at start-up. The pool library is a parameter: \<open>new_pool_error\<close> says whether the
  \<^verbatim>\<open>ConnectionPool\<close> constructor accepts the settings, and a pool is known by a number and the
  settings it was made with. The database's answers to the start-up queries are arguments.
\<close>

definition DEFAULT_DATABASE_URL_ENV :: string where
  "DEFAULT_DATABASE_URL_ENV = ''FINGERPRINTHUB_DATABASE_URL''"
definition DEFAULT_POOL_MIN_SIZE :: int where "DEFAULT_POOL_MIN_SIZE = 1"
definition DEFAULT_POOL_MAX_SIZE :: int where "DEFAULT_POOL_MAX_SIZE = 10"
definition DEFAULT_CONNECT_TIMEOUT_SECONDS :: int where "DEFAULT_CONNECT_TIMEOUT_SECONDS = 5"

record postgres_settings =
  dsn :: string
  pool_min_size :: int
  pool_max_size :: int
  connect_timeout_seconds :: int

definition normalize_psycopg_dsn :: "string \<Rightarrow> string" where
  "normalize_psycopg_dsn d = replace_first ''postgresql+psycopg://'' ''postgresql://'' d"

definition get_database_url :: "environ \<Rightarrow> dict \<Rightarrow> string result" where
  "get_database_url env config =
     (let database_config = mapping_at config ''database'';
          url_env = dict_get database_config ''url_env'' JNull;
          env_name = py_str (if py_true url_env then url_env else JStr DEFAULT_DATABASE_URL_ENV);
          d = (if truthy (env env_name) then JStr (the (env env_name))
               else dict_get database_config ''url'' JNull)
      in if \<not> py_true d
         then Inl (RuntimeError (''Postgres database URL is required; set '' @ env_name
                     @ '' or database.url''))
         else Inr (py_str d))"

definition get_postgres_settings :: "environ \<Rightarrow> dict \<Rightarrow> postgres_settings result" where
  "get_postgres_settings env config =
     (let database_config = mapping_at config ''database'' in
      case get_database_url env config of
        Inl e \<Rightarrow> Inl e
      | Inr url \<Rightarrow>
          (case py_int_of (dict_get database_config ''pool_min_size'' (JInt DEFAULT_POOL_MIN_SIZE)) of
             Inl e \<Rightarrow> Inl e
           | Inr lo \<Rightarrow>
               (case py_int_of (dict_get database_config ''pool_max_size'' (JInt DEFAULT_POOL_MAX_SIZE)) of
                  Inl e \<Rightarrow> Inl e
                | Inr hi \<Rightarrow>
                    (case py_int_of (dict_get database_config ''connect_timeout_seconds''
                             (JInt DEFAULT_CONNECT_TIMEOUT_SECONDS)) of
                       Inl e \<Rightarrow> Inl e
                     | Inr t \<Rightarrow>
                         Inr \<lparr>dsn = normalize_psycopg_dsn url, pool_min_size = lo,
                               pool_max_size = hi, connect_timeout_seconds = t\<rparr>))))"

text \<open>
  \<^verbatim>\<open>_database_url\<close> of \<^verbatim>\<open>alembic/env.py\<close>, the inverse rewriting for SQLAlchemy; \<open>ini_url\<close> is the option
  \<^verbatim>\<open>sqlalchemy.url\<close> of \<^verbatim>\<open>alembic.ini\<close>.
\<close>

definition migration_database_url :: "environ \<Rightarrow> string option \<Rightarrow> string" where
  "migration_database_url env ini_url =
     (let url = (if truthy (env ''FINGERPRINTHUB_DATABASE_URL'') then the (env ''FINGERPRINTHUB_DATABASE_URL'')
                 else if truthy ini_url then the ini_url else [])
      in if startswith url ''postgresql://''
         then replace_first ''postgresql://'' ''postgresql+psycopg://'' url else url)"

text \<open>What Alembic connects to is what the service connects to.\<close>

lemma replace_first_prefix:
  assumes "p \<noteq> []"
  shows "replace_first p q (p @ s) = q @ s"
proof -
  obtain c cs where p: "p = c # cs" using assms by (cases p) auto
  have "startswith (c # cs @ s) (c # cs)" by (simp add: startswith_def)
  then show ?thesis using p by simp
qed

lemma migration_url_same:
  assumes "env ''FINGERPRINTHUB_DATABASE_URL'' = Some (''postgresql://'' @ rest)"
  shows "normalize_psycopg_dsn (migration_database_url env ini) = ''postgresql://'' @ rest"
proof -
  have "migration_database_url env ini = ''postgresql+psycopg://'' @ rest"
    using assms replace_first_prefix [of "''postgresql://''" "''postgresql+psycopg://''" rest]
      startswith_append [of "''postgresql://''" rest]
    by (simp add: migration_database_url_def del: append_Cons replace_first.simps)
  then show ?thesis
    using replace_first_prefix [of "''postgresql+psycopg://''" "''postgresql://''" rest]
    by (simp add: normalize_psycopg_dsn_def del: append_Cons replace_first.simps)
qed

section \<open>The pool manager\<close>

text \<open>
  The process: the manager's two fields, the pools that are open with their settings, and the number
  the next pool gets.
\<close>

record pool_process =
  manager_pool :: "nat option"
  manager_dsn :: "string option"
  open_pools :: "(nat \<times> postgres_settings) list"
  next_pool :: nat

definition fresh_process :: pool_process where
  "fresh_process = \<lparr>manager_pool = None, manager_dsn = None, open_pools = [], next_pool = 0\<rparr>"

definition close_pool :: "nat option \<Rightarrow> pool_process \<Rightarrow> pool_process" where
  "close_pool p s =
     (case p of None \<Rightarrow> s | Some i \<Rightarrow> s\<lparr>open_pools := filter (\<lambda>q. fst q \<noteq> i) (open_pools s)\<rparr>)"

definition get_pool ::
  "(postgres_settings \<Rightarrow> exn option) \<Rightarrow> environ \<Rightarrow> dict \<Rightarrow> pool_process \<Rightarrow> nat result \<times> pool_process"
where
  "get_pool new_pool_error env config s =
     (case get_postgres_settings env config of
        Inl e \<Rightarrow> (Inl e, s)
      | Inr settings \<Rightarrow>
          if manager_pool s \<noteq> None \<and> manager_dsn s = Some (dsn settings)
          then (Inr (the (manager_pool s)), s)
          else
            (let s1 = close_pool (manager_pool s) s in
             case new_pool_error settings of
               Some e \<Rightarrow> (Inl e, s1)
             | None \<Rightarrow>
                 (let i = next_pool s1;
                      s2 = s1\<lparr>open_pools := open_pools s1 @ [(i, settings)], next_pool := i + 1,
                              manager_pool := Some i, manager_dsn := Some (dsn settings)\<rparr>
                  in (Inr i, s2))))"

definition close_manager :: "pool_process \<Rightarrow> pool_process" where
  "close_manager s = (close_pool (manager_pool s) s)\<lparr>manager_pool := None, manager_dsn := None\<rparr>"

definition get_postgres_pool ::
  "(postgres_settings \<Rightarrow> exn option) \<Rightarrow> environ \<Rightarrow> dict \<Rightarrow> pool_process \<Rightarrow> nat result \<times> pool_process"
where
  "get_postgres_pool new_pool_error env config s = get_pool new_pool_error env config s"

definition close_postgres_pool :: "pool_process \<Rightarrow> pool_process" where
  "close_postgres_pool s = close_manager s"

section \<open>The schema check\<close>

text \<open>What the database answers: its version, whether the version table exists, and its rows.\<close>

record schema_answers =
  server_version :: "string option"
  version_table :: "string option"
  revision_rows :: "string list"

definition sorted_set :: "string list \<Rightarrow> string list" where
  "sorted_set xs = sort (remdups xs)"

definition heads_repr :: "string list \<Rightarrow> string" where
  "heads_repr xs = py_repr (JList (map JStr (sorted_set xs)))"

definition validate_postgres_runtime ::
  "environ \<Rightarrow> dict \<Rightarrow> string list \<Rightarrow> schema_answers result \<Rightarrow> (string option \<times> string list) result"
where
  "validate_postgres_runtime env config expected_heads answers =
     (case get_postgres_settings env config of
        Inl e \<Rightarrow> Inl e
      | Inr settings \<Rightarrow>
          (case answers of
             Inl e \<Rightarrow> Inl e
           | Inr a \<Rightarrow>
               if \<not> truthy (version_table a)
               then Inl (RuntimeError (''Postgres schema is not initialized; run Alembic upgrade ''
                           @ ''head before starting FingerprintHub''))
               else if set (revision_rows a) \<noteq> set expected_heads
               then Inl (RuntimeError (''Postgres schema revision mismatch; database=''
                           @ heads_repr (revision_rows a) @ '' expected='' @ heads_repr expected_heads
                           @ ''. Run Alembic upgrade head out of band before starting FingerprintHub.''))
               else Inr (server_version a, sorted_set (revision_rows a))))"

section \<open>The manager's invariant\<close>

text \<open>
  At most one pool is open, and it is the manager's; the manager has a pool exactly when it has a
  data source name. After a constructor that raised, the manager's pool is a closed one.
\<close>

definition process_ok :: "pool_process \<Rightarrow> bool" where
  "process_ok s \<longleftrightarrow> length (open_pools s) \<le> 1
     \<and> (\<forall>(i, st) \<in> set (open_pools s). manager_pool s = Some i \<and> manager_dsn s = Some (dsn st)
          \<and> i < next_pool s)
     \<and> (manager_pool s = None \<longleftrightarrow> manager_dsn s = None)"

lemma fresh_process_ok: "process_ok fresh_process"
  by (simp add: process_ok_def fresh_process_def)

lemma close_pool_all:
  assumes "process_ok s"
  shows "open_pools (close_pool (manager_pool s) s) = []"
proof (cases "manager_pool s")
  case None
  then have "open_pools s = []" using assms by (cases "open_pools s") (auto simp: process_ok_def)
  then show ?thesis using None by (simp add: close_pool_def)
next
  case (Some i)
  then have "\<forall>q \<in> set (open_pools s). fst q = i" using assms by (auto simp: process_ok_def)
  then show ?thesis using Some by (simp add: close_pool_def filter_empty_conv)
qed

lemma close_pool_fields [simp]:
  "manager_pool (close_pool p s) = manager_pool s" "manager_dsn (close_pool p s) = manager_dsn s"
  "next_pool (close_pool p s) = next_pool s"
  by (simp_all add: close_pool_def split: option.split)

lemma get_pool_process_ok:
  assumes "process_ok s"
  shows "process_ok (snd (get_pool new_pool_error env config s))"
  using assms close_pool_all [OF assms]
  by (auto simp: get_pool_def Let_def process_ok_def split: sum.split option.split)

lemma close_manager_ok:
  assumes "process_ok s"
  shows "open_pools (close_manager s) = []" and "process_ok (close_manager s)"
  using close_pool_all [OF assms] by (simp_all add: close_manager_def process_ok_def)

text \<open>A pool asked for twice with the same data source is the same pool.\<close>

lemma get_pool_again:
  assumes "get_pool new_pool_error env config s = (Inr i, s')"
  shows "get_pool new_pool_error env config s' = (Inr i, s')"
  using assms by (auto simp: get_pool_def Let_def split: sum.splits if_splits option.splits)

end
