(* ===== verification/Process_Log.thy ===== *)
theory Process_Log
  imports Service_Config
begin

text \<open>
  \<^verbatim>\<open>setup_logging\<close> of \<^verbatim>\<open>main.py\<close> with the part of Python's \<^verbatim>\<open>logging\<close> it relies on: the module's
  attributes that an upper-case name can reach, and what \<^verbatim>\<open>basicConfig\<close> makes of them as the level of
  the root logger of a process that has not configured logging yet.
\<close>

section \<open>Upper case\<close>

text \<open>
  \<^verbatim>\<open>str.upper\<close>; the two letters whose upper case lies beyond the model, code points 181 and 255, stay
  as they are, which no name below contains.
\<close>

definition upper_char :: "char \<Rightarrow> string" where
  "upper_char c = (let n = ord c in
     if (97 \<le> n \<and> n \<le> 122) \<or> (224 \<le> n \<and> n \<le> 254 \<and> n \<noteq> 247) then [char_of (n - 32)]
     else if n = 223 then ''SS''
     else [c])"

definition upper :: "string \<Rightarrow> string" where
  "upper s = concat (map upper_char s)"

section \<open>Levels\<close>

text \<open>An attribute of the module \<^verbatim>\<open>logging\<close>: a level, its default format, or its table of styles.\<close>

datatype logging_attribute = Level int | FormatText string | StyleTable

definition LOGGING_ATTRIBUTES :: "(string \<times> logging_attribute) list" where
  "LOGGING_ATTRIBUTES =
     [(''CRITICAL'', Level 50), (''FATAL'', Level 50), (''ERROR'', Level 40), (''WARNING'', Level 30),
      (''WARN'', Level 30), (''INFO'', Level 20), (''DEBUG'', Level 10), (''NOTSET'', Level 0),
      (''BASIC_FORMAT'', FormatText ''%(levelname)s:%(name)s:%(message)s''), (''_STYLES'', StyleTable)]"

definition INFO :: int where "INFO = 20"
definition ERROR :: int where "ERROR = 40"

text \<open>
  The level the root logger gets. \<^verbatim>\<open>basicConfig\<close> takes an integer as it is, refuses a text that is not
  the name of a level with \<^verbatim>\<open>ValueError\<close> and anything else with \<^verbatim>\<open>TypeError\<close>.
\<close>

definition set_level :: "logging_attribute \<Rightarrow> int result" where
  "set_level attribute =
     (case attribute of
        Level n \<Rightarrow> Inr n
      | FormatText s \<Rightarrow> Inl (ValueError (''Unknown level: '' @ py_repr (JStr s)))
      | StyleTable \<Rightarrow> Inl TypeError)"

definition setup_logging :: "environ \<Rightarrow> int result" where
  "setup_logging env =
     (let level = upper (case env ''FINGERPRINTHUB_LOG_LEVEL'' of None \<Rightarrow> ''INFO'' | Some l \<Rightarrow> l)
      in set_level (case map_of LOGGING_ATTRIBUTES level of None \<Rightarrow> Level INFO | Some a \<Rightarrow> a))"

lemma set_level_cases:
  "set_level a = Inr n \<longleftrightarrow> a = Level n"
  by (cases a) (simp_all add: set_level_def)

lemma setup_logging_unset: "env ''FINGERPRINTHUB_LOG_LEVEL'' = None \<Longrightarrow> setup_logging env = Inr INFO"
  by (simp add: setup_logging_def upper_def upper_char_def LOGGING_ATTRIBUTES_def set_level_def INFO_def)

text \<open>Every level the set-up accepts is one of the module's.\<close>

lemma setup_logging_level:
  assumes "setup_logging env = Inr level"
  shows "level \<in> {0, 10, 20, 30, 40, 50}"
proof -
  define name where "name = upper (case env ''FINGERPRINTHUB_LOG_LEVEL'' of None \<Rightarrow> ''INFO'' | Some l \<Rightarrow> l)"
  have "(case map_of LOGGING_ATTRIBUTES name of None \<Rightarrow> Level INFO | Some a \<Rightarrow> a) = Level level"
    using assms by (simp add: setup_logging_def name_def set_level_cases)
  then have "level = INFO \<or> (name, Level level) \<in> set LOGGING_ATTRIBUTES"
    by (auto dest: map_of_SomeD split: option.splits)
  then show ?thesis by (auto simp: LOGGING_ATTRIBUTES_def INFO_def)
qed

section \<open>Records\<close>

text \<open>
  What the program logs with \<^verbatim>\<open>logger.exception\<close>: the logger's name and the message; the exception of
  a handler is part of its message.
\<close>

datatype log_message =
    ErrorIn string exn
  | DatabaseUnavailable string string
  | UnhandledError string string

record log_record =
  lg_name :: string
  lg_level :: int
  lg_message :: log_message

definition emitted :: "int \<Rightarrow> log_record list \<Rightarrow> log_record list" where
  "emitted level records = filter (\<lambda>r. level \<le> lg_level r) records"

end
