(* ===== verification/Http_App.thy ===== *)
theory Http_App
  imports Handlers Postgres_Runtime Row_Lifecycle Process_Log
begin

text \<open>
  \<^verbatim>\<open>api/app.py\<close> and \<^verbatim>\<open>main.py\<close>: the route table, the error middleware around the authentication
  middleware around the handlers, and the start of the process. Which registered route a request
  matches is aiohttp's decision and part of the request's surroundings here.
\<close>

section \<open>Routes\<close>

datatype endpoint = Health | Sync | Stats | Contribute | Browse | Hit | Flag | Detail | Delete

text \<open>
  \<^verbatim>\<open>router.add_get\<close> registers the handler for \<^verbatim>\<open>HEAD\<close> as well (its default \<^verbatim>\<open>allow_head\<close>); the server then
  sends the answer without its body.
\<close>

definition add_get :: "string \<Rightarrow> endpoint \<Rightarrow> ((string \<times> string) \<times> endpoint) list" where
  "add_get path e = [((''HEAD'', path), e), ((''GET'', path), e)]"

definition ROUTES :: "((string \<times> string) \<times> endpoint) list" where
  "ROUTES =
     add_get ''/v1/health'' Health @ add_get ''/v1/fingerprints/sync'' Sync
     @ add_get ''/v1/fingerprints/stats'' Stats @ [((''POST'', ''/v1/fingerprints''), Contribute)]
     @ add_get ''/v1/fingerprints'' Browse @ [((''POST'', ''/v1/fingerprints/{id}/hit''), Hit),
       ((''POST'', ''/v1/fingerprints/{id}/flag''), Flag)]
     @ add_get ''/v1/fingerprints/{id}'' Detail @ [((''DELETE'', ''/v1/fingerprints/{id}''), Delete)]"

text \<open>The match: a registered (method, pattern), or the status of aiohttp's own answer (404, 405).\<close>

datatype matched_route = Matched "string \<times> string" | Unmatched int

fun endpoint_handler ::
  "endpoint \<Rightarrow> service \<Rightarrow> surroundings \<Rightarrow> consumer_view \<Rightarrow> request \<Rightarrow> db \<Rightarrow> response result \<times> db"
where
  "endpoint_handler Health sv t consumer rq db = health t rq db"
| "endpoint_handler Sync sv t consumer rq db = sync_fingerprints sv t consumer rq db"
| "endpoint_handler Stats sv t consumer rq db = stats_handler sv t consumer rq db"
| "endpoint_handler Contribute sv t consumer rq db = contribute_fingerprint sv t consumer rq db"
| "endpoint_handler Browse sv t consumer rq db = list_handler sv t consumer rq db"
| "endpoint_handler Hit sv t consumer rq db = report_hit_handler sv t consumer rq db"
| "endpoint_handler Flag sv t consumer rq db = flag_fingerprint sv t consumer rq db"
| "endpoint_handler Detail sv t consumer rq db = get_fingerprint sv t consumer rq db"
| "endpoint_handler Delete sv t consumer rq db = delete_fingerprint sv t consumer rq db"

text \<open>
  A request on a public path has no consumer; \<open>KeyError\<close> is \<^verbatim>\<open>request[CONSUMER_KEY]\<close> without one.
\<close>

definition dispatch ::
  "service \<Rightarrow> surroundings \<Rightarrow> matched_route \<Rightarrow> consumer_view option \<Rightarrow> request \<Rightarrow> db
   \<Rightarrow> response result \<times> db"
where
  "dispatch sv t route consumer rq db =
     (case route of
        Unmatched st \<Rightarrow> (Inr \<lparr>rs_status = st, rs_payload = Text []\<rparr>, db)
      | Matched mp \<Rightarrow>
          (case map_of ROUTES mp of
             None \<Rightarrow> (Inr \<lparr>rs_status = 404, rs_payload = Text []\<rparr>, db)
           | Some Health \<Rightarrow> health t rq db
           | Some e \<Rightarrow>
               (case consumer of
                  None \<Rightarrow> (Inl KeyError, db)
                | Some c \<Rightarrow> endpoint_handler e sv t c rq db)))"

section \<open>Middlewares\<close>

text \<open>
  aiohttp's own exceptions are responses and pass: the scope check's 403, and the 413 that reading a
  body over the size limit raises.
\<close>

definition error_middleware :: "response result \<Rightarrow> response" where
  "error_middleware r =
     (case r of
        Inr resp \<Rightarrow> resp
      | Inl (HTTPForbidden body) \<Rightarrow> \<lparr>rs_status = 403, rs_payload = Text body\<rparr>
      | Inl HTTPRequestEntityTooLarge \<Rightarrow> \<lparr>rs_status = 413, rs_payload = Text []\<rparr>
      | Inl OperationalError \<Rightarrow> error_response ''database temporarily unavailable'' 503
      | Inl _ \<Rightarrow> error_response ''internal server error'' 500)"

definition serve ::
  "service \<Rightarrow> surroundings \<Rightarrow> matched_route \<Rightarrow> request \<Rightarrow> limiter \<Rightarrow> db
   \<Rightarrow> response \<times> limiter \<times> db"
where
  "serve sv t route rq L db =
     (case auth_middleware (rate_limit_per_minute (sv_config sv)) (dispatch sv t route) t rq L db of
        (r, L1, db1) \<Rightarrow> (error_middleware r, L1, db1))"

section \<open>The process\<close>

definition create_app_from_environment ::
  "(postgres_settings \<Rightarrow> exn option) \<Rightarrow> environ \<Rightarrow> string list \<Rightarrow> schema_answers result
   \<Rightarrow> pool_process \<Rightarrow> (service_config \<times> nat) result \<times> pool_process"
where
  "create_app_from_environment new_pool_error env expected_heads answers s =
     (case setup_logging env of
        Inl e \<Rightarrow> (Inl e, s)
      | Inr level \<Rightarrow>
          (let cfg = load_config_from_env env; pg = postgres_config cfg in
           case validate_postgres_runtime env pg expected_heads answers of
             Inl e \<Rightarrow> (Inl e, s)
           | Inr info \<Rightarrow>
               (case get_postgres_pool new_pool_error env pg s of
                  (Inl e, s1) \<Rightarrow> (Inl e, s1)
                | (Inr pool, s1) \<Rightarrow> (Inr (cfg, pool), s1))))"

text \<open>\<open>main\<close>: once the application exists, the pool is closed however serving ends.\<close>

definition main ::
  "(postgres_settings \<Rightarrow> exn option) \<Rightarrow> environ \<Rightarrow> string list \<Rightarrow> schema_answers result
   \<Rightarrow> (service_config \<Rightarrow> unit result) \<Rightarrow> pool_process \<Rightarrow> unit result \<times> pool_process"
where
  "main new_pool_error env expected_heads answers run_app s =
     (case create_app_from_environment new_pool_error env expected_heads answers s of
        (Inl e, s1) \<Rightarrow> (Inl e, s1)
      | (Inr (cfg, pool), s1) \<Rightarrow> (run_app cfg, close_postgres_pool s1))"

section \<open>Scopes of the endpoints\<close>

fun required_scope :: "endpoint \<Rightarrow> string option" where
  "required_scope Health = None"
| "required_scope Sync = Some ''read''"
| "required_scope Stats = Some ''admin''"
| "required_scope Contribute = Some ''write''"
| "required_scope Browse = Some ''read''"
| "required_scope Hit = Some ''write''"
| "required_scope Flag = Some ''write''"
| "required_scope Detail = Some ''read''"
| "required_scope Delete = Some ''write''"

lemma require_scope_refused:
  "scope \<notin> set (cv_scopes c) \<Longrightarrow>
    require_scope c scope = Inl (HTTPForbidden (''{\"error\": \"missing required scope: '' @ scope @ ''\"}''))"
  by (simp add: require_scope_def)

lemma require_scope_granted: "scope \<in> set (cv_scopes c) \<Longrightarrow> require_scope c scope = Inr ()"
  by (simp add: require_scope_def)

lemmas handler_defs = sync_fingerprints_def stats_handler_def contribute_fingerprint_def
  list_handler_def report_hit_handler_def flag_fingerprint_def get_fingerprint_def delete_fingerprint_def

lemma endpoint_refused:
  assumes "required_scope e = Some scope" "scope \<notin> set (cv_scopes c)"
  shows "endpoint_handler e sv t c rq db
    = (Inl (HTTPForbidden (''{\"error\": \"missing required scope: '' @ scope @ ''\"}'')), db)"
  using assms by (cases e) (auto simp: handler_defs require_scope_refused)

text \<open>What each reading endpoint does to the database: nothing.\<close>

lemma reading_endpoint:
  assumes "e \<in> {Health, Sync, Stats, Browse, Detail}"
  shows "snd (endpoint_handler e sv t c rq db) = db"
  using assms
  by (auto simp: health_def handler_defs Let_def split: sum.split option.split prod.split)

section \<open>A request is a sequence of store operations\<close>

text \<open>
  Every request, whatever its surroundings, moves the database by store operations under the
  service's configuration; so what holds of all reachable hub states holds while the service runs.
\<close>

definition hub_steps :: "crypto \<Rightarrow> int \<Rightarrow> db \<Rightarrow> db \<Rightarrow> bool" where
  "hub_steps K threshold = (hub_step K threshold)\<^sup>*\<^sup>*"

lemma hub_steps_refl [simp]: "hub_steps K t db db"
  by (simp add: hub_steps_def)

lemma hub_steps_one: "hub_step K t db db' \<Longrightarrow> hub_steps K t db db'"
  by (simp add: hub_steps_def)

lemma hub_steps_trans: "hub_steps K t a b \<Longrightarrow> hub_steps K t b c \<Longrightarrow> hub_steps K t a c"
  unfolding hub_steps_def by (rule rtranclp_trans)

lemma hub_steps_inv: "hub_steps K t a b \<Longrightarrow> 1 \<le> t \<Longrightarrow> hub_inv t a \<Longrightarrow> hub_inv t b"
  unfolding hub_steps_def by (induction rule: rtranclp_induct) (auto intro: hub_step_inv)

abbreviation sv_threshold :: "service \<Rightarrow> int" where
  "sv_threshold sv \<equiv> auto_hide_flag_threshold (sv_config sv)"

lemma endpoint_steps:
  assumes others: "hub_steps (sv_crypto sv) (sv_threshold sv) db (su_others t db)"
  shows "hub_steps (sv_crypto sv) (sv_threshold sv) db (snd (endpoint_handler e sv t c rq db))"
proof (cases "e \<in> {Health, Sync, Stats, Browse, Detail}")
  case True
  then show ?thesis by (simp add: reading_endpoint)
next
  case False
  let ?K = "sv_crypto sv" and ?t = "sv_threshold sv"
  have con: "hub_steps ?K ?t db (snd (contribute ?K up ns cn db))" for up ns cn
    by (rule hub_steps_one [OF hub_step.contributes])
  have hit: "hub_steps ?K ?t db (snd (report_hit ?K up n i cid g d now db))" for up n i cid g d now
    by (rule hub_steps_one [OF hub_step.reports_hit])
  have flg: "hub_steps ?K ?t db (snd (flag ?K up n i cid r now ?t db))" for up n i cid r now
    by (rule hub_steps_one [OF hub_step.flags])
  have del: "hub_steps ?K ?t db (snd (soft_delete up i now (su_others t db)))" for up i now
    by (rule hub_steps_trans [OF others hub_steps_one [OF hub_step.deletes]])
  from False consider "e = Contribute" | "e = Hit" | "e = Flag" | "e = Delete" by (cases e) auto
  then show ?thesis
  proof cases
    case 1
    show ?thesis
      using con [of "su_up t 2" "su_nonces t"] unfolding 1
      by (auto simp: contribute_fingerprint_def split: sum.split parsed_body.split prod.split option.split)
        (metis snd_conv)+
  next
    case 2
    show ?thesis
      using hit [of "su_up t 2" "fst (su_nonces t)"] unfolding 2
      by (auto simp: report_hit_handler_def split: sum.split prod.split option.split) (metis snd_conv)+
  next
    case 3
    show ?thesis
      using flg [of "su_up t 2" "fst (su_nonces t)"] unfolding 3
      by (auto simp: flag_fingerprint_def split: sum.split prod.split option.split) (metis snd_conv)+
  next
    case 4
    show ?thesis
      using del [of "su_up t 3"] unfolding 4
      by (auto simp: delete_fingerprint_def split: sum.split prod.split option.split) (metis snd_conv)+
  qed
qed

lemma mark_last_seen_steps: "hub_steps K th db (snd (mark_last_seen t c L db))"
  by (simp add: mark_last_seen_def hub_steps_one [OF hub_step.touches])

lemma dispatch_steps:
  assumes "\<And>db. hub_steps (sv_crypto sv) (sv_threshold sv) db (su_others t db)"
  shows "hub_steps (sv_crypto sv) (sv_threshold sv) db (snd (dispatch sv t route c rq db))"
  using endpoint_steps [OF assms]
  by (auto simp: dispatch_def health_def split: matched_route.split option.split endpoint.split sum.split)
    (metis endpoint_handler.simps)+

lemma auth_middleware_steps:
  assumes h: "\<And>c db. hub_steps K th db (snd (handler c rq db))"
  shows "hub_steps K th db (snd (snd (auth_middleware rl handler t rq L db)))"
proof -
  have run: "hub_steps K th db (snd (handler c rq (snd (mark_last_seen t v L1 db))))" for c v L1
    by (rule hub_steps_trans [OF mark_last_seen_steps h])
  show ?thesis
    using h run
    by (simp add: auth_middleware_def case_prod_unfold Let_def split: option.split sum.split)
qed

lemma serve_steps:
  assumes "\<And>db. hub_steps (sv_crypto sv) (sv_threshold sv) db (su_others t db)"
  shows "hub_steps (sv_crypto sv) (sv_threshold sv) db (snd (snd (serve sv t route rq L db)))"
  using auth_middleware_steps [of "sv_crypto sv" "sv_threshold sv" "dispatch sv t route" rq db
      "rate_limit_per_minute (sv_config sv)" t L] dispatch_steps [OF assms]
  by (simp add: serve_def case_prod_unfold)

section \<open>Authentication\<close>

text \<open>The key a request presents identifies an enabled consumer.\<close>

definition authenticated :: "request \<Rightarrow> db \<Rightarrow> consumer_view option" where
  "authenticated rq db =
     (case rq_api_key rq of
        None \<Rightarrow> None
      | Some api_key \<Rightarrow>
          if api_key = [] then None
          else
            (case find_by_key_hash True (hash_api_key api_key) db of
               Inr (Some consumer) \<Rightarrow> if \<not> cv_enabled consumer then None else Some consumer
             | _ \<Rightarrow> None))"

lemma find_by_key_hash_True:
  "find_by_key_hash True (hash_api_key k) db
    = Inr (map_option consumer_view_of
        (List.find (\<lambda>c. cons_api_key_hash c = hash_api_key k) (consumers db)))"
  by (simp add: find_by_key_hash_def pg_text_hash)

lemma unauthenticated_refused:
  assumes "rq_path rq \<notin> set PUBLIC_PATHS" "su_up t 0" "authenticated rq db = None"
  shows "\<exists>m. auth_middleware rl handler t rq L db = (Inr (error_response m 401), L, db)"
  using assms
  by (auto simp: auth_middleware_def authenticated_def find_by_key_hash_True split: option.splits if_splits)

lemma authenticated_runs:
  assumes "rq_path rq \<notin> set PUBLIC_PATHS" "su_up t 0" "authenticated rq db = Some c"
  shows "auth_middleware rl handler t rq L db =
    (let (limited, L1) = rate_limited rl (cv_id c) (su_monotonic t) L in
     if limited then (Inr (error_response ''rate limit exceeded'' 429), L1, db)
     else
       (let (L2, db1) = mark_last_seen t c L1 db; (r, db2) = handler (Some c) rq db1
        in (r, L2, db2)))"
proof -
  obtain k where k: "rq_api_key rq = Some k" "k \<noteq> []"
    "find_by_key_hash True (hash_api_key k) db = Inr (Some c)" "cv_enabled c"
    using assms(3) by (auto simp: authenticated_def split: option.splits sum.splits if_splits)
  then show ?thesis using assms(1,2) by (simp add: auth_middleware_def)
qed

lemma lookup_unreachable:
  assumes "rq_path rq \<notin> set PUBLIC_PATHS" "\<not> su_up t 0" "authenticated rq db = Some c"
  shows "auth_middleware rl handler t rq L db = (Inl OperationalError, L, db)"
  using assms by (auto simp: auth_middleware_def authenticated_def find_by_key_hash_def split: option.splits if_splits)

text \<open>The last-seen update changes nothing but the consumer's last-seen time.\<close>

lemma mark_last_seen_tables:
  "fingerprints (snd (mark_last_seen t c L db)) = fingerprints db"
  "fingerprint_hits (snd (mark_last_seen t c L db)) = fingerprint_hits db"
  "fingerprint_flags (snd (mark_last_seen t c L db)) = fingerprint_flags db"
  "fingerprints_sync_seq (snd (mark_last_seen t c L db)) = fingerprints_sync_seq db"
  by (simp_all add: mark_last_seen_def touch_last_seen_def with_connection_def transaction_def
      touch_last_seen_txn_def)

end
