(* ===== verification/Api_Lemmas.thy ===== *)
theory Api_Lemmas
  imports Http_App Store_Outcomes
begin

text \<open>
  Lemmas on the handlers for the properties of the API: what a non-administrator's responses depend
  on, what the delete handler can delete, which bodies a contribution accepts, and what an owner
  reads back.
\<close>

section \<open>What sync depends on\<close>

lemma map_insort_key: "map f (insort_key (\<lambda>x. k (f x)) x xs) = insort_key k (f x) (map f xs)"
  by (induction xs) auto

lemma map_sort_key: "map f (sort_key (\<lambda>x. k (f x)) xs) = sort_key k (map f xs)"
  by (induction xs) (auto simp: map_insort_key)

text \<open>The columns of a row that a peer gets, and whether the row is consumer \<open>q\<close>'s own.\<close>

definition seen_row :: "int \<Rightarrow> fingerprint_row \<Rightarrow> sync_row \<times> bool" where
  "seen_row q r = (sync_columns r, fp_consumer_id r = q)"

definition seen_where :: "int \<Rightarrow> sync_filter \<Rightarrow> sync_row \<times> bool \<Rightarrow> bool" where
  "seen_where since flt e \<longleftrightarrow>
     (case flt of (a, v, n) \<Rightarrow> since < sy_sync_seq (fst e) \<and> \<not> snd e
        \<and> matches a (sy_algorithm (fst e)) \<and> matches v (sy_algorithm_version (fst e))
        \<and> matches n (sy_normalization_version (fst e)))"

lemma sync_selects_seen:
  "map sync_columns (filter (sync_where q since a v n) rs)
    = map fst (filter (seen_where since (a, v, n)) (map (seen_row q) rs))"
  by (induction rs) (auto simp: sync_where_def seen_where_def seen_row_def sync_columns_def)

lemma sync_seen_cong:
  assumes "map (seen_row q) (fingerprints db1) = map (seen_row q) (fingerprints db2)"
  shows "sync up q since limit a v n db1 = sync up q since limit a v n db2"
proof -
  have eq: "map sync_columns (take k (sort_key fp_sync_seq (filter (sync_where q since a v n) (fingerprints db))))
    = take k (sort_key sy_sync_seq (map fst (filter (seen_where since (a, v, n)) (map (seen_row q) (fingerprints db)))))" for k db
  proof -
    have "map sync_columns (sort_key fp_sync_seq rs) = sort_key sy_sync_seq (map sync_columns rs)" for rs
      using map_sort_key [of sync_columns sy_sync_seq rs] by simp
    then show ?thesis by (simp only: take_map [symmetric] sync_selects_seen)
  qed
  show ?thesis unfolding sync_def eq assms ..
qed

section \<open>What a consumer can tell apart\<close>

text \<open>
  Two databases look alike to a consumer when they have the consumer's own rows in common and agree
  on the nine peer columns of the rows of others; who the others are, and all other columns of their
  rows, may differ, and so may the other tables.
\<close>

definition alike :: "consumer_view \<Rightarrow> fingerprint_row \<Rightarrow> fingerprint_row \<Rightarrow> bool" where
  "alike c r1 r2 \<longleftrightarrow> (if fp_consumer_id r1 = cv_id c then r1 = r2
     else fp_consumer_id r2 \<noteq> cv_id c \<and> sync_columns r1 = sync_columns r2)"

definition look_alike :: "consumer_view \<Rightarrow> db \<Rightarrow> db \<Rightarrow> bool" where
  "look_alike c db1 db2 \<longleftrightarrow> list_all2 (alike c) (fingerprints db1) (fingerprints db2)"

lemma alike_seen: "alike c r1 r2 \<Longrightarrow> seen_row (cv_id c) r1 = seen_row (cv_id c) r2"
  by (auto simp: alike_def seen_row_def split: if_splits)

lemma alike_columns: "alike c r1 r2 \<Longrightarrow> sync_columns r1 = sync_columns r2 \<and> fp_id r1 = fp_id r2 \<and> fp_status r1 = fp_status r2
    \<and> (fp_consumer_id r1 = cv_id c \<longleftrightarrow> fp_consumer_id r2 = cv_id c)"
  by (auto simp: alike_def sync_columns_def split: if_splits)

lemma look_alike_seen:
  "look_alike c db1 db2 \<Longrightarrow> map (seen_row (cv_id c)) (fingerprints db1) = map (seen_row (cv_id c)) (fingerprints db2)"
  unfolding look_alike_def by (induction rule: list_all2_induct) (auto dest: alike_seen)

lemma alike_detail:
  assumes "alike c r1 r2" "\<not> is_admin c"
  shows "detail_fp K c r1 = detail_fp K c r2" "can_see_secrets c r1 = can_see_secrets c r2"
    "fp_status r1 = fp_status r2"
proof -
  note e = alike_columns [OF assms(1)]
  show "fp_status r1 = fp_status r2" using e by simp
  show see: "can_see_secrets c r1 = can_see_secrets c r2" using e by (simp add: can_see_secrets_def)
  show "detail_fp K c r1 = detail_fp K c r2"
  proof (cases "fp_consumer_id r1 = cv_id c")
    case True
    then show ?thesis using assms(1) by (simp add: alike_def)
  next
    case False
    then have "\<not> can_see_secrets c r1" using assms(2) by (simp add: can_see_secrets_def)
    then show ?thesis using see e by (simp add: detail_fp_def)
  qed
qed

lemma look_alike_select:
  assumes "look_alike c db1 db2"
  shows "rel_option (alike c) (select_fp i db1) (select_fp i db2)"
proof -
  have "list_all2 (alike c) xs ys \<Longrightarrow>
      rel_option (alike c) (List.find (\<lambda>r. fp_id r = i) xs) (List.find (\<lambda>r. fp_id r = i) ys)" for xs ys
  proof (induction rule: list_all2_induct)
    case (Cons x xs y ys)
    then show ?case using alike_columns [OF Cons(1)] by simp
  qed simp
  then show ?thesis using assms by (simp add: look_alike_def select_fp_def)
qed

lemma look_alike_own:
  assumes "look_alike c db1 db2" "\<And>r. P r \<Longrightarrow> fp_consumer_id r = cv_id c"
  shows "filter P (fingerprints db1) = filter P (fingerprints db2)"
proof -
  have own: "P r1 = P r2 \<and> (P r1 \<longrightarrow> r1 = r2)" if "alike c r1 r2" for r1 r2
    using that assms(2) [of r1] assms(2) [of r2] alike_columns [OF that]
    by (auto simp: alike_def split: if_splits)
  have "list_all2 (alike c) xs ys \<Longrightarrow> filter P xs = filter P ys" for xs ys
    by (induction rule: list_all2_induct) (use own in auto)
  then show ?thesis using assms(1) by (simp add: look_alike_def)
qed

lemma get_alike:
  assumes la: "look_alike c db1 db2" and na: "\<not> is_admin c"
  shows "fst (get_fingerprint sv t c rq db1) = fst (get_fingerprint sv t c rq db2)"
proof (cases "require_scope c ''read''")
  case (Inr u)
  show ?thesis
  proof (cases "path_id rq")
    case (Some i)
    from look_alike_select [OF la, of i] show ?thesis
    proof (cases rule: option.rel_cases)
      case None
      then show ?thesis using Inr Some by (simp add: get_fingerprint_def get_def split: sum.split)
    next
      case (Some r1 r2)
      note d = alike_detail [OF Some(3) na]
      show ?thesis
        using Inr \<open>path_id rq = Some i\<close> Some(1,2) d
        by (simp add: get_fingerprint_def get_def split: sum.split)
    qed
  qed (use Inr in \<open>simp add: get_fingerprint_def\<close>)
qed (simp add: get_fingerprint_def)

lemma list_alike:
  assumes la: "look_alike c db1 db2" and na: "\<not> is_admin c"
  shows "fst (list_handler sv t c rq db1) = fst (list_handler sv t c rq db2)"
proof -
  have "list_fingerprints up cat alg (Some (cv_id c)) h limit offset db1
      = list_fingerprints up cat alg (Some (cv_id c)) h limit offset db2" for up cat alg h limit offset
  proof -
    have "filter (list_where cat alg (Some (cv_id c)) h) (fingerprints db1)
        = filter (list_where cat alg (Some (cv_id c)) h) (fingerprints db2)"
      by (rule look_alike_own [OF la]) (simp add: list_where_def)
    then show ?thesis by (simp add: list_fingerprints_def)
  qed
  moreover have "list_consumer c rq = Inr cid \<Longrightarrow> cid = Some (cv_id c)" for cid
    using na by (auto simp: list_consumer_def Let_def split: option.splits if_splits)
  ultimately show ?thesis
    by (auto simp: list_handler_def Let_def split: sum.split option.split)
qed

lemma reads_alike:
  assumes la: "look_alike c db1 db2" and na: "\<not> is_admin c"
    and e: "e \<in> {Health, Sync, Stats, Browse, Detail}"
  shows "fst (endpoint_handler e sv t c rq db1) = fst (endpoint_handler e sv t c rq db2)"
proof -
  have "fst (sync_fingerprints sv t c rq db1) = fst (sync_fingerprints sv t c rq db2)"
    using sync_seen_cong [OF look_alike_seen [OF la]]
    by (auto simp: sync_fingerprints_def Let_def split: sum.split option.split prod.split)
  moreover have "fst (stats_handler sv t c rq db1) = fst (stats_handler sv t c rq db2)"
    using na require_scope_refused [of "''admin''" c] by (simp add: stats_handler_def is_admin_def)
  moreover have "fst (health t rq db1) = fst (health t rq db2)"
    by (simp add: health_def split: sum.split)
  ultimately show ?thesis using e get_alike [OF la na] list_alike [OF la na] by auto
qed

section \<open>Who can delete\<close>

text \<open>
  The handler checks the owner it read, then deletes in a second transaction. Between the two the
  owner of a row cannot change, and an id is never given to a second row, so the check still holds
  of the row that is deleted.
\<close>

definition owners_kept :: "db \<Rightarrow> db \<Rightarrow> bool" where
  "owners_kept db db' \<longleftrightarrow> (\<forall>r' \<in> set (fingerprints db').
     (\<exists>r \<in> set (fingerprints db). fp_id r = fp_id r' \<and> fp_consumer_id r = fp_consumer_id r')
     \<or> fingerprints_id_seq db \<le> fp_id r')"

lemma owners_kept_same: "fingerprints db' = fingerprints db \<Longrightarrow> owners_kept db db'"
  by (auto simp: owners_kept_def)

lemma owners_kept_trans:
  assumes "owners_kept a b" "owners_kept b c" "fingerprints_id_seq a \<le> fingerprints_id_seq b"
  shows "owners_kept a c"
  unfolding owners_kept_def
proof (intro ballI)
  fix r'' assume "r'' \<in> set (fingerprints c)"
  then consider r' where "r' \<in> set (fingerprints b)" "fp_id r' = fp_id r''"
      "fp_consumer_id r' = fp_consumer_id r''" | "fingerprints_id_seq b \<le> fp_id r''"
    using assms(2) unfolding owners_kept_def by blast
  then show "(\<exists>r \<in> set (fingerprints a). fp_id r = fp_id r'' \<and> fp_consumer_id r = fp_consumer_id r'')
     \<or> fingerprints_id_seq a \<le> fp_id r''"
  proof cases
    case 1
    then show ?thesis using assms(1) unfolding owners_kept_def by metis
  next
    case 2
    then show ?thesis using assms(3) by linarith
  qed
qed

lemma owners_kept_connection:
  assumes "\<And>x. fst (body db) = Inr x \<Longrightarrow> owners_kept db (snd (body db))"
  shows "owners_kept db (snd (with_connection up (transaction fr body) db))"
  by (rule connection_inv [where P = "owners_kept db"]) (use assms in \<open>auto simp: owners_kept_def\<close>)

lemma owners_kept_update:
  assumes "fingerprints db1 = fingerprints db"
    and "\<And>r. fp_id (f r) = fp_id r \<and> fp_consumer_id (f r) = fp_consumer_id r"
  shows "owners_kept db (update_fp i f db1)"
  unfolding owners_kept_def set_update_fp assms(1) using assms(2) by auto

lemma contribute_owners: "owners_kept db (snd (contribute K up nonces c db))"
proof -
  have ins: "owners_kept db db'" if "insert_fp v db = (Inr x, db')" for v x db'
    using that by (cases rule: insert_fp_cases) (auto simp: owners_kept_def)
  have res: "owners_kept db db'" if "resurrect c er eu eg i db = (Inr x, db')" for er eu eg i x db'
    using that by (cases rule: resurrect_cases) (auto intro!: owners_kept_update)
  have body: "owners_kept db (snd (contribute_txn c er eu eg db))"
    if "fst (contribute_txn c er eu eg db) = Inr x" for er eu eg x
    using that ins res owners_kept_same [of db db]
    by (auto simp: contribute_txn_def split: if_splits prod.splits sum.splits option.splits)
  have "owners_kept db (snd (with_connection up (transaction False (contribute_txn c er eu eg)) db))"
    for er eu eg by (rule owners_kept_connection) (rule body)
  then show ?thesis
    using owners_kept_same [of db db] by (auto simp: contribute_def split: sum.split)
qed

lemma hub_step_owners:
  assumes step: "hub_step K th db db'" and ok: "db_ok db"
  shows "owners_kept db db'"
  using step
proof (cases rule: hub_step.cases)
  case (contributes up nonces c)
  then show ?thesis by (simp add: contribute_owners)
next
  case (reports_hit up nonce fpid cid guild distance now)
  have "owners_kept db y" if "report_hit_txn K nonce fpid cid guild distance now db = (Inr x, y)" for x y
    using that
  proof (cases rule: report_hit_txn_cases)
    case (recorded fp eg db1)
    then show ?thesis using insert_hit_ok(3) [OF ok recorded(4)] by (auto intro!: owners_kept_update)
  qed (auto intro: owners_kept_same)
  then show ?thesis
    unfolding reports_hit report_hit_def by (intro owners_kept_connection) (metis prod.collapse)
next
  case (flags up nonce fpid cid reason now)
  have "owners_kept db y" if "flag_txn K nonce fpid cid reason now th db = (Inr x, y)" for x y
    using that
  proof (cases rule: flag_txn_cases)
    case (hides fp er db1)
    then show ?thesis using insert_flag_ok(3) [OF ok hides(3)] by (auto intro!: owners_kept_update)
  next
    case (counts fp er db1)
    then show ?thesis using insert_flag_ok(3) [OF ok counts(3)] by (auto intro!: owners_kept_update)
  qed (auto intro: owners_kept_same)
  then show ?thesis
    unfolding flags flag_def by (intro owners_kept_connection) (metis prod.collapse)
next
  case (deletes up fpid now)
  have "owners_kept db (snd (soft_delete_txn fpid now db))"
    by (cases rule: soft_delete_txn_cases [of fpid now db])
      (auto intro: owners_kept_same intro!: owners_kept_update)
  then show ?thesis unfolding deletes soft_delete_def by (rule owners_kept_connection)
next
  case (retains up now p dry_run)
  have "feed_entry ` set (fingerprints db') \<subseteq> feed_entry ` set (fingerprints db)"
    by (rule retention_feed(1) [OF retains])
  then have "\<exists>r \<in> set (fingerprints db). feed_entry r' = feed_entry r" if "r' \<in> set (fingerprints db')" for r'
    using that by blast
  then show ?thesis unfolding owners_kept_def by (metis feed_entry_eqD(2,3))
next
  case (creates_consumer up token name scopes now)
  have "fingerprints db' = fingerprints db"
    using create_consumer_fingerprints unfolding creates_consumer by blast
  then show ?thesis by (rule owners_kept_same)
next
  case (touches up cid now)
  then show ?thesis
    by (intro owners_kept_same) (simp add: touch_last_seen_def with_connection_def transaction_def touch_last_seen_txn_def)
qed

lemma hub_steps_owners:
  assumes "hub_steps K th db db'" "db_ok db"
  shows "owners_kept db db' \<and> fingerprints_id_seq db \<le> fingerprints_id_seq db'"
proof -
  have "owners_kept db db' \<and> seqs_le db db' \<and> db_ok db'"
    using assms(1) unfolding hub_steps_def
  proof (induction rule: rtranclp_induct)
    case base
    then show ?case using assms(2) by (simp add: owners_kept_same)
  next
    case (step b c)
    then have ok: "db_ok b" by simp
    have "seqs_le b c" by (rule hub_step_seqs [OF step(2) ok])
    moreover have "db_ok c" by (rule hub_step_ok [OF step(2) ok])
    moreover have "owners_kept db c"
      by (rule owners_kept_trans [OF _ hub_step_owners [OF step(2) ok]])
        (use step.IH in \<open>auto simp: seqs_le_def\<close>)
    ultimately show ?case using step.IH by (auto intro: seqs_le_trans)
  qed
  then show ?thesis by (simp add: seqs_le_def)
qed

lemma delete_needs_authority:
  assumes ok: "db_ok db" and oth: "hub_steps K th db (su_others t db)"
    and r: "r \<in> set (fingerprints (su_others t db))" "path_id rq = Some (fp_id r)"
    and no: "\<not> (''write'' \<in> set (cv_scopes c) \<and> (fp_consumer_id r = cv_id c \<or> is_admin c))"
  shows "snd (delete_fingerprint sv t c rq db) = db"
proof (cases "''write'' \<in> set (cv_scopes c)")
  case False
  then show ?thesis by (simp add: delete_fingerprint_def require_scope_refused)
next
  case True
  then have na: "\<not> is_admin c" and other: "fp_consumer_id r \<noteq> cv_id c" using no by auto
  have "fp_consumer_id s = fp_consumer_id r"
    if s: "select_fp (fp_id r) db = Some s" for s
  proof -
    have s': "s \<in> set (fingerprints db)" "fp_id s = fp_id r" using select_fp_SomeD [OF s] by auto
    have "fp_id s < fingerprints_id_seq db" using ok s'(1) by (simp add: db_ok_def fingerprints_ok_def)
    then obtain r0 where "r0 \<in> set (fingerprints db)" "fp_id r0 = fp_id r"
      "fp_consumer_id r0 = fp_consumer_id r"
      using hub_steps_owners [OF oth ok] r(1) s'(2) unfolding owners_kept_def by fastforce
    then show ?thesis using same_id_same_row [OF ok s'(1)] s'(2) by metis
  qed
  then show ?thesis
    using True na other r(2)
    by (auto simp: delete_fingerprint_def require_scope_granted get_def split: option.split)
qed

section \<open>Which bodies a contribution accepts\<close>

lemma phash_exact:
  "PHASH_RE_match (lower (strip s)) \<longleftrightarrow>
    length (strip s) = 16 \<and> list_all is_lower_hex (lower (strip s))"
proof -
  let ?h = "lower (strip s)"
  have no_newline: "drop 16 ?h \<noteq> [char_of (10::nat)]"
  proof
    assume d: "drop 16 ?h = [char_of (10::nat)]"
    then have ne: "strip s \<noteq> []" by (auto simp: lower_def)
    have "?h = take 16 ?h @ [char_of (10::nat)]" using d append_take_drop_id [of 16 ?h] by simp
    then have "last ?h = char_of (10::nat)" by (metis last_snoc)
    moreover have "last ?h = lower_char (last (strip s))" using ne by (simp add: lower_def last_map)
    moreover have "is_space (char_of (10::nat))" by (simp add: is_space_def)
    ultimately have "is_space (last (strip s))" by (metis is_space_lower_char)
    then show False using last_strip ne by blast
  qed
  then show ?thesis
  proof (cases "length (strip s) = 16")
    case True
    then show ?thesis using no_newline by (simp add: PHASH_RE_match_def)
  next
    case False
    then show ?thesis using no_newline by (auto simp: PHASH_RE_match_def)
  qed
qed

end
