(* ===== verification/Api_Outcomes.thy ===== *)
theory Api_Outcomes
  imports Api_Lemmas
begin

text \<open>
  Whole responses: what a contributor reads back, what an outage answers, how the limits of a page
  are clamped, and what a browse returns.
\<close>

section \<open>Reading back one's own contribution\<close>

definition opt_text :: "string option \<Rightarrow> json" where
  "opt_text v = (case v of None \<Rightarrow> JNull | Some s \<Rightarrow> JStr s)"

lemma decrypt_shown_own:
  assumes "aead_correct (cr_aead K)" "cr_ring K = Inr ring" "keyring_ok ring"
    and "length nonce = NONCE_BYTES" "encrypt_field K nonce v = Inr e"
  shows "decrypt_shown K e = Inr (opt_text v)"
proof (cases v)
  case None
  then show ?thesis using assms(5) by (simp add: decrypt_shown_def opt_text_def)
next
  case (Some plain)
  have ring: "ring_of None (cr_ring K) = Inr ring" using assms(2) by (simp add: ring_of_def)
  obtain env where e: "e = Some env" using assms(5) Some by (cases e) (auto dest: encrypt_text_SomeD)
  have "decrypt_text (cr_aead K) (cr_ring K) None env = Inr plain"
    by (rule encrypt_decrypt [OF assms(1) ring assms(3,4)]) (use assms(5) Some e in simp)
  moreover have "is_encrypted_value env" using assms(5) e by (auto dest: encrypt_is_encrypted)
  ultimately show ?thesis using Some e by (simp add: decrypt_shown_def decrypt_text_field_def opt_text_def)
qed

lemma encrypt_field_null: "encrypt_field K nonce v = Inr e \<Longrightarrow> e = None \<longleftrightarrow> v = None"
proof (cases v)
  case None
  then show "encrypt_field K nonce v = Inr e \<Longrightarrow> e = None \<longleftrightarrow> v = None" by (simp add: encrypt_text_def)
next
  case (Some plain)
  then show "encrypt_field K nonce v = Inr e \<Longrightarrow> e = None \<longleftrightarrow> v = None" by (auto dest: encrypt_text_SomeD)
qed

lemma contribute_reads_back:
  assumes ok: "db_ok db" and scope: "''write'' \<in> set (cv_scopes c)"
    and body: "rq_body rq = BodyJson (JObj body)"
    and con: "contribution_of_body c (su_now_ms t) body = Inr con" "contribution_ok con db"
    and free: "\<not> (\<exists>r. live_contribution con db r)"
    and up: "su_up t 2"
    and K: "aead_correct (cr_aead (sv_crypto sv))" "cr_ring (sv_crypto sv) = Inr ring" "keyring_ok ring"
    and nonces: "length (fst (su_nonces t)) = NONCE_BYTES"
      "length (fst (snd (su_nonces t))) = NONCE_BYTES" "length (snd (snd (su_nonces t))) = NONCE_BYTES"
  shows "\<exists>d db' row. contribute_fingerprint sv t c rq db = (Inr (json_response (JObj d) 201), db')
    \<and> {r \<in> set (fingerprints db'). fp_id r = fp_id row} = {row}
    \<and> dict_get d ''id'' JNull = JInt (fp_id row)
    \<and> contributed con (fingerprints_sync_seq db) row \<and> fp_consumer_id row = cv_id c
    \<and> sealed_as (sv_crypto sv) (su_nonces t) con row
    \<and> pred_option is_encrypted_value (fp_reason row) \<and> (fp_reason row = None \<longleftrightarrow> con_reason con = None)
    \<and> pred_option is_encrypted_value (fp_source_url row) \<and> (fp_source_url row = None \<longleftrightarrow> con_source_url con = None)
    \<and> pred_option is_encrypted_value (fp_source_guild_id row)
    \<and> (fp_source_guild_id row = None \<longleftrightarrow> con_source_guild_id con = None)
    \<and> dict_get d ''reason'' JNull = opt_text (con_reason con)
    \<and> dict_get d ''source_url'' JNull = opt_text (con_source_url con)
    \<and> dict_get d ''source_guild_id'' JNull = opt_text (con_source_guild_id con)
    \<and> dict_get d ''phash_hex'' JNull = JStr (con_phash_hex con)
    \<and> dict_get d ''status'' JNull = JStr ''active''
    \<and> dict_get d ''sync_seq'' JNull = JInt (fingerprints_sync_seq db)"
proof -
  let ?K = "sv_crypto sv"
  obtain row db' where run: "contribute ?K True (su_nonces t) con db = (Inr (Some row, True), db')"
    and stored: "row \<in> set (fingerprints db')"
    and row: "contributed con (fingerprints_sync_seq db) row" "sealed_as ?K (su_nonces t) con row"
    using contribute_outcome_lemma [OF ok con(2) K(2,3), of "su_nonces t"] free by auto
  have cid: "fp_consumer_id row = cv_id c"
    using row(1) con(1) by (auto simp: contributed_def contribution_of_body_def Let_def
        split: if_splits option.splits)
  have "db_ok db'" using contribute_op.step_ok [OF ok, of ?K True "su_nonces t" con] run by simp
  then have only: "{r \<in> set (fingerprints db'). fp_id r = fp_id row} = {row}"
    using stored by (auto dest: same_id_same_row)
  have sealed: "encrypt_field ?K (fst (su_nonces t)) (con_reason con) = Inr (fp_reason row)"
    "encrypt_field ?K (fst (snd (su_nonces t))) (con_source_url con) = Inr (fp_source_url row)"
    "encrypt_field ?K (snd (snd (su_nonces t))) (con_source_guild_id con) = Inr (fp_source_guild_id row)"
    using row(2) by (simp_all add: sealed_as_def)
  note stored_null = sealed [THEN encrypt_field_sealed] sealed [THEN encrypt_field_null]
  have dec: "decrypt_shown ?K (fp_reason row) = Inr (opt_text (con_reason con))"
    "decrypt_shown ?K (fp_source_url row) = Inr (opt_text (con_source_url con))"
    "decrypt_shown ?K (fp_source_guild_id row) = Inr (opt_text (con_source_guild_id con))"
    using sealed by (auto intro: decrypt_shown_own [OF K] nonces)
  obtain d where d: "contribute_fingerprint sv t c rq db = (Inr (json_response (JObj d) 201), db')"
    "detail_fp ?K c row = Inr (JObj d)"
    using scope body con(1) up run dec cid
    by (simp add: contribute_fingerprint_def require_scope_granted parse_json_body_def detail_fp_def can_see_secrets_def)
  have "dict_get d ''id'' JNull = JInt (fp_id row)"
    "dict_get d ''reason'' JNull = opt_text (con_reason con)"
    "dict_get d ''source_url'' JNull = opt_text (con_source_url con)"
    "dict_get d ''source_guild_id'' JNull = opt_text (con_source_guild_id con)"
    "dict_get d ''phash_hex'' JNull = JStr (con_phash_hex con)" "dict_get d ''status'' JNull = JStr ''active''"
    "dict_get d ''sync_seq'' JNull = JInt (fingerprints_sync_seq db)"
    using d(2) dec cid row(1) by (auto simp: detail_fp_def can_see_secrets_def contributed_def)
  then show ?thesis
    using d(1) only row cid stored_null by (intro exI [of _ d] exI [of _ db'] exI [of _ row]) simp
qed

section \<open>Outages\<close>

lemma store_unreachable:
  "contribute K False nonces c db = (Inl e, db') \<Longrightarrow> db' = db"
  by (auto simp: contribute_def with_connection_def split: sum.splits)

lemma outage_response:
  assumes "rq_path rq \<notin> set PUBLIC_PATHS" "\<not> su_up t 0" "rq_api_key rq = Some k" "k \<noteq> []"
  shows "serve sv t route rq L db = (error_response ''database temporarily unavailable'' 503, L, db)"
  using assms by (simp add: serve_def auth_middleware_def find_by_key_hash_def error_middleware_def)

section \<open>Pages\<close>

lemma sync_handler_page:
  assumes scope: "''read'' \<in> set (cv_scopes c)" and up: "su_up t 2"
    and since: "py_int (query_or rq ''since'' ''0'') = Some since"
    and limit: "py_int (query_or rq ''limit'' (int_str (default_sync_limit (sv_config sv)))) = Some raw"
    and run: "sync_fingerprints sv t c rq db = (Inr resp, db')"
  shows "\<exists>rows nxt more. sync True (cv_id c) (max 0 since) (max 1 (min raw (max_sync_limit (sv_config sv))))
      (query_text rq ''algorithm'') (query_text rq ''algorithm_version'')
      (query_text rq ''normalization_version'') db = Inr (rows, nxt, more)
    \<and> resp = json_response (JObj [(''fingerprints'', JList (map peer_fp rows)),
        (''next_since'', JInt nxt), (''has_more'', JBool more)]) 200"
  using run scope up since limit
  by (auto simp: sync_fingerprints_def require_scope_granted Let_def split: sum.splits)

lemma list_rows:
  assumes "list_fingerprints up cat alg cid hidden limit offset db = Inr rows"
  shows "r \<in> set rows \<Longrightarrow> r \<in> set (fingerprints db) \<and> list_where cat alg cid hidden r"
    and "0 \<le> limit \<Longrightarrow> int (length rows) \<le> limit"
    and "sorted_wrt (\<ge>) (map fp_id rows)"
proof -
  let ?sel = "filter (list_where cat alg cid hidden) (fingerprints db)"
  have rows: "rows = take (nat limit) (drop (nat offset) (rev (sort_key fp_id ?sel)))"
    using assms by (auto simp: list_fingerprints_def split: if_splits)
  show "r \<in> set rows \<Longrightarrow> r \<in> set (fingerprints db) \<and> list_where cat alg cid hidden r"
    unfolding rows by (auto dest!: in_set_takeD in_set_dropD)
  show "0 \<le> limit \<Longrightarrow> int (length rows) \<le> limit" unfolding rows by simp
  have "sorted (map fp_id (sort_key fp_id ?sel))" by simp
  then have "sorted_wrt (\<ge>) (rev (map fp_id (sort_key fp_id ?sel)))" by (simp add: sorted_wrt_rev)
  then have "sorted_wrt (\<ge>) (map fp_id (rev (sort_key fp_id ?sel)))" by (simp add: rev_map)
  then show "sorted_wrt (\<ge>) (map fp_id rows)"
    unfolding rows take_map [symmetric] drop_map [symmetric] by (intro sorted_wrt_take sorted_wrt_drop)
qed

section \<open>Distances\<close>

lemma distance_infinite: "distance_of (JFloat (Infinite b)) = Inl OverflowError"
  by (simp add: distance_of_def)

end
