(* ===== verification/Rate_Limit.thy ===== *)
theory Rate_Limit
  imports Auth
begin

text \<open>
  What the sliding-window limiter of \<^verbatim>\<open>api/auth.py\<close> promises. The limiter drops what it no longer
  needs from its deques; the specification decides on the whole history of admitted requests. On
  clock readings that do not go back the two decide alike, and no consumer is admitted more often
  than the limit within any 60 seconds.
\<close>

text \<open>The requests a limiter admits from a sequence of (consumer, time).\<close>

fun admit :: "int \<Rightarrow> (int \<times> real) list \<Rightarrow> limiter \<Rightarrow> (int \<times> real) list" where
  "admit rate_limit [] L = []"
| "admit rate_limit ((c, now) # es) L =
     (case rate_limited rate_limit c now L of
        (True, L1) \<Rightarrow> admit rate_limit es L1
      | (False, L1) \<Rightarrow> (c, now) # admit rate_limit es L1)"

definition times_of :: "int \<Rightarrow> (int \<times> real) list \<Rightarrow> real list" where
  "times_of c A = map snd (filter (\<lambda>e. fst e = c) A)"

text \<open>The specification: refuse when the last 60 seconds hold \<open>rate_limit\<close> admitted requests.\<close>

definition spec_limited :: "int \<Rightarrow> int \<Rightarrow> real \<Rightarrow> (int \<times> real) list \<Rightarrow> bool" where
  "spec_limited rate_limit c now A \<longleftrightarrow>
     rate_limit \<le> int (length (filter (\<lambda>t. now - 60 \<le> t) (times_of c A)))"

fun admit_spec :: "int \<Rightarrow> (int \<times> real) list \<Rightarrow> (int \<times> real) list \<Rightarrow> (int \<times> real) list" where
  "admit_spec rate_limit [] A = []"
| "admit_spec rate_limit ((c, now) # es) A =
     (if spec_limited rate_limit c now A then admit_spec rate_limit es A
      else (c, now) # admit_spec rate_limit es (A @ [(c, now)]))"

section \<open>The limiter refines the specification\<close>

definition limiter_rel :: "real \<Rightarrow> (int \<times> real) list \<Rightarrow> limiter \<Rightarrow> bool" where
  "limiter_rel now A L \<longleftrightarrow> sorted (map snd A) \<and> (\<forall>e \<in> set A. snd e \<le> now)
     \<and> (\<forall>c. \<exists>m \<le> now - 60. request_times L c = filter (\<lambda>t. m \<le> t) (times_of c A))"

lemma dropWhile_sorted:
  "sorted ts \<Longrightarrow> dropWhile (\<lambda>t. t < cutoff) ts = filter (\<lambda>t. cutoff \<le> t) ts" for cutoff :: real
proof (induction ts)
  case (Cons a ts)
  show ?case
  proof (cases "cutoff \<le> a")
    case True
    then have "\<forall>t \<in> set (a # ts). cutoff \<le> t" using Cons.prems by auto
    then have "filter (\<lambda>t. cutoff \<le> t) (a # ts) = a # ts" by (intro filter_True) auto
    then show ?thesis using True by simp
  next
    case False
    then show ?thesis using Cons by simp
  qed
qed simp

lemma sorted_times: "sorted (map snd A) \<Longrightarrow> sorted (times_of c A)"
  unfolding times_of_def by (induction A) auto

lemma times_of_snoc: "times_of c (A @ [(c', t)]) = times_of c A @ (if c' = c then [t] else [])"
  by (simp add: times_of_def)

lemma limiter_rel_later: "limiter_rel now A L \<Longrightarrow> now \<le> later \<Longrightarrow> limiter_rel later A L"
  unfolding limiter_rel_def by (meson diff_right_mono order_trans)

lemma limiter_step:
  assumes rel: "limiter_rel now A L"
  shows "fst (rate_limited rate_limit c now L) = spec_limited rate_limit c now A"
    and "limiter_rel now (if spec_limited rate_limit c now A then A else A @ [(c, now)])
      (snd (rate_limited rate_limit c now L))"
proof -
  let ?W = "filter (\<lambda>t. now - 60 \<le> t) (times_of c A)"
  have srt: "sorted (map snd A)" and le: "\<forall>e \<in> set A. snd e \<le> now" using rel by (auto simp: limiter_rel_def)
  obtain m where m: "m \<le> now - 60" "request_times L c = filter (\<lambda>t. m \<le> t) (times_of c A)"
    using rel by (auto simp: limiter_rel_def)
  have "sorted (filter (\<lambda>t. m \<le> t) (times_of c A))"
    using sorted_times [OF srt, of c] sorted_filter [of "\<lambda>t. t" "times_of c A" "\<lambda>t. m \<le> t"] by simp
  then have "dropWhile (\<lambda>t. t < now - 60) (request_times L c)
      = filter (\<lambda>t. now - 60 \<le> t) (filter (\<lambda>t. m \<le> t) (times_of c A))"
    using m(2) dropWhile_sorted by simp
  also have "\<dots> = ?W" using m(1) by (auto simp: filter_filter intro: filter_cong)
  finally have win: "dropWhile (\<lambda>t. t < now - 60) (request_times L c) = ?W" .
  have run: "rate_limited rate_limit c now L =
    (if spec_limited rate_limit c now A
     then (True, L\<lparr>request_times := (request_times L)(c := ?W)\<rparr>)
     else (False, L\<lparr>request_times := (request_times L)(c := ?W @ [now])\<rparr>))"
    by (simp add: rate_limited_def win spec_limited_def Let_def)
  show "fst (rate_limited rate_limit c now L) = spec_limited rate_limit c now A" by (simp add: run)
  have others: "\<exists>m \<le> now - 60. request_times L c' = filter (\<lambda>t. m \<le> t) (times_of c' A)" for c'
    using rel by (simp add: limiter_rel_def)
  show "limiter_rel now (if spec_limited rate_limit c now A then A else A @ [(c, now)])
      (snd (rate_limited rate_limit c now L))"
  proof (cases "spec_limited rate_limit c now A")
    case True
    have "\<exists>m \<le> now - 60. ((request_times L)(c := ?W)) c' = filter (\<lambda>t. m \<le> t) (times_of c' A)" for c'
      using others [of c'] by (cases "c' = c") auto
    then show ?thesis using True srt le by (simp add: run limiter_rel_def)
  next
    case False
    have "\<exists>m \<le> now - 60. ((request_times L)(c := ?W @ [now])) c'
        = filter (\<lambda>t. m \<le> t) (times_of c' (A @ [(c, now)]))" for c'
      using others [of c'] by (cases "c' = c") (auto simp: times_of_snoc intro!: exI [of _ "now - 60"])
    moreover have "sorted (map snd (A @ [(c, now)]))" using srt le by (auto simp: sorted_append)
    ultimately show ?thesis using False le by (simp add: run limiter_rel_def)
  qed
qed

lemma admit_refines:
  assumes "sorted (map snd es)" "limiter_rel now A L" "\<forall>e \<in> set es. now \<le> snd e"
  shows "admit rate_limit es L = admit_spec rate_limit es A"
  using assms
proof (induction es arbitrary: now A L)
  case Nil
  then show ?case by simp
next
  case (Cons e es)
  obtain c t where e: "e = (c, t)" by (cases e)
  have rel: "limiter_rel t A L" using Cons.prems e by (auto intro: limiter_rel_later)
  note step = limiter_step [OF rel, of rate_limit c]
  have es: "sorted (map snd es)" "\<forall>e \<in> set es. t \<le> snd e" using Cons.prems(1) e by auto
  show ?case
  proof (cases "spec_limited rate_limit c t A")
    case True
    then obtain L1 where run: "rate_limited rate_limit c t L = (True, L1)" using step(1) by (metis prod.collapse)
    then have "limiter_rel t A L1" using step(2) True by simp
    then show ?thesis using Cons.IH [OF es(1) _ es(2)] run True e by simp
  next
    case False
    then obtain L1 where run: "rate_limited rate_limit c t L = (False, L1)" using step(1) by (metis prod.collapse)
    then have "limiter_rel t (A @ [(c, t)]) L1" using step(2) False by simp
    then show ?thesis using Cons.IH [OF es(1) _ es(2)] run False e by simp
  qed
qed

lemma fresh_limiter_rel: "limiter_rel now [] fresh_limiter"
  by (auto simp: limiter_rel_def fresh_limiter_def times_of_def)

lemma admit_fresh:
  assumes "sorted (map snd es)"
  shows "admit rate_limit es fresh_limiter = admit_spec rate_limit es []"
proof (cases es)
  case (Cons e es')
  show ?thesis
    by (rule admit_refines [OF assms fresh_limiter_rel [of "snd e"]]) (use assms Cons in auto)
qed simp

section \<open>No window holds more than the limit\<close>

definition in_window :: "int \<Rightarrow> real \<Rightarrow> (int \<times> real) list \<Rightarrow> nat" where
  "in_window c w A = length (filter (\<lambda>t. w \<le> t \<and> t \<le> w + 60) (times_of c A))"

lemma length_filter_mono: "(\<And>x. x \<in> set xs \<Longrightarrow> P x \<Longrightarrow> Q x) \<Longrightarrow> length (filter P xs) \<le> length (filter Q xs)"
  by (induction xs) auto

lemma admit_spec_window:
  assumes "sorted (map snd es)" "\<forall>a \<in> set A. \<forall>e \<in> set es. snd a \<le> snd e"
    and "\<forall>w. int (in_window c w A) \<le> max 0 rate_limit"
  shows "int (in_window c w (A @ admit_spec rate_limit es A)) \<le> max 0 rate_limit"
  using assms
proof (induction es arbitrary: A)
  case Nil
  then show ?case by simp
next
  case (Cons e es)
  obtain c' t where e: "e = (c', t)" by (cases e)
  show ?case
  proof (cases "spec_limited rate_limit c' t A")
    case True
    then show ?thesis using Cons.IH [of A] Cons.prems e by simp
  next
    case False
    let ?A = "A @ [(c', t)]"
    have bound: "int (in_window c w ?A) \<le> max 0 rate_limit" for w
    proof (cases "c' = c \<and> w \<le> t \<and> t \<le> w + 60")
      case True
      have "in_window c w A \<le> length (filter (\<lambda>s. t - 60 \<le> s) (times_of c A))"
        unfolding in_window_def by (rule length_filter_mono) (use True in auto)
      moreover have "int (length (filter (\<lambda>s. t - 60 \<le> s) (times_of c A))) < rate_limit"
        using False True by (simp add: spec_limited_def)
      moreover have "in_window c w ?A = in_window c w A + 1"
        using True by (simp add: in_window_def times_of_snoc)
      ultimately show ?thesis by simp
    next
      case False
      then have "in_window c w ?A = in_window c w A" by (auto simp: in_window_def times_of_snoc)
      then show ?thesis using Cons.prems(3) by simp
    qed
    have "\<forall>a \<in> set ?A. \<forall>e \<in> set es. snd a \<le> snd e" using Cons.prems(1,2) e by auto
    then show ?thesis using Cons.IH [of ?A] Cons.prems(1) bound False e by simp
  qed
qed

lemma admit_window:
  assumes "sorted (map snd es)"
  shows "int (in_window c w (admit rate_limit es fresh_limiter)) \<le> max 0 rate_limit"
  using admit_spec_window [OF assms, of "[]" c rate_limit w] admit_fresh [OF assms]
  by (simp add: in_window_def times_of_def)

end
