(* ===== verification/Retention_Lemmas.thy ===== *)
theory Retention_Lemmas
  imports Replica_System
begin

text \<open>
  The retention run of \<^verbatim>\<open>apply_retention\<close> as one description of the tables it leaves, the preview
  that leaves them alone, and the second run that finds nothing to do.
\<close>

definition policy_ok :: "retention_policy \<Rightarrow> bool" where
  "policy_ok p \<longleftrightarrow> 0 \<le> hit_retention_ms p \<and> 0 \<le> flag_reason_retention_ms p
     \<and> 0 \<le> tombstone_metadata_retention_ms p
     \<and> tombstone_metadata_retention_ms p \<le> tombstone_retention_ms p"

definition purged_ids :: "int \<Rightarrow> retention_policy \<Rightarrow> db \<Rightarrow> int set" where
  "purged_ids now p db =
     fp_id ` {r \<in> set (fingerprints db). old_tombstone (now - tombstone_retention_ms p) r}"

lemma apply_retention_runs:
  assumes "policy_ok p"
  shows "apply_retention True now p dry db
    = (fst (retention_txn now p db), if dry then db else snd (retention_txn now p db))"
proof -
  have seqs: "rollback db (snd (retention_txn now p db)) = db"
    by (simp add: rollback_def retention_txn_eq Let_def anonymize_tombstones_def purge_tombstones_def
        delete_fps_def clear_flag_reasons_def delete_hits_def)
  have ok: "is_ok (fst (retention_txn now p db))" by (simp add: retention_txn_eq Let_def)
  have "\<not> min (min (hit_retention_ms p) (flag_reason_retention_ms p))
      (min (tombstone_metadata_retention_ms p) (tombstone_retention_ms p)) < 0"
    and "\<not> tombstone_metadata_retention_ms p > tombstone_retention_ms p"
    using assms by (auto simp: policy_ok_def)
  then show ?thesis
    using seqs ok
    by (simp add: apply_retention_def with_connection_def transaction_def
        case_prod_unfold Let_def)
qed

lemma retention_txn_tables:
  "fingerprint_hits (snd (retention_txn now p db))
    = filter (\<lambda>h. hit_fingerprint_id h \<notin> purged_ids now p db)
        (filter (\<lambda>h. \<not> expired_hit (now - hit_retention_ms p) h) (fingerprint_hits db))"
  "fingerprint_flags (snd (retention_txn now p db))
    = filter (\<lambda>f. flag_fingerprint_id f \<notin> purged_ids now p db)
        (map (\<lambda>f. if stale_reason (now - flag_reason_retention_ms p) f then f\<lparr>flag_reason := None\<rparr> else f)
           (fingerprint_flags db))"
  by (simp_all add: retention_txn_eq Let_def anonymize_tombstones_def purge_tombstones_def
      delete_fps_def clear_flag_reasons_def delete_hits_def purged_ids_def)

section \<open>A second run\<close>

lemma old_tombstone_anonymize: "old_tombstone c (anonymize r) = old_tombstone c r"
  by (simp add: old_tombstone_def)

lemma stale_cleared: "\<not> stale_reason c (f\<lparr>flag_reason := None\<rparr>)"
  by (simp add: stale_reason_def)

lemma filter_none: "(\<And>x. x \<in> set xs \<Longrightarrow> \<not> P x) \<Longrightarrow> filter P xs = []"
  by (simp add: filter_empty_conv)

lemma retention_again:
  defines "run \<equiv> \<lambda>now p db. snd (retention_txn now p db)"
  shows "retention_txn now p (run now p db)
    = (Inr \<lparr>hits_deleted = 0, flag_reasons_cleared = 0, tombstones_anonymized = 0,
            tombstones_deleted = 0\<rparr>, run now p db)"
proof -
  let ?db = "run now p db"
  let ?ch = "now - hit_retention_ms p" and ?cf = "now - flag_reason_retention_ms p"
  let ?ct = "now - tombstone_retention_ms p" and ?cm = "now - tombstone_metadata_retention_ms p"
  have h: "\<not> expired_hit ?ch h" if "h \<in> set (fingerprint_hits ?db)" for h
    using that unfolding run_def retention_txn_tables by auto
  have f: "\<not> stale_reason ?cf f" if "f \<in> set (fingerprint_flags ?db)" for f
    using that stale_cleared unfolding run_def retention_txn_tables by auto
  have t: "\<not> old_tombstone ?ct r \<and> \<not> (old_tombstone ?cm r \<and> has_metadata r)"
    if "r \<in> set (fingerprints ?db)" for r
    using that unfolding run_def retention_txn_fingerprints
    by (auto simp: old_tombstone_anonymize)
  have s1: "delete_hits ?ch ?db = (0, ?db)"
  proof -
    have "filter (expired_hit ?ch) (fingerprint_hits ?db) = []" using h by (rule filter_none)
    moreover have "filter (\<lambda>x. \<not> expired_hit ?ch x) (fingerprint_hits ?db) = fingerprint_hits ?db"
      using h by (intro filter_True) auto
    ultimately show ?thesis by (simp add: delete_hits_def)
  qed
  have s2: "clear_flag_reasons ?cf ?db = (0, ?db)"
  proof -
    have "filter (stale_reason ?cf) (fingerprint_flags ?db) = []" using f by (rule filter_none)
    moreover have "map (\<lambda>x. if stale_reason ?cf x then x\<lparr>flag_reason := None\<rparr> else x) (fingerprint_flags ?db)
        = fingerprint_flags ?db"
      using f by (intro map_idI) auto
    ultimately show ?thesis by (simp add: clear_flag_reasons_def)
  qed
  have s3: "purge_tombstones ?ct ?db = (0, ?db)"
  proof -
    have n: "filter (old_tombstone ?ct) (fingerprints ?db) = []" using t by (intro filter_none) auto
    moreover have "filter (\<lambda>x. \<not> old_tombstone ?ct x) (fingerprints ?db) = fingerprints ?db"
      using t by (intro filter_True) auto
    moreover have "filter (\<lambda>x. True) xs = xs" for xs :: "'a list" by simp
    ultimately show ?thesis by (simp add: purge_tombstones_def delete_fps_def Let_def)
  qed
  have s4: "anonymize_tombstones ?cm ?db = (0, ?db)"
  proof -
    have "filter (\<lambda>x. old_tombstone ?cm x \<and> has_metadata x) (fingerprints ?db) = []"
      using t by (intro filter_none) auto
    moreover have "map (\<lambda>x. if old_tombstone ?cm x \<and> has_metadata x then anonymize x else x) (fingerprints ?db)
        = fingerprints ?db"
      using t by (intro map_idI) auto
    ultimately show ?thesis by (simp add: anonymize_tombstones_def)
  qed
  show ?thesis by (simp add: retention_txn_def s1 s2 s3 s4)
qed

end
