(* ===== verification/Hub_Spec.thy ===== *)
theory Hub_Spec
  imports Store_Outcomes Retention_Lemmas
begin

text \<open>
  What the hub promises, without tables, cursors, clocks or ciphertext: a catalogue of entries with
  an owner, a hash, a state, the set of consumers that flagged it and a hit count, and the few ways
  it may change. The store's operations, on every outcome, are steps of this specification
  (a forward simulation along the abstraction function \<open>hub_abs\<close>).
\<close>

section \<open>The specification\<close>

record entry =
  en_owner :: int
  en_hash :: string
  en_state :: status
  en_flaggers :: "int set"
  en_hits :: int

type_synonym spec_state = "int \<rightharpoonup> entry"

definition flagged_by :: "int \<Rightarrow> int \<Rightarrow> entry \<Rightarrow> entry" where
  "flagged_by threshold c e =
     (let fs = insert c (en_flaggers e) in
      e\<lparr>en_flaggers := fs,
        en_state := (if en_state e = Active \<and> threshold \<le> int (card fs) then Hidden else en_state e)\<rparr>)"

text \<open>The four changes a request can ask for, by the consumer \<open>c\<close> that makes it.\<close>

definition spec_contribute :: "int \<Rightarrow> string \<Rightarrow> spec_state \<Rightarrow> spec_state \<Rightarrow> bool" where
  "spec_contribute c h C C' \<longleftrightarrow>
     (\<exists>i. C i = None \<and> (\<forall>e \<in> ran C. (en_owner e, en_hash e) \<noteq> (c, h))
        \<and> C' = C(i \<mapsto> \<lparr>en_owner = c, en_hash = h, en_state = Active, en_flaggers = {}, en_hits = 0\<rparr>))
     \<or> (\<exists>i e. C i = Some e \<and> en_owner e = c \<and> en_hash e = h \<and> en_state e = Deleted
        \<and> C' = C(i \<mapsto> e\<lparr>en_state := Active, en_flaggers := {}\<rparr>))"

definition spec_hit :: "int \<Rightarrow> spec_state \<Rightarrow> spec_state \<Rightarrow> bool" where
  "spec_hit i C C' \<longleftrightarrow> (\<exists>e. C i = Some e \<and> en_state e \<noteq> Deleted \<and> C' = C(i \<mapsto> e\<lparr>en_hits := en_hits e + 1\<rparr>))"

definition spec_flag :: "int \<Rightarrow> int \<Rightarrow> int \<Rightarrow> spec_state \<Rightarrow> spec_state \<Rightarrow> bool" where
  "spec_flag threshold c i C C' \<longleftrightarrow>
     (\<exists>e. C i = Some e \<and> en_state e \<noteq> Deleted \<and> C' = C(i \<mapsto> flagged_by threshold c e))"

definition withdrawn :: "int \<Rightarrow> spec_state \<Rightarrow> spec_state" where
  "withdrawn i C = (case C i of
     Some e \<Rightarrow> if en_state e \<noteq> Deleted then C(i \<mapsto> e\<lparr>en_state := Deleted\<rparr>) else C | None \<Rightarrow> C)"

inductive spec_step :: "int \<Rightarrow> spec_state \<Rightarrow> spec_state \<Rightarrow> bool" for threshold
where
  skip: "spec_step threshold C C"
| publish: "C i = None \<Longrightarrow> \<forall>e \<in> ran C. (en_owner e, en_hash e) \<noteq> (c, h) \<Longrightarrow>
    spec_step threshold C (C(i \<mapsto> \<lparr>en_owner = c, en_hash = h, en_state = Active, en_flaggers = {}, en_hits = 0\<rparr>))"
| revive: "C i = Some e \<Longrightarrow> en_state e = Deleted \<Longrightarrow>
    spec_step threshold C (C(i \<mapsto> e\<lparr>en_state := Active, en_flaggers := {}\<rparr>))"
| hit: "C i = Some e \<Longrightarrow> en_state e \<noteq> Deleted \<Longrightarrow>
    spec_step threshold C (C(i \<mapsto> e\<lparr>en_hits := en_hits e + 1\<rparr>))"
| object: "C i = Some e \<Longrightarrow> en_state e \<noteq> Deleted \<Longrightarrow>
    spec_step threshold C (C(i \<mapsto> flagged_by threshold c e))"
| withdraw: "C i = Some e \<Longrightarrow> en_state e \<noteq> Deleted \<Longrightarrow>
    spec_step threshold C (C(i \<mapsto> e\<lparr>en_state := Deleted\<rparr>))"
| purge: "\<forall>i \<in> gone. \<exists>e. C i = Some e \<and> en_state e = Deleted \<Longrightarrow> spec_step threshold C (C |` (- gone))"

lemma spec_ops_step:
  "spec_contribute c h C C' \<Longrightarrow> spec_step t C C'"
  "spec_hit i C C' \<Longrightarrow> spec_step t C C'"
  "spec_flag t c i C C' \<Longrightarrow> spec_step t C C'"
  "spec_step t C (withdrawn i C)"
  by (auto simp: spec_contribute_def spec_hit_def spec_flag_def withdrawn_def
      intro: spec_step.intros split: option.split)

section \<open>Forward simulations\<close>

text \<open>A step relation with an invariant that is simulated, along a function, by an abstract one.\<close>

locale forward_simulation =
  fixes step :: "'s \<Rightarrow> 's \<Rightarrow> bool" and inv :: "'s \<Rightarrow> bool"
    and abs :: "'s \<Rightarrow> 'a" and spec :: "'a \<Rightarrow> 'a \<Rightarrow> bool"
  assumes keeps: "inv s \<Longrightarrow> step s s' \<Longrightarrow> inv s'"
    and simulates: "inv s \<Longrightarrow> step s s' \<Longrightarrow> spec (abs s) (abs s')"
begin

lemma runs: "step\<^sup>*\<^sup>* s s' \<Longrightarrow> inv s \<Longrightarrow> inv s' \<and> spec\<^sup>*\<^sup>* (abs s) (abs s')"
proof (induction rule: rtranclp_induct)
  case (step t u)
  then show ?case using keeps simulates by (meson rtranclp.rtrancl_into_rtrancl)
qed simp

end

section \<open>The abstraction\<close>

definition entry_of :: "db \<Rightarrow> fingerprint_row \<Rightarrow> entry" where
  "entry_of db r = \<lparr>en_owner = fp_consumer_id r, en_hash = fp_phash_hex r, en_state = fp_status r,
     en_flaggers = flaggers (fp_id r) db, en_hits = fp_hit_count r\<rparr>"

definition hub_abs :: "db \<Rightarrow> spec_state" where
  "hub_abs db i = map_option (entry_of db) (select_fp i db)"

lemma flaggers_cong: "fingerprint_flags a = fingerprint_flags b \<Longrightarrow> flaggers i a = flaggers i b"
  by (simp add: flaggers_def)

lemma entry_of_cong: "fingerprint_flags a = fingerprint_flags b \<Longrightarrow> entry_of a = entry_of b"
  by (simp add: fun_eq_iff entry_of_def flaggers_def)

lemma hub_abs_cong:
  "fingerprints a = fingerprints b \<Longrightarrow> fingerprint_flags a = fingerprint_flags b \<Longrightarrow> hub_abs a = hub_abs b"
  by (rule ext) (simp add: hub_abs_def select_fp_def entry_of_cong [of a b])

lemma hub_abs_rollback [simp]: "hub_abs (rollback a b) = hub_abs a"
  by (rule hub_abs_cong) simp_all

text \<open>Changing one row, after changing at most that row's flags.\<close>

lemma hub_abs_update:
  assumes same: "fingerprints db1 = fingerprints db" and sel: "select_fp i db = Some r"
    and id: "\<And>r. fp_id (f r) = fp_id r" and other: "\<And>j. j \<noteq> i \<Longrightarrow> flaggers j db1 = flaggers j db"
  shows "hub_abs (update_fp i f db1) = (hub_abs db)(i \<mapsto> (entry_of db1 (f r)))"
proof
  fix j
  have sel1: "select_fp k db1 = select_fp k db" for k using same by (rule select_fp_cong)
  have upd: "select_fp j (update_fp i f db1) = (if j = i then Some (f r) else select_fp j db)"
    using sel id by (simp add: select_fp_update sel1)
  have eo: "entry_of (update_fp i f db1) = entry_of db1" by (rule entry_of_cong) simp
  show "hub_abs (update_fp i f db1) j = ((hub_abs db)(i \<mapsto> (entry_of db1 (f r)))) j"
  proof (cases "j = i")
    case True
    then show ?thesis using upd by (simp add: hub_abs_def eo)
  next
    case False
    have "entry_of db1 s = entry_of db s" if "select_fp j db = Some s" for s
      using select_fp_SomeD [OF that] other [OF False] by (simp add: entry_of_def)
    then show ?thesis
      using False by (cases "select_fp j db") (simp_all add: hub_abs_def upd eo)
  qed
qed

lemma hub_abs_Some: "select_fp i db = Some r \<Longrightarrow> hub_abs db i = Some (entry_of db r)"
  by (simp add: hub_abs_def)

lemma find_append: "List.find P (xs @ ys) = (case List.find P xs of None \<Rightarrow> List.find P ys | Some x \<Rightarrow> Some x)"
  by (induction xs) auto

section \<open>Every operation is a step\<close>

abbreviation spec_sim :: "int \<Rightarrow> db \<Rightarrow> db \<Rightarrow> bool" where
  "spec_sim t db db' \<equiv> spec_step t (hub_abs db) (hub_abs db')"

lemma sim_connection:
  assumes "\<And>x. fst (body db) = Inr x \<Longrightarrow> spec_sim t db (snd (body db))"
  shows "spec_sim t db (snd (with_connection up (transaction fr body) db))"
  by (rule connection_inv [where P = "spec_sim t db"]) (use assms in \<open>auto intro: spec_step.skip\<close>)

lemma sim_same:
  "fingerprints db' = fingerprints db \<Longrightarrow> fingerprint_flags db' = fingerprint_flags db \<Longrightarrow> spec_sim t db db'"
  using hub_abs_cong [of db' db] spec_step.skip by simp

text \<open>An operation that fails leaves the tables alone; one that returns has done what its body did.\<close>

lemma connection_result:
  assumes "with_connection up (transaction False body) db = (r, db')"
  obtains (fails) e where "r = Inl e" "hub_abs db' = hub_abs db"
    | (runs) x where "r = Inr x" "body db = (Inr x, db')"
proof -
  obtain q y where b: "body db = (q, y)" by fastforce
  show ?thesis
  proof (cases "up \<and> is_ok q")
    case True
    then obtain x where "q = Inr x" by (cases q) auto
    then show ?thesis using assms True b by (intro runs [of x]) (simp_all add: with_connection_def transaction_def)
  next
    case False
    then have "\<exists>e. r = Inl e" "hub_abs db' = hub_abs db"
      using assms b by (cases q; auto simp: with_connection_def transaction_def split: if_splits)+
    then show ?thesis using fails by blast
  qed
qed

lemma insert_fp_exact:
  assumes ok: "db_ok db" and run: "insert_fp (new_row c er eu eg) db = (Inr x, db')"
  shows "case x of Some row \<Rightarrow> spec_contribute (con_consumer_id c) (con_phash_hex c) (hub_abs db) (hub_abs db')
    | None \<Rightarrow> hub_abs db' = hub_abs db"
  using run
proof (cases rule: insert_fp_cases)
  case conflict
  then show ?thesis using hub_abs_cong [of db' db] by simp
next
  case (inserted row)
  let ?i = "fingerprints_id_seq db"
  have new: "select_fp ?i db = None"
    using ok by (auto simp: select_fp_None_iff db_ok_def fingerprints_ok_def)
  have fl: "flaggers ?i db = {}"
    using no_children(1) [OF ok] count_flaggers_card [of ?i db] by simp
  have eo: "entry_of db' = entry_of db" by (rule entry_of_cong) (simp add: inserted(3))
  have id: "fp_id row = ?i" by (simp add: inserted(2))
  have "hub_abs db' = (hub_abs db)(?i \<mapsto> entry_of db row)"
  proof
    fix j
    have "select_fp j db' = (case select_fp j db of None \<Rightarrow> if ?i = j then Some row else None | Some r \<Rightarrow> Some r)"
      by (simp add: select_fp_def inserted(3) find_append id split: option.split)
    then show "hub_abs db' j = ((hub_abs db)(?i \<mapsto> entry_of db row)) j"
      using new by (auto simp: hub_abs_def eo split: option.split)
  qed
  moreover have "entry_of db row = \<lparr>en_owner = con_consumer_id c, en_hash = con_phash_hex c,
      en_state = Active, en_flaggers = {}, en_hits = 0\<rparr>"
    using fl by (simp add: entry_of_def inserted(2) new_row_def)
  moreover have "\<forall>e \<in> ran (hub_abs db). (en_owner e, en_hash e) \<noteq> (con_consumer_id c, con_phash_hex c)"
  proof
    fix e assume "e \<in> ran (hub_abs db)"
    then obtain r where r: "r \<in> set (fingerprints db)" "e = entry_of db r"
      by (auto simp: ran_def hub_abs_def dest: select_fp_SomeD)
    then show "(en_owner e, en_hash e) \<noteq> (con_consumer_id c, con_phash_hex c)"
      using inserted(9) select_fp_by_phash_None_iff [of "fp_phash_hex (new_row c er eu eg)"
          "fp_consumer_id (new_row c er eu eg)" db]
      by (auto simp: entry_of_def new_row_def image_iff)
  qed
  moreover have "hub_abs db ?i = None" using new by (simp add: hub_abs_def)
  ultimately show ?thesis using inserted(1) unfolding spec_contribute_def by auto
qed auto

lemma resurrect_exact:
  assumes sel: "select_fp (fp_id ex) db = Some ex" and del: "fp_status ex = Deleted"
    and key: "fp_phash_hex ex = con_phash_hex c" "fp_consumer_id ex = con_consumer_id c"
    and run: "resurrect c er eu eg (fp_id ex) db = (Inr x, db')"
  shows "spec_contribute (con_consumer_id c) (con_phash_hex c) (hub_abs db) (hub_abs db')"
  using run
proof (cases rule: resurrect_cases)
  case resurrected
  let ?db1 = "(delete_flags_of (fp_id ex) db)\<lparr>fingerprints_sync_seq := fingerprints_sync_seq db + 1\<rparr>"
  let ?f = "resurrect_row c er eu eg (fingerprints_sync_seq db)"
  have "hub_abs db' = (hub_abs db)(fp_id ex \<mapsto> entry_of ?db1 (?f ex))"
    unfolding resurrected(2)
    by (rule hub_abs_update [OF _ sel]) (auto simp: flaggers_def delete_flags_of_def)
  moreover have "entry_of ?db1 (?f ex) = (entry_of db ex)\<lparr>en_state := Active, en_flaggers := {}\<rparr>"
    by (auto simp: entry_of_def resurrect_row_def flaggers_def delete_flags_of_def)
  moreover have "hub_abs db (fp_id ex) = Some (entry_of db ex)" "en_owner (entry_of db ex) = con_consumer_id c"
    "en_hash (entry_of db ex) = con_phash_hex c" "en_state (entry_of db ex) = Deleted"
    using hub_abs_Some [OF sel] key del by (simp_all add: entry_of_def)
  ultimately show ?thesis
    unfolding spec_contribute_def by (intro disjI2 exI [of _ "fp_id ex"] exI [of _ "entry_of db ex"]) simp
qed auto

lemma contribute_exact:
  assumes ok: "db_ok db" and run: "contribute K up nonces c db = (r, db')"
  shows "case r of
      Inr (row, created) \<Rightarrow>
        if created then spec_contribute (con_consumer_id c) (con_phash_hex c) (hub_abs db) (hub_abs db')
        else hub_abs db' = hub_abs db
    | Inl e \<Rightarrow> hub_abs db' = hub_abs db"
proof -
  have body: "if created then spec_contribute (con_consumer_id c) (con_phash_hex c) (hub_abs db) (hub_abs y)
      else hub_abs y = hub_abs db"
    if txn: "contribute_txn c er eu eg db = (Inr (row, created), y)" for er eu eg row created y
  proof (cases "select_fp_by_phash (con_phash_hex c) (con_consumer_id c) db")
    case None
    then show ?thesis
      using txn insert_fp_exact [OF ok]
      by (fastforce simp: contribute_txn_def split: if_splits prod.splits sum.splits option.splits)
  next
    case (Some ex)
    note ex = select_fp_by_phash_SomeD [OF Some]
    have "select_fp (fp_id ex) db = Some ex"
      using ok ex select_fp_Some_iff [of db "fp_id ex" ex] by (simp add: db_ok_def)
    then show ?thesis
      using txn Some ex resurrect_exact [of ex db c]
      by (auto simp: contribute_txn_def split: if_splits prod.splits sum.splits)
  qed
  show ?thesis
  proof (cases "\<exists>er eu eg. with_connection up (transaction False (contribute_txn c er eu eg)) db = (r, db')")
    case True
    then obtain er eu eg where "with_connection up (transaction False (contribute_txn c er eu eg)) db = (r, db')"
      by blast
    then show ?thesis
    proof (cases rule: connection_result)
      case (runs x)
      then show ?thesis using body by (cases x) auto
    qed simp
  next
    case False
    then show ?thesis using run by (auto simp: contribute_def split: sum.splits)
  qed
qed

lemma contribute_sim: "db_ok db \<Longrightarrow> spec_sim t db (snd (contribute K up nonces c db))"
  using contribute_exact [of db K up nonces c, OF _ prod.collapse [symmetric]] spec_ops_step(1) spec_step.skip
  by (auto split: sum.splits prod.splits if_splits)

lemma report_hit_exact:
  assumes ok: "db_ok db" and run: "report_hit K up nonce fpid cid guild distance now db = (r, db')"
  shows "case r of Inr (Some n) \<Rightarrow> spec_hit fpid (hub_abs db) (hub_abs db') | _ \<Rightarrow> hub_abs db' = hub_abs db"
  using run unfolding report_hit_def
proof (cases rule: connection_result)
  case (runs x)
  from runs(2) show ?thesis
  proof (cases rule: report_hit_txn_cases)
    case (recorded fp eg db1)
    note same = insert_hit_ok [OF ok recorded(4)]
    have "hub_abs db' = (hub_abs db)(fpid \<mapsto> entry_of db1 (hit_update now fp))"
      unfolding recorded(6)
      by (rule hub_abs_update [OF same(3) recorded(1)]) (simp_all add: flaggers_cong [OF same(5)])
    moreover have "entry_of db1 (hit_update now fp)
        = (entry_of db fp)\<lparr>en_hits := en_hits (entry_of db fp) + 1\<rparr>"
      by (simp add: entry_of_def flaggers_cong [OF same(5)])
    moreover have "en_state (entry_of db fp) \<noteq> Deleted" using recorded(2) by (simp add: entry_of_def)
    ultimately have "spec_hit fpid (hub_abs db) (hub_abs db')"
      using hub_abs_Some [OF recorded(1)] unfolding spec_hit_def by auto
    then show ?thesis using runs(1) recorded(5) by simp
  qed (use runs(1) in auto)
qed simp

lemma report_hit_sim: "db_ok db \<Longrightarrow> spec_sim t db (snd (report_hit K up nonce fpid cid guild distance now db))"
  using report_hit_exact [of db K up nonce fpid cid guild distance now, OF _ prod.collapse [symmetric]]
    spec_ops_step(2) spec_step.skip by (auto split: sum.splits option.splits)

lemma insert_flag_others:
  "insert_flag fpid cid er now db = (Inr u, db1) \<Longrightarrow> j \<noteq> fpid \<Longrightarrow> flaggers j db1 = flaggers j db"
  by (erule insert_flag_cases) (auto simp: flaggers_def)

lemma flag_exact:
  assumes ok: "db_ok db" and run: "flag K up nonce fpid cid reason now t db = (r, db')"
  shows "case r of Inr (Some n) \<Rightarrow> spec_flag t cid fpid (hub_abs db) (hub_abs db') | _ \<Rightarrow> hub_abs db' = hub_abs db"
  using run unfolding flag_def
proof (cases rule: connection_result)
  case (runs x)
  have object: "spec_flag t cid fpid (hub_abs db) (hub_abs db')"
    if sel: "select_fp fpid db = Some fp" and live: "fp_status fp \<noteq> Deleted"
      and abs: "hub_abs db' = (hub_abs db)(fpid \<mapsto> flagged_by t cid (entry_of db fp))" for fp
    unfolding spec_flag_def abs
    by (rule exI [of _ "entry_of db fp"]) (use live hub_abs_Some [OF sel] in \<open>simp add: entry_of_def\<close>)
  from runs(2) show ?thesis
  proof (cases rule: flag_txn_cases)
    case (hides fp er db1)
    note same = insert_flag_ok [OF ok hides(3)]
    let ?db2 = "db1\<lparr>fingerprints_sync_seq := fingerprints_sync_seq db + 1\<rparr>"
    let ?f = "\<lambda>r. r\<lparr>fp_status := Hidden, fp_flag_count := count_flaggers fpid db1,
        fp_sync_seq := fingerprints_sync_seq db, fp_updated_at_ms := now\<rparr>"
    have id: "fp_id fp = fpid" using select_fp_SomeD [OF hides(1)] by simp
    have fl: "flaggers j ?db2 = flaggers j db1" for j by (rule flaggers_cong) simp
    have "hub_abs db' = (hub_abs db)(fpid \<mapsto> entry_of ?db2 (?f fp))"
      unfolding hides(6)
      by (rule hub_abs_update [OF _ hides(1)]) (simp_all add: same(3) fl insert_flag_others [OF hides(3)])
    moreover have "entry_of ?db2 (?f fp) = flagged_by t cid (entry_of db fp)"
      using hides(2,4) insert_flag_flaggers [OF hides(3)]
      by (simp add: entry_of_def flagged_by_def fl id count_flaggers_card Let_def)
    ultimately have "spec_flag t cid fpid (hub_abs db) (hub_abs db')"
      by (intro object [OF hides(1)]) (simp_all add: hides(2))
    then show ?thesis using runs(1) hides(5) by simp
  next
    case (counts fp er db1)
    note same = insert_flag_ok [OF ok counts(3)]
    let ?f = "\<lambda>r. r\<lparr>fp_flag_count := count_flaggers fpid db1, fp_updated_at_ms := now\<rparr>"
    have id: "fp_id fp = fpid" using select_fp_SomeD [OF counts(1)] by simp
    have "hub_abs db' = (hub_abs db)(fpid \<mapsto> entry_of db1 (?f fp))"
      unfolding counts(6)
      by (rule hub_abs_update [OF same(3) counts(1)]) (simp_all add: insert_flag_others [OF counts(3)])
    moreover have "entry_of db1 (?f fp) = flagged_by t cid (entry_of db fp)"
      using counts(4) insert_flag_flaggers [OF counts(3)]
      by (auto simp: entry_of_def flagged_by_def id count_flaggers_card Let_def)
    ultimately have "spec_flag t cid fpid (hub_abs db) (hub_abs db')" by (intro object [OF counts(1,2)]) simp
    then show ?thesis using runs(1) counts(5) by simp
  qed (use runs(1) in auto)
qed simp

lemma flag_sim: "db_ok db \<Longrightarrow> spec_sim t db (snd (flag K up nonce fpid cid reason now t db))"
  using flag_exact [of db K up nonce fpid cid reason now t, OF _ prod.collapse [symmetric]]
    spec_ops_step(3) spec_step.skip by (auto split: sum.splits option.splits)

lemma soft_delete_exact:
  assumes run: "soft_delete up fpid now db = (r, db')"
  shows "case r of Inr b \<Rightarrow> hub_abs db' = withdrawn fpid (hub_abs db) | Inl e \<Rightarrow> hub_abs db' = hub_abs db"
  using run unfolding soft_delete_def
proof (cases rule: connection_result)
  case (runs x)
  have "hub_abs db' = withdrawn fpid (hub_abs db)"
  proof (cases rule: soft_delete_txn_cases [of fpid now db])
    case (deleted fp)
    let ?db1 = "db\<lparr>fingerprints_sync_seq := fingerprints_sync_seq db + 1\<rparr>"
    have fl: "flaggers j ?db1 = flaggers j db" for j by (rule flaggers_cong) simp
    have "hub_abs (snd (soft_delete_txn fpid now db))
      = (hub_abs db)(fpid \<mapsto> entry_of ?db1 (tombstone (fingerprints_sync_seq db) now fp))"
      unfolding deleted(3) snd_conv by (rule hub_abs_update [OF _ deleted(1)]) (simp_all add: fl)
    moreover have "entry_of ?db1 (tombstone (fingerprints_sync_seq db) now fp) = (entry_of db fp)\<lparr>en_state := Deleted\<rparr>"
      by (simp add: entry_of_def fl)
    ultimately show ?thesis
      using runs(2) hub_abs_Some [OF deleted(1)] deleted(2) by (simp add: withdrawn_def entry_of_def)
  next
    case absent
    then show ?thesis
      using runs(2) by (auto simp: withdrawn_def hub_abs_def entry_of_def)
  qed
  then show ?thesis using runs(1) by simp
qed simp

lemma soft_delete_sim: "spec_sim t db (snd (soft_delete up fpid now db))"
  using soft_delete_exact [of up fpid now db, OF prod.collapse [symmetric]] spec_ops_step(4) spec_step.skip
  by (auto split: sum.splits)

lemma flaggers_eq:
  "flaggers i db = set (map flag_consumer_id (filter (\<lambda>f. flag_fingerprint_id f = i) (fingerprint_flags db)))"
  by (auto simp: flaggers_def)

lemma cleared_flaggers:
  "i \<notin> P \<Longrightarrow> map flag_consumer_id (filter (\<lambda>f. flag_fingerprint_id f = i)
      (filter (\<lambda>f. flag_fingerprint_id f \<notin> P) (map (\<lambda>f. if Q f then f\<lparr>flag_reason := None\<rparr> else f) fs)))
    = map flag_consumer_id (filter (\<lambda>f. flag_fingerprint_id f = i) fs)"
proof (induction fs)
  case (Cons f fs)
  then show ?case by (cases "Q f"; cases "flag_fingerprint_id f = i") simp_all
qed simp

lemma retention_abs:
  assumes ok: "db_ok db" and ok': "db_ok (snd (retention_txn now p db))"
  shows "hub_abs (snd (retention_txn now p db)) = hub_abs db |` (- purged_ids now p db)"
proof
  fix j
  let ?db' = "snd (retention_txn now p db)" and ?old = "old_tombstone (now - tombstone_retention_ms p)"
  let ?g = "\<lambda>r. if old_tombstone (now - tombstone_metadata_retention_ms p) r \<and> has_metadata r
    then anonymize r else r"
  have rows: "set (fingerprints ?db') = ?g ` {r \<in> set (fingerprints db). \<not> ?old r}"
    by (simp add: retention_txn_fingerprints)
  have g: "fp_id (?g r) = fp_id r" for r by simp
  have fo: "fingerprints_ok db" "fingerprints_ok ?db'" using ok ok' by (simp_all add: db_ok_def)
  have fl: "flaggers j ?db' = flaggers j db" if "j \<notin> purged_ids now p db"
    unfolding flaggers_eq retention_txn_tables by (rule arg_cong [OF cleared_flaggers [OF that]])
  show "hub_abs ?db' j = (hub_abs db |` (- purged_ids now p db)) j"
  proof (cases "select_fp j db")
    case None
    then have "select_fp j ?db' = None" using g unfolding select_fp_None_iff rows by fastforce
    then show ?thesis using None by (simp add: hub_abs_def restrict_map_def)
  next
    case (Some r)
    then have r: "r \<in> set (fingerprints db)" "fp_id r = j" by (auto dest: select_fp_SomeD)
    have only: "s = r" if "s \<in> set (fingerprints db)" "fp_id s = j" for s
      using same_id_same_row [OF ok that(1) r(1)] that(2) r(2) by simp
    show ?thesis
    proof (cases "?old r")
      case True
      then have "j \<in> purged_ids now p db" using r by (auto simp: purged_ids_def)
      moreover have "select_fp j ?db' = None"
        unfolding select_fp_None_iff rows using only True g by fastforce
      ultimately show ?thesis by (simp add: hub_abs_def restrict_map_def)
    next
      case False
      have kept: "j \<notin> purged_ids now p db" using only False by (auto simp: purged_ids_def)
      have "?g r \<in> set (fingerprints ?db')" unfolding rows using r(1) False by blast
      then have "select_fp j ?db' = Some (?g r)"
        using select_fp_Some_iff [OF fo(2), of j "?g r"] g [of r] r(2) by simp
      moreover have "entry_of ?db' (?g r) = entry_of db r"
        using fl [OF kept] r(2) by (simp add: entry_of_def)
      ultimately show ?thesis using Some kept by (simp add: hub_abs_def restrict_map_def)
    qed
  qed
qed

lemma retention_sim:
  assumes ok: "db_ok db"
  shows "spec_sim t db (snd (apply_retention up now p dry db))"
proof -
  have ok': "db_ok (snd (retention_txn now p db))"
    using retention_body_ok [of now p] ok by (simp add: body_ok_def)
  have "\<forall>i \<in> purged_ids now p db. \<exists>e. hub_abs db i = Some e \<and> en_state e = Deleted"
  proof
    fix i assume "i \<in> purged_ids now p db"
    then obtain r where r: "r \<in> set (fingerprints db)" "fp_id r = i" "fp_status r = Deleted"
      by (auto simp: purged_ids_def old_tombstone_def)
    then have "select_fp i db = Some r" using ok select_fp_Some_iff [of db i r] by (simp add: db_ok_def)
    then show "\<exists>e. hub_abs db i = Some e \<and> en_state e = Deleted"
      using r(3) by (simp add: hub_abs_def entry_of_def)
  qed
  then have "spec_sim t db (snd (retention_txn now p db))"
    unfolding retention_abs [OF ok ok'] by (rule spec_step.purge)
  then have "spec_sim t db (snd (with_connection up (transaction dry (retention_txn now p)) db))"
    by (intro sim_connection)
  then show ?thesis by (simp add: apply_retention_def spec_step.skip)
qed

lemma consumer_ops_sim:
  "spec_sim t db (snd (create_consumer up token name scopes now db))"
  "spec_sim t db (snd (touch_last_seen up cid now db))"
proof -
  have "spec_sim t db (snd (insert_consumer name h scopes now db))" for h
  proof -
    obtain r db' where run: "insert_consumer name h scopes now db = (r, db')" by fastforce
    then have "spec_sim t db db'" by (cases rule: insert_consumer_cases) (auto intro!: sim_same)
    then show ?thesis using run by simp
  qed
  then have "spec_sim t db (snd (with_connection up (transaction False (insert_consumer name h scopes now)) db))"
    for h by (intro sim_connection)
  then show "spec_sim t db (snd (create_consumer up token name scopes now db))"
    using spec_step.skip
    by (auto simp: create_consumer_def Let_def split: prod.split sum.split) (metis snd_conv)+
  show "spec_sim t db (snd (touch_last_seen up cid now db))"
    unfolding touch_last_seen_def
    by (intro sim_connection sim_same) (simp_all add: touch_last_seen_txn_def)
qed

interpretation hub_spec: forward_simulation "hub_step K t" db_ok hub_abs "spec_step t" for K t
proof unfold_locales
  fix db db' assume ok: "db_ok db" and step: "hub_step K t db db'"
  show "db_ok db'" by (rule hub_step_ok [OF step ok])
next
  fix db db' assume ok: "db_ok db" and step: "hub_step K t db db'"
  from step show "spec_step t (hub_abs db) (hub_abs db')"
    by (cases rule: hub_step.cases)
      (blast intro: contribute_sim [OF ok] report_hit_sim [OF ok] flag_sim [OF ok] soft_delete_sim
        retention_sim [OF ok] consumer_ops_sim)+
qed

end
