(* ===== verification/Request_Spec.thy ===== *)
theory Request_Spec
  imports Hub_Spec Api_Lemmas
begin

text \<open>
  What one request does to the abstract catalogue, exactly: which of the four changes it makes, for
  whom and to which entry, tied to the status of its answer, and that it changes nothing otherwise.
\<close>

section \<open>The effect of a request\<close>

text \<open>The normalised hash of a contribution's body.\<close>

definition requested_hash :: "request \<Rightarrow> string" where
  "requested_hash rq = (case rq_body rq of
     BodyJson (JObj d) \<Rightarrow> lower (strip (py_str (dict_get d ''phash_hex'' (JStr [])))) | _ \<Rightarrow> [])"

definition raised_statuses :: "int set" where
  "raised_statuses = {403, 413, 500, 503}"

text \<open>
  From the caller, the request and the status of the answer: \<open>C\<close> is the catalogue before, \<open>C'\<close> after, and
  \<open>C1\<close> the one that the handler of a deletion meets when it deletes, after the requests of others that
  came between its two transactions. A contribution whose row cannot be shown after its commit raises,
  and is answered as the error middleware answers what is raised.
\<close>

fun request_effect ::
  "int \<Rightarrow> endpoint \<Rightarrow> consumer_view \<Rightarrow> request \<Rightarrow> int \<Rightarrow> spec_state \<Rightarrow> spec_state \<Rightarrow> spec_state \<Rightarrow> bool"
where
  "request_effect threshold Contribute c rq st C C1 C' \<longleftrightarrow>
     (if st = 201 then ''write'' \<in> set (cv_scopes c) \<and> spec_contribute (cv_id c) (requested_hash rq) C C'
      else C' = C \<or> (st \<in> raised_statuses \<and> ''write'' \<in> set (cv_scopes c) \<and> spec_contribute (cv_id c) (requested_hash rq) C C'))"
| "request_effect threshold Hit c rq st C C1 C' \<longleftrightarrow>
     (if st = 200 then ''write'' \<in> set (cv_scopes c) \<and> (\<exists>i. path_id rq = Some i \<and> spec_hit i C C') else C' = C)"
| "request_effect threshold Flag c rq st C C1 C' \<longleftrightarrow>
     (if st = 200 then ''write'' \<in> set (cv_scopes c) \<and> (\<exists>i. path_id rq = Some i \<and> spec_flag threshold (cv_id c) i C C')
      else C' = C)"
| "request_effect threshold Delete c rq st C C1 C' \<longleftrightarrow>
     (if st = 204 then ''write'' \<in> set (cv_scopes c) \<and> (\<exists>i e. path_id rq = Some i \<and> C i = Some e \<and> en_state e \<noteq> Deleted
        \<and> (en_owner e = cv_id c \<or> is_admin c) \<and> C' = withdrawn i C1)
      else C' = C \<or> C' = C1)"
| "request_effect threshold _ c rq st C C1 C' \<longleftrightarrow> C' = C"

fun endpoint_of :: "matched_route \<Rightarrow> endpoint option" where
  "endpoint_of (Matched mp) = map_of ROUTES mp"
| "endpoint_of (Unmatched st) = None"

section \<open>The handlers\<close>

lemma raised_status: "rs_status (error_middleware (Inl e)) \<in> raised_statuses"
  by (cases e) (simp_all add: raised_statuses_def error_middleware_def error_response_def json_response_def)

lemma raised_not: "rs_status (error_middleware (Inl e)) \<noteq> 200" "rs_status (error_middleware (Inl e)) \<noteq> 201"
  "rs_status (error_middleware (Inl e)) \<noteq> 204"
  using raised_status [of e] by (auto simp: raised_statuses_def)

lemma returned_status [simp]: "error_middleware (Inr resp) = resp"
  by (simp add: error_middleware_def)

lemma refused_status: "parse_json_body rq = Inr (Refused resp) \<Longrightarrow> rs_status resp = 400"
  by (auto simp: parse_json_body_def split: body_read.splits json.splits)

lemma parsed_hash: "parse_json_body rq = Inr (Parsed d) \<Longrightarrow>
    requested_hash rq = lower (strip (py_str (dict_get d ''phash_hex'' (JStr []))))"
  by (auto simp: parse_json_body_def requested_hash_def split: body_read.splits json.splits)

lemma contribution_of_bodyD:
  "contribution_of_body c now d = Inl resp \<Longrightarrow> rs_status resp = 400"
  "contribution_of_body c now d = Inr con \<Longrightarrow> con_consumer_id con = cv_id c
    \<and> con_phash_hex con = lower (strip (py_str (dict_get d ''phash_hex'' (JStr []))))"
  by (auto simp: contribution_of_body_def Let_def split: if_splits option.splits)

lemma contribute_effect:
  assumes ok: "db_ok db" and run: "contribute_fingerprint sv t c rq db = (r, db')"
  shows "request_effect th Contribute c rq (rs_status (error_middleware r)) (hub_abs db) C1 (hub_abs db')"
proof (cases "''write'' \<in> set (cv_scopes c)")
  case False
  then show ?thesis using run raised_not by (auto simp: contribute_fingerprint_def require_scope_refused)
next
  case writes: True
  show ?thesis
  proof (cases "parse_json_body rq")
    case (Inl e)
    then show ?thesis using run writes raised_not by (auto simp: contribute_fingerprint_def require_scope_granted)
  next
    case parsed: (Inr p)
    show ?thesis
    proof (cases p)
      case (Refused resp)
      then show ?thesis
        using run writes parsed refused_status by (auto simp: contribute_fingerprint_def require_scope_granted)
    next
      case (Parsed d)
      show ?thesis
      proof (cases "contribution_of_body c (su_now_ms t) d")
        case (Inl resp)
        then show ?thesis
          using run writes parsed Parsed contribution_of_bodyD(1) [OF Inl]
          by (auto simp: contribute_fingerprint_def require_scope_granted)
      next
        case (Inr con)
        have key: "con_consumer_id con = cv_id c" "con_phash_hex con = requested_hash rq"
          using contribution_of_bodyD(2) [OF Inr] parsed_hash [of rq d] parsed Parsed by simp_all
        obtain q db1 where store: "contribute (sv_crypto sv) (su_up t 2) (su_nonces t) con db = (q, db1)" by fastforce
        note exact = contribute_exact [OF ok store, unfolded key]
        have r: "(r, db') = (case q of Inl e \<Rightarrow> (Inl e, db1) | Inr (None, created) \<Rightarrow> (Inl TypeError, db1)
            | Inr (Some row, created) \<Rightarrow> if \<not> created
                then (Inr (json_response (JObj [(''error'', JStr ''duplicate fingerprint for this consumer''),
                   (''existing_id'', JInt (fp_id row))]) 409), db1)
                else (case detail_fp (sv_crypto sv) c row of Inl e \<Rightarrow> (Inl e, db1) | Inr j \<Rightarrow> (Inr (json_response j 201), db1)))"
          using run writes parsed Parsed Inr store
          by (simp add: contribute_fingerprint_def require_scope_granted split: sum.split option.split prod.split)
        show ?thesis
        proof (cases q)
          case (Inl e)
          then show ?thesis using r exact raised_not by simp
        next
          case (Inr res)
          obtain row created where res: "res = (row, created)" by fastforce
          show ?thesis
          proof (cases created)
            case False
            then show ?thesis using r exact Inr res raised_not by (cases row) simp_all
          next
            case True
            then have "spec_contribute (cv_id c) (requested_hash rq) (hub_abs db) (hub_abs db1)"
              using exact Inr res by simp
            moreover have "rs_status (error_middleware r) = 201 \<or> (\<exists>e. r = Inl e)" "db' = db1"
              using r Inr res True by (cases row; auto split: sum.splits)+
            moreover have "rs_status (error_middleware r) \<in> raised_statuses" if "r = Inl e" for e
              using that raised_status by simp
            ultimately show ?thesis using writes by auto
          qed
        qed
      qed
    qed
  qed
qed

lemma report_hit_results:
  assumes "db_ok db"
  shows "report_hit K up n i cid g d now db = (Inl e, y) \<Longrightarrow> hub_abs y = hub_abs db"
    and "report_hit K up n i cid g d now db = (Inr None, y) \<Longrightarrow> hub_abs y = hub_abs db"
    and "report_hit K up n i cid g d now db = (Inr (Some m), y) \<Longrightarrow> spec_hit i (hub_abs db) (hub_abs y)"
  using report_hit_exact [OF assms] by fastforce+

lemma flag_results:
  assumes "db_ok db"
  shows "flag K up n i cid reason now th db = (Inl e, y) \<Longrightarrow> hub_abs y = hub_abs db"
    and "flag K up n i cid reason now th db = (Inr None, y) \<Longrightarrow> hub_abs y = hub_abs db"
    and "flag K up n i cid reason now th db = (Inr (Some m), y) \<Longrightarrow> spec_flag th cid i (hub_abs db) (hub_abs y)"
  using flag_exact [OF assms] by fastforce+

lemma soft_delete_results:
  "soft_delete up i now db = (Inl e, y) \<Longrightarrow> hub_abs y = hub_abs db"
  "soft_delete up i now db = (Inr b, y) \<Longrightarrow> hub_abs y = withdrawn i (hub_abs db)"
  using soft_delete_exact by fastforce+

lemma hit_effect:
  assumes ok: "db_ok db" and run: "report_hit_handler sv t c rq db = (r, db')"
  shows "request_effect th Hit c rq (rs_status (error_middleware r)) (hub_abs db) C1 (hub_abs db')"
proof (cases "''write'' \<in> set (cv_scopes c)")
  case False
  then show ?thesis using run raised_not by (auto simp: report_hit_handler_def require_scope_refused)
next
  case True
  then show ?thesis
    using run raised_not
    by (auto simp: report_hit_handler_def require_scope_granted dest: report_hit_results [OF ok]
        split: option.splits sum.splits prod.splits)
qed

lemma flag_effect:
  assumes ok: "db_ok db" and run: "flag_fingerprint sv t c rq db = (r, db')"
  shows "request_effect (sv_threshold sv) Flag c rq (rs_status (error_middleware r)) (hub_abs db) C1 (hub_abs db')"
proof (cases "''write'' \<in> set (cv_scopes c)")
  case False
  then show ?thesis using run raised_not by (auto simp: flag_fingerprint_def require_scope_refused)
next
  case True
  then show ?thesis
    using run raised_not
    by (auto simp: flag_fingerprint_def require_scope_granted dest: flag_results [OF ok]
        split: option.splits sum.splits prod.splits)
qed

lemma delete_effect:
  assumes run: "delete_fingerprint sv t c rq db = (r, db')"
  shows "request_effect th Delete c rq (rs_status (error_middleware r)) (hub_abs db) (hub_abs (su_others t db)) (hub_abs db')"
proof (cases "''write'' \<in> set (cv_scopes c)")
  case False
  then show ?thesis using run raised_not by (auto simp: delete_fingerprint_def require_scope_refused)
next
  case writes: True
  show ?thesis
  proof (cases "path_id rq")
    case None
    then show ?thesis using run writes by (auto simp: delete_fingerprint_def require_scope_granted)
  next
    case i: (Some i)
    show ?thesis
    proof (cases "\<exists>row. get (su_up t 2) i db = Inr (Some row) \<and> fp_status row \<noteq> Deleted
        \<and> (fp_consumer_id row = cv_id c \<or> is_admin c)")
      case False
      then show ?thesis
        using run writes i raised_not
        by (auto simp: delete_fingerprint_def require_scope_granted split: sum.splits option.splits if_splits)
    next
      case True
      then obtain row where row: "get (su_up t 2) i db = Inr (Some row)" "fp_status row \<noteq> Deleted"
        "fp_consumer_id row = cv_id c \<or> is_admin c" by blast
      then have "select_fp i db = Some row" by (auto simp: get_def split: if_splits)
      then have entry: "hub_abs db i = Some (entry_of db row)" by (rule hub_abs_Some)
      obtain q y where del: "soft_delete (su_up t 3) i (su_now_ms t) (su_others t db) = (q, y)" by fastforce
      show ?thesis
      proof (cases q)
        case (Inl e)
        then have "r = Inl e" "db' = y"
          using run writes i row del by (auto simp: delete_fingerprint_def require_scope_granted)
        then show ?thesis using raised_not soft_delete_results(1) [OF del [unfolded Inl]] by simp
      next
        case (Inr b)
        then have "r = Inr \<lparr>rs_status = 204, rs_payload = Empty\<rparr>" "db' = y"
          using run writes i row del by (auto simp: delete_fingerprint_def require_scope_granted)
        then show ?thesis
          using soft_delete_results(2) [OF del [unfolded Inr]] writes i entry row(2,3) by (simp add: entry_of_def)
      qed
    qed
  qed
qed

section \<open>The service\<close>

text \<open>Marking the caller as seen, or not, is one last-seen update that may fail.\<close>

lemma marked_as_seen:
  obtains up where "snd (mark_last_seen t c L db) = snd (touch_last_seen up (cv_id c) (su_now_ms t) db)"
proof (cases "snd (mark_last_seen t c L db) = db")
  case True
  then show ?thesis by (intro that [of False]) (simp add: touch_last_seen_def with_connection_def)
next
  case False
  then show ?thesis by (intro that [of "su_up t 1"]) (auto simp: mark_last_seen_def split: if_splits)
qed

lemma touched_same_hub:
  "fingerprints (snd (touch_last_seen up cid now db)) = fingerprints db"
  "fingerprint_flags (snd (touch_last_seen up cid now db)) = fingerprint_flags db"
  by (simp_all add: touch_last_seen_def with_connection_def transaction_def touch_last_seen_txn_def)

lemma endpoint_effect:
  assumes ok: "db_ok db" and run: "endpoint_handler e sv t c rq db = (r, db')"
  shows "request_effect (sv_threshold sv) e c rq (rs_status (error_middleware r)) (hub_abs db)
    (hub_abs (su_others t db)) (hub_abs db')"
proof (cases "e \<in> {Health, Sync, Stats, Browse, Detail}")
  case True
  then have "db' = db" using reading_endpoint [OF True, of sv t c rq db] run by simp
  then show ?thesis using True by auto
next
  case False
  then consider "e = Contribute" | "e = Hit" | "e = Flag" | "e = Delete" by (cases e) auto
  then show ?thesis
  proof cases
    case 1
    show ?thesis unfolding 1 by (rule contribute_effect [OF ok]) (use run 1 in simp)
  next
    case 2
    show ?thesis unfolding 2 by (rule hit_effect [OF ok]) (use run 2 in simp)
  next
    case 3
    show ?thesis unfolding 3 by (rule flag_effect [OF ok]) (use run 3 in simp)
  next
    case 4
    show ?thesis unfolding 4 by (rule delete_effect) (use run 4 in simp)
  qed
qed

lemma no_effect:
  "st \<notin> {200, 201, 204} \<Longrightarrow> request_effect th e c rq st C C1 C"
  by (cases e) simp_all

lemma serve_effect:
  assumes ok: "db_ok db" and run: "serve sv t route rq L db = (resp, L', db')"
  shows "\<exists>up. case (authenticated rq db, endpoint_of route) of
      (Some c, Some e) \<Rightarrow> request_effect (sv_threshold sv) e c rq (rs_status resp) (hub_abs db)
        (hub_abs (su_others t (snd (touch_last_seen up (cv_id c) (su_now_ms t) db)))) (hub_abs db')
    | _ \<Rightarrow> hub_abs db' = hub_abs db"
proof (cases "rq_path rq \<in> set PUBLIC_PATHS")
  case True
  have same: "db' = db"
    using run True by (auto simp: serve_def auth_middleware_def dispatch_def health_def
        split: matched_route.splits option.splits endpoint.splits sum.splits)
  have "endpoint_of route = Some Health \<or> rs_status resp \<notin> {200, 201, 204} \<or> endpoint_of route = None"
    using run True raised_not
    by (cases route) (auto simp: serve_def auth_middleware_def dispatch_def split: option.splits endpoint.splits)
  then show ?thesis using same no_effect by (auto split: option.split)
next
  case api: False
  show ?thesis
  proof (cases "authenticated rq db")
    case None
    have "db' = db"
      using run api None unauthenticated_refused [OF api _ None, of t]
      by (cases "su_up t 0") (auto simp: serve_def auth_middleware_def find_by_key_hash_def authenticated_def
          split: option.splits if_splits)
    then show ?thesis using None by simp
  next
    case (Some c)
    show ?thesis
    proof (cases "su_up t 0")
      case False
      then have "rs_status resp = 503" "db' = db"
        using run lookup_unreachable [OF api False Some] by (auto simp: serve_def error_middleware_def)
      then show ?thesis using Some no_effect by (auto split: option.split)
    next
      case up: True
      obtain limited L1 where lim: "rate_limited (rate_limit_per_minute (sv_config sv)) (cv_id c) (su_monotonic t) L
          = (limited, L1)" by fastforce
      note served = run [unfolded serve_def authenticated_runs [OF api up Some] lim]
      show ?thesis
      proof (cases limited)
        case True
        then have "rs_status resp = 429" "db' = db" using served by auto
        then show ?thesis using Some no_effect by (auto split: option.split)
      next
        case False
        obtain db1 where db1: "db1 = snd (mark_last_seen t c L1 db)" by simp
        obtain up' where up': "db1 = snd (touch_last_seen up' (cv_id c) (su_now_ms t) db)"
          unfolding db1 by (rule marked_as_seen)
        have same: "hub_abs db1 = hub_abs db" unfolding up' by (rule hub_abs_cong) (simp_all add: touched_same_hub)
        have ok1: "db_ok db1" unfolding up' by (rule touch_op.stats_ok [OF ok])
        obtain r where r: "dispatch sv t route (Some c) rq db1 = (r, db')" "resp = error_middleware r"
          using served False db1
          by (intro that [of "fst (dispatch sv t route (Some c) rq db1)"]) (auto simp: case_prod_unfold Let_def)
        show ?thesis
        proof (cases "endpoint_of route")
          case None
          then have "db' = db1" using r(1) by (cases route) (auto simp: dispatch_def)
          then show ?thesis using same Some None by simp
        next
          case e: (Some e)
          then obtain mp where mp: "route = Matched mp" "map_of ROUTES mp = Some e" by (cases route) auto
          have "endpoint_handler e sv t c rq db1 = (r, db')" using r(1) mp by (cases e) (simp_all add: dispatch_def)
          from endpoint_effect [OF ok1 this] show ?thesis
            using Some e same r(2) unfolding up' by auto
        qed
      qed
    qed
  qed
qed

end
