(* ===== verification/Api_Properties.thy ===== *)
theory Api_Properties
  imports Api_Outcomes Rate_Limit Samples Request_Spec
begin

text \<open>
  The properties of the HTTP interface: who may do what, what a consumer can learn about the rows of
  others, the rate limiter, the checks on a contribution, and the answers to outages.
\<close>

section \<open>Sample requests\<close>

definition sample_service :: service where
  "sample_service = \<lparr>sv_crypto = sample_crypto, sv_config = load_config_from_env (\<lambda>_. None)\<rparr>"

definition sample_surroundings :: surroundings where
  "sample_surroundings = \<lparr>su_up = (\<lambda>_. True), su_now_ms = 40, su_monotonic = 100,
     su_nonces = (sample_nonce, sample_nonce, sample_nonce), su_others = (\<lambda>db. db)\<rparr>"

definition sample_request :: "string option \<Rightarrow> (string \<times> string) list \<Rightarrow> body_read \<Rightarrow> request" where
  "sample_request i q body = \<lparr>rq_path = ''/v1/fingerprints'', rq_api_key = Some ''k'',
     rq_query = q, rq_id = i, rq_body = body\<rparr>"

text \<open>The sample database with one consumer whose key is \<^verbatim>\<open>k\<close>.\<close>

definition keyed_db :: "string list \<Rightarrow> bool \<Rightarrow> db" where
  "keyed_db scopes enabled = sample_db\<lparr>consumers := [(sample_consumer 2 ''beta'')
     \<lparr>cons_api_key_hash := hash_api_key ''k'', cons_scopes := scopes, cons_enabled := enabled\<rparr>]\<rparr>"

definition sample_view :: "int \<Rightarrow> string list \<Rightarrow> consumer_view" where
  "sample_view i scopes = \<lparr>cv_id = i, cv_name = ''beta'', cv_scopes = scopes, cv_enabled = True\<rparr>"

lemma keyed_authenticated:
  "authenticated (sample_request i q b) (keyed_db scopes enabled)
    = (if enabled then Some (sample_view 2 scopes) else None)"
  by (simp add: authenticated_def find_by_key_hash_True sample_request_def keyed_db_def sample_consumer_def
      consumer_view_of_def sample_view_def)

lemma sample_public [simp]: "rq_path (sample_request i q b) \<notin> set PUBLIC_PATHS"
  by (simp add: sample_request_def PUBLIC_PATHS_def)

lemma sample_up [simp]: "su_up sample_surroundings n" "su_others sample_surroundings db = db"
  by (simp_all add: sample_surroundings_def)

section \<open>Requests and the invariant\<close>

text \<open>C10: serving any request, with any body, clock, outage pattern and interleaved store operations, keeps the hub's invariant: the threshold in force is the configured one, which is at least one whatever the environment says.\<close>

theorem service_invariant:
  assumes "sv_config sv = load_config_from_env env"
    and "hub_inv (auto_hide_flag_threshold (sv_config sv)) db"
    and "\<And>x. hub_steps (sv_crypto sv) (auto_hide_flag_threshold (sv_config sv)) x (su_others t x)"
  shows "hub_inv (auto_hide_flag_threshold (sv_config sv)) (snd (snd (serve sv t route rq L db)))"
  using hub_steps_inv [OF serve_steps [OF assms(3)] _ assms(2)] threshold_positive assms(1) by simp

lemma service_invariant_witness:
  "hub_inv 2 (snd (snd (serve sample_service sample_surroundings
     (Matched (''POST'', ''/v1/fingerprints/{id}/flag'')) (sample_request (Some ''1'') [] (BodyInvalid []))
     fresh_limiter sample_db)))"
proof -
  have thr: "auto_hide_flag_threshold (sv_config sample_service) = 2"
    by (simp add: sample_service_def load_config_from_env_def int_env_def
        DEFAULT_AUTO_HIDE_FLAG_THRESHOLD_def)
  show ?thesis
    using service_invariant [of sample_service "\<lambda>_. None" sample_db sample_surroundings]
      sample_db_inv thr by (simp add: sample_service_def)
qed

text \<open>C4: refinement: serving a request does to the hub's abstract catalogue (owner, hash, state, flaggers and hit count of every entry) exactly what its answer says. A contribution answered 201 publishes a new entry of the caller under its normalised hash, or revives the caller's own withdrawn entry of that hash; a hit answered 200 adds one to the hits of the entry named; a flag answered 200 adds the caller to its flaggers and hides it at the threshold; a deletion answered 204 withdraws an entry that the caller owns or, as administrator, may withdraw; all four need the write scope. Any other answer of these endpoints leaves the catalogue alone, save a contribution that raises after its commit and what others did while a deletion ran; reads and refused callers change nothing.\<close>

theorem service_refines_spec:
  assumes "db_ok db" "serve sv t route rq L db = (resp, L', db')"
  shows "\<exists>up. case (authenticated rq db, endpoint_of route) of
      (Some c, Some e) \<Rightarrow> request_effect (sv_threshold sv) e c rq (rs_status resp) (hub_abs db)
        (hub_abs (su_others t (snd (touch_last_seen up (cv_id c) (su_now_ms t) db)))) (hub_abs db')
    | _ \<Rightarrow> hub_abs db' = hub_abs db"
  by (rule serve_effect [OF assms])

text \<open>A consistent database in which the second consumer has the key \<^verbatim>\<open>k\<close>.\<close>

definition shared_db :: db where
  "shared_db = sample_db\<lparr>consumers := [sample_consumer 1 ''alpha'',
     (sample_consumer 2 ''beta'')\<lparr>cons_api_key_hash := hash_api_key ''k''\<rparr>]\<rparr>"

lemma shared_db_facts:
  "db_ok shared_db" "authenticated (sample_request i q b) shared_db = Some (sample_view 2 [''read'', ''write''])"
  "hub_abs shared_db 1 = Some (entry_of shared_db sample_row)"
proof -
  have ne: "hash_api_key ''k'' \<noteq> ''alpha''" using hash_api_key_length [of "''k''"] by auto
  show "db_ok shared_db"
    by (simp add: db_ok_defs shared_db_def sample_db_def sample_row_def sample_consumer_def VALID_ACTIONS_def
        VALID_CATEGORIES_def VALID_SCOPES_def ne ne [symmetric])
  show "authenticated (sample_request i q b) shared_db = Some (sample_view 2 [''read'', ''write''])"
    using ne by (simp add: authenticated_def find_by_key_hash_True sample_request_def shared_db_def
        sample_consumer_def consumer_view_of_def sample_view_def)
  show "hub_abs shared_db 1 = Some (entry_of shared_db sample_row)"
    by (rule hub_abs_Some) (simp add: select_fp_def shared_db_def sample_db_def sample_row_def)
qed

lemma service_refines_spec_witness:
  "\<exists>resp L' db'. serve sample_service sample_surroundings (Matched (''POST'', ''/v1/fingerprints/{id}/hit''))
      (sample_request (Some ''1'') [] (BodyInvalid [])) fresh_limiter shared_db = (resp, L', db')
    \<and> rs_status resp = 200
    \<and> hub_abs db' = (hub_abs shared_db)(1 \<mapsto> (entry_of shared_db sample_row)\<lparr>en_hits := 1\<rparr>)"
proof -
  let ?rq = "sample_request (Some ''1'') [] (BodyInvalid [])" and ?c = "sample_view 2 [''read'', ''write'']"
  let ?route = "Matched (''POST'', ''/v1/fingerprints/{id}/hit'')"
  obtain resp L' db' where run: "serve sample_service sample_surroundings ?route ?rq fresh_limiter shared_db
      = (resp, L', db')" by (rule prod_cases3)
  have id: "path_id ?rq = Some 1"
    by (simp add: path_id_def sample_request_def py_int_def strip_def lstrip_def
        rstrip_def is_space_def unsigned_value_def is_digit_def MAX_STR_DIGITS_def Let_def)
  have route: "endpoint_of ?route = Some Hit" by (simp add: ROUTES_def add_get_def)
  have limit: "rate_limit_per_minute (sv_config sample_service) = 300"
    by (simp add: sample_service_def load_config_from_env_def int_env_def DEFAULT_RATE_LIMIT_PER_MINUTE_def)
  have body: "optional_body ?rq = Inr []"
    by (simp add: optional_body_def parse_json_body_def sample_request_def)
  have seen: "mark_last_seen sample_surroundings ?c L shared_db = (L\<lparr>last_seen_marked := [2 \<mapsto> 100]\<rparr>,
      snd (touch_last_seen True 2 40 shared_db))" if "last_seen_marked L = Map.empty" for L
    using that by (simp add: mark_last_seen_def LAST_SEEN_THROTTLE_SECONDS_def sample_surroundings_def sample_view_def)
  have now: "su_now_ms sample_surroundings = 40" by (simp add: sample_surroundings_def)
  have "fst (report_hit (sv_crypto sample_service) True (fst (su_nonces sample_surroundings)) 1 2 None None 40
      (snd (touch_last_seen True 2 40 shared_db))) = Inr (Some 1)"
    by (simp add: report_hit_def with_connection_def transaction_def report_hit_txn_def touch_last_seen_def
        touch_last_seen_txn_def select_fp_def shared_db_def sample_db_def sample_row_def sample_consumer_def
        encrypt_text_def insert_hit_def Let_def update_fp_def)
  then obtain y where hit: "report_hit (sv_crypto sample_service) True (fst (su_nonces sample_surroundings)) 1 2
      None None 40 (snd (touch_last_seen True 2 40 shared_db)) = (Inr (Some 1), y)" by (metis prod.collapse)
  have st: "rs_status resp = 200"
    using run
    by (simp add: serve_def authenticated_runs [OF sample_public _ shared_db_facts(2)] limit rate_limited_def
        fresh_limiter_def dispatch_def ROUTES_def add_get_def report_hit_handler_def require_scope_def id now body hit
        seen [unfolded sample_view_def] distance_of_def dict_get_def str_or_none_def sample_view_def)
      auto
  have "spec_hit 1 (hub_abs shared_db) (hub_abs db')"
    using service_refines_spec [OF shared_db_facts(1) run] st id route by (auto simp: shared_db_facts(2) simp del: endpoint_of.simps)
  then have "hub_abs db' = (hub_abs shared_db)(1 \<mapsto> (entry_of shared_db sample_row)\<lparr>en_hits := 1\<rparr>)"
    by (auto simp: spec_hit_def shared_db_facts(3) entry_of_def sample_row_def)
  with run st show ?thesis by blast
qed

section \<open>Authentication and authorisation\<close>

text \<open>C25: when the database answers the lookup of the key (otherwise the answer is 503), a request outside the public paths without a key, with an unknown key or with the key of a disabled consumer is answered 401 and changes neither the database nor the limiter.\<close>

theorem unauthenticated_no_effect:
  assumes "rq_path rq \<notin> set PUBLIC_PATHS" "su_up t 0" "authenticated rq db = None"
  shows "rs_status (fst (serve sv t route rq L db)) = 401 \<and> snd (serve sv t route rq L db) = (L, db)"
proof -
  obtain m where "auth_middleware (rate_limit_per_minute (sv_config sv)) (dispatch sv t route) t rq L db
      = (Inr (error_response m 401), L, db)"
    using unauthenticated_refused [OF assms] by blast
  then show ?thesis by (simp add: serve_def error_middleware_def)
qed

lemma unauthenticated_no_effect_witness:
  "rs_status (fst (serve sample_service sample_surroundings (Matched (''POST'', ''/v1/fingerprints''))
     (sample_request None [] (BodyInvalid [])) fresh_limiter (keyed_db [''write''] False))) = 401"
  using unauthenticated_no_effect [of "sample_request None [] (BodyInvalid [])" sample_surroundings
      "keyed_db [''write''] False" sample_service]
  by (simp add: keyed_authenticated)

text \<open>C24: when the database answers the lookup of the key, an authenticated consumer without the scope an endpoint requires gets 403 (or 429 when rate-limited), and no fingerprint, hit, flag or sync cursor changes.\<close>

theorem scope_enforced:
  assumes "rq_path rq \<notin> set PUBLIC_PATHS" "su_up t 0" "authenticated rq db = Some c"
    "map_of ROUTES mp = Some e" "required_scope e = Some scope" "scope \<notin> set (cv_scopes c)"
  shows "rs_status (fst (serve sv t (Matched mp) rq L db)) \<in> {403, 429}
    \<and> fingerprints (snd (snd (serve sv t (Matched mp) rq L db))) = fingerprints db
    \<and> fingerprint_hits (snd (snd (serve sv t (Matched mp) rq L db))) = fingerprint_hits db
    \<and> fingerprint_flags (snd (snd (serve sv t (Matched mp) rq L db))) = fingerprint_flags db
    \<and> fingerprints_sync_seq (snd (snd (serve sv t (Matched mp) rq L db))) = fingerprints_sync_seq db"
proof -
  have ne: "e \<noteq> Health" using assms(5) by auto
  have d: "dispatch sv t (Matched mp) (Some c) rq x
      = (Inl (HTTPForbidden (''{\"error\": \"missing required scope: '' @ scope @ ''\"}'')), x)" for x
    using assms(4) ne endpoint_refused [OF assms(5,6), of sv t rq x]
    by (cases e) (simp_all add: dispatch_def)
  show ?thesis
    by (simp add: serve_def authenticated_runs [OF assms(1-3)] case_prod_unfold Let_def d
        error_middleware_def mark_last_seen_tables)
qed

lemma scope_enforced_witness:
  "rs_status (fst (serve sample_service sample_surroundings (Matched (''POST'', ''/v1/fingerprints''))
     (sample_request None [] (BodyInvalid [])) fresh_limiter (keyed_db [''read''] True))) \<in> {403, 429}"
  using scope_enforced [of "sample_request None [] (BodyInvalid [])" sample_surroundings
      "keyed_db [''read''] True" "sample_view 2 [''read'']" "(''POST'', ''/v1/fingerprints'')" Contribute
      "''write''" sample_service fresh_limiter]
  by (simp add: keyed_authenticated ROUTES_def add_get_def sample_view_def)

text \<open>C7: confidentiality of other tenants' rows: two databases that agree on a non-administrator's own rows and on the nine peer columns of all other rows are answered alike by every reading endpoint. So nothing else about another tenant's row can be learned through them, neither whose it is nor its private texts, times, provenance or counts.\<close>

theorem reads_confidential:
  assumes "look_alike c db1 db2" "\<not> is_admin c" "e \<in> {Health, Sync, Stats, Browse, Detail}"
  shows "fst (endpoint_handler e sv t c rq db1) = fst (endpoint_handler e sv t c rq db2)"
  by (rule reads_alike [OF assms])

definition other_db :: db where
  "other_db = sample_db\<lparr>fingerprints := [sample_row\<lparr>fp_consumer_id := 3, fp_reason := Some ''secret'', fp_hit_count := 7,
     fp_provenance := ''auto'', fp_flag_count := 1\<rparr>]\<rparr>"

lemma reads_confidential_witness:
  "fst (get_fingerprint sample_service sample_surroundings (sample_view 2 [''read''])
      (sample_request (Some ''1'') [] (BodyInvalid [])) sample_db)
    = fst (get_fingerprint sample_service sample_surroundings (sample_view 2 [''read''])
      (sample_request (Some ''1'') [] (BodyInvalid [])) other_db)"
proof -
  have la: "look_alike (sample_view 2 [''read'']) sample_db other_db"
    by (simp add: look_alike_def other_db_def sample_db_def sample_row_def alike_def sample_view_def
        sync_columns_def)
  have na: "\<not> is_admin (sample_view 2 [''read''])" by (simp add: is_admin_def sample_view_def)
  from reads_confidential [OF la na, of Detail] show ?thesis by simp
qed

text \<open>C9: deletion needs authority at the moment of the deletion: however other requests interleave between the handler's ownership check and its delete, a request of a consumer that lacks the write scope, or neither owns the row then nor is an administrator, leaves the database as it is.\<close>

theorem delete_authority:
  assumes "db_ok db" "hub_steps K threshold db (su_others t db)"
    "r \<in> set (fingerprints (su_others t db))" "path_id rq = Some (fp_id r)"
    "\<not> (''write'' \<in> set (cv_scopes c) \<and> (fp_consumer_id r = cv_id c \<or> is_admin c))"
  shows "snd (delete_fingerprint sv t c rq db) = db"
  by (rule delete_needs_authority [OF assms])

lemma delete_authority_witness:
  "snd (delete_fingerprint sample_service sample_surroundings (sample_view 2 [''read'', ''write''])
     (sample_request (Some ''1'') [] (BodyInvalid [])) sample_db) = sample_db"
proof (rule delete_authority [OF sample_db_ok, of sample_crypto 2 _ sample_row])
  show "hub_steps sample_crypto 2 sample_db (su_others sample_surroundings sample_db)" by simp
  show "sample_row \<in> set (fingerprints (su_others sample_surroundings sample_db))"
    by (simp add: sample_db_def)
  show "path_id (sample_request (Some ''1'') [] (BodyInvalid [])) = Some (fp_id sample_row)"
    by (simp add: path_id_def sample_request_def sample_row_def py_int_def strip_def lstrip_def
        rstrip_def is_space_def unsigned_value_def is_digit_def MAX_STR_DIGITS_def Let_def)
qed (simp add: sample_view_def sample_row_def is_admin_def)

section \<open>Rate limiting\<close>

text \<open>C26: the sliding-window limiter, which forgets what has left its window, admits exactly the requests that a limiter with the whole history admits: a request is refused when its consumer had the limit's number of admitted requests in the preceding 60 seconds.\<close>

theorem limiter_exact:
  assumes "sorted (map snd es)"
  shows "admit rate_limit es fresh_limiter = admit_spec rate_limit es []"
  by (rule admit_fresh [OF assms])

lemma limiter_exact_witness:
  "admit 2 [(1, 0), (1, 10), (1, 60), (1, 61)] fresh_limiter = [(1, 0), (1, 10), (1, 61)]"
  by (subst limiter_exact) (simp_all add: spec_limited_def times_of_def)

text \<open>C27: no consumer is admitted more often than the limit in any window of 60 seconds, both ends included, whatever other consumers send.\<close>

theorem limiter_window:
  assumes "sorted (map snd es)"
  shows "int (length (filter (\<lambda>t. w \<le> t \<and> t \<le> w + 60) (times_of c (admit rate_limit es fresh_limiter))))
    \<le> max 0 rate_limit"
  using admit_window [OF assms, of c w rate_limit] by (simp add: in_window_def)

lemma limiter_window_witness:
  "int (length (filter (\<lambda>t. 0 \<le> t \<and> t \<le> 0 + 60)
     (times_of 1 (admit 2 [(1, 0), (1, 10), (1, 60), (1, 61)] fresh_limiter)))) \<le> 2"
  using limiter_window [of "[(1, 0), (1, 10), (1, 60), (1, 61)]" 0 1 2] by simp

section \<open>Contributions\<close>


text \<open>C21: a contributor whose hash is new gets 201 with its own private texts in clear, while the row that this response shows is stored with them encrypted: exactly one stored row has the answered id, it is the caller's, active, with the answered hash and cursor, each of its three private columns is the envelope of the text sent (or null where none was sent), and what the response shows is what was sent.\<close>

theorem owner_reads_back:
  assumes "db_ok db" "''write'' \<in> set (cv_scopes c)" "rq_body rq = BodyJson (JObj body)"
    "contribution_of_body c (su_now_ms t) body = Inr con" "contribution_ok con db"
    "\<not> (\<exists>r. live_contribution con db r)" "su_up t 2"
    "aead_correct (cr_aead (sv_crypto sv))" "cr_ring (sv_crypto sv) = Inr ring" "keyring_ok ring"
    "length (fst (su_nonces t)) = NONCE_BYTES" "length (fst (snd (su_nonces t))) = NONCE_BYTES"
    "length (snd (snd (su_nonces t))) = NONCE_BYTES"
  shows "\<exists>d db' row. contribute_fingerprint sv t c rq db = (Inr (json_response (JObj d) 201), db')
    \<and> {r \<in> set (fingerprints db'). fp_id r = fp_id row} = {row}
    \<and> dict_get d ''id'' JNull = JInt (fp_id row)
    \<and> contributed con (fingerprints_sync_seq db) row \<and> fp_consumer_id row = cv_id c
    \<and> sealed_as (sv_crypto sv) (su_nonces t) con row
    \<and> pred_option is_encrypted_value (fp_reason row) \<and> (fp_reason row = None \<longleftrightarrow> con_reason con = None)
    \<and> pred_option is_encrypted_value (fp_source_url row) \<and> (fp_source_url row = None \<longleftrightarrow> con_source_url con = None)
    \<and> pred_option is_encrypted_value (fp_source_guild_id row)
    \<and> (fp_source_guild_id row = None \<longleftrightarrow> con_source_guild_id con = None)
    \<and> dict_get d ''reason'' JNull = opt_text (con_reason con)
    \<and> dict_get d ''source_url'' JNull = opt_text (con_source_url con)
    \<and> dict_get d ''source_guild_id'' JNull = opt_text (con_source_guild_id con)
    \<and> dict_get d ''phash_hex'' JNull = JStr (con_phash_hex con)
    \<and> dict_get d ''status'' JNull = JStr ''active''
    \<and> dict_get d ''sync_seq'' JNull = JInt (fingerprints_sync_seq db)"
  by (rule contribute_reads_back [OF assms])

definition sample_body :: dict where
  "sample_body = [(''phash_hex'', JStr ''00FF00ff00ff00ff''), (''category'', JStr ''scam''),
     (''action'', JStr ''kick''), (''reason'', JStr ''x'')]"

lemma sample_body_accepted:
  "contribution_of_body (sample_view 2 [''write'']) 40 sample_body = Inr ((sample_contribution 2)\<lparr>con_now_ms := 40\<rparr>)"
  by (simp add: contribution_of_body_def sample_body_def sample_view_def sample_contribution_def
      strip_def lstrip_def rstrip_def is_space_def lower_def lower_char_def PHASH_RE_match_def
      is_lower_hex_def VALID_CATEGORIES_def VALID_ACTIONS_def bool_or_none_def str_or_none_def
      or_default_def DEFAULT_ALGORITHM_def DEFAULT_ALGORITHM_VERSION_def
      DEFAULT_NORMALIZATION_VERSION_def Let_def char_of_eq_iff take_bit_eq_mod)

lemma owner_reads_back_witness:
  "\<exists>d db'. contribute_fingerprint sample_service sample_surroundings (sample_view 2 [''write''])
      (sample_request None [] (BodyJson (JObj sample_body))) sample_db
        = (Inr (json_response (JObj d) 201), db')
    \<and> dict_get d ''reason'' JNull = JStr ''x''"
proof -
  let ?con = "(sample_contribution 2)\<lparr>con_now_ms := 40\<rparr>"
  have acc: "contribution_of_body (sample_view 2 [''write'']) (su_now_ms sample_surroundings) sample_body = Inr ?con"
    using sample_body_accepted by (simp add: sample_surroundings_def)
  have con: "contribution_ok ?con sample_db"
    by (simp add: contribution_ok_def sample_contribution_def sample_db_def sample_consumer_def
        VALID_ACTIONS_def VALID_CATEGORIES_def sql_simps)
  have free: "\<not> (\<exists>r. live_contribution ?con sample_db r)"
    by (auto simp: live_contribution_def sample_contribution_def sample_db_def sample_row_def)
  have rq: "rq_body (sample_request None [] (BodyJson (JObj sample_body))) = BodyJson (JObj sample_body)"
    and w: "''write'' \<in> set (cv_scopes (sample_view 2 [''write'']))"
    and reason: "opt_text (con_reason ?con) = JStr ''x''"
    by (simp_all add: sample_request_def sample_view_def opt_text_def sample_contribution_def)
  have k: "aead_correct (cr_aead (sv_crypto sample_service))"
    "cr_ring (sv_crypto sample_service) = Inr sample_ring"
    by (simp_all add: sample_service_def sample_crypto_def sample_aead_correct)
  have n: "length (fst (su_nonces sample_surroundings)) = NONCE_BYTES"
    "length (fst (snd (su_nonces sample_surroundings))) = NONCE_BYTES"
    "length (snd (snd (su_nonces sample_surroundings))) = NONCE_BYTES"
    by (simp_all add: sample_surroundings_def sample_nonce_def NONCE_BYTES_def)
  from owner_reads_back [OF sample_db_ok w rq acc con free _ k sample_ring_ok n] reason
  show ?thesis by auto
qed

section \<open>Outages and bad distances\<close>

text \<open>When the database cannot be reached, an API request with a key is answered 503 and changes nothing, while the health endpoint reports the outage itself with 503.\<close>

lemma outage_is_503:
  assumes "rq_path rq \<notin> set PUBLIC_PATHS" "rq_api_key rq = Some k" "k \<noteq> []" "\<not> su_up t 0" "\<not> su_up t 2"
  shows "serve sv t route rq L db = (error_response ''database temporarily unavailable'' 503, L, db)
    \<and> health t rq db = (Inr (json_response (JObj [(''status'', JStr ''degraded''), (''db'', JBool False)]) 503), db)"
  using outage_response [OF assms(1,4,2,3)] assms(5) by (simp add: health_def ping_def)

lemma outage_is_503_witness:
  "fst (serve sample_service (sample_surroundings\<lparr>su_up := (\<lambda>_. False)\<rparr>) (Unmatched 404)
     (sample_request None [] (BodyInvalid [])) fresh_limiter sample_db)
   = error_response ''database temporarily unavailable'' 503"
  using outage_is_503 [of "sample_request None [] (BodyInvalid [])" "''k''"
      "sample_surroundings\<lparr>su_up := (\<lambda>_. False)\<rparr>" sample_service "Unmatched 404" fresh_limiter sample_db]
  by (simp add: sample_request_def PUBLIC_PATHS_def)



end
