(* ===== verification/Retention_Properties.thy ===== *)
theory Retention_Properties
  imports Retention_Lemmas Samples Row_Lifecycle
begin

text \<open>
  The properties of the retention policy: what a run leaves in the tables and counts, what data it
  guarantees to be gone, and that a preview tells the truth and changes nothing.
\<close>

section \<open>Cascades and cutoffs\<close>

lemma filter_map_same: "(\<And>x. P (f x) = P x) \<Longrightarrow> filter P (map f xs) = map f (filter P xs)"
  by (induction xs) auto

lemma retention_counts_eq:
  "fst (retention_txn now p db) = Inr
    \<lparr>hits_deleted = int (length (filter (expired_hit (now - hit_retention_ms p)) (fingerprint_hits db))),
     flag_reasons_cleared =
       int (length (filter (stale_reason (now - flag_reason_retention_ms p)) (fingerprint_flags db))),
     tombstones_anonymized = int (length (filter (\<lambda>r. old_tombstone (now - tombstone_metadata_retention_ms p) r
        \<and> has_metadata r \<and> \<not> old_tombstone (now - tombstone_retention_ms p) r) (fingerprints db))),
     tombstones_deleted = int (length (filter (old_tombstone (now - tombstone_retention_ms p)) (fingerprints db)))\<rparr>"
  by (simp add: retention_txn_def Let_def delete_hits_def clear_flag_reasons_def purge_tombstones_def
      delete_fps_def anonymize_tombstones_def conj_ac)

lemma cutoff_fun_eqs:
  "expired_hit c = (\<lambda>h. hit_at_ms h < c)"
  "stale_reason c = (\<lambda>f. flag_reason f \<noteq> None \<and> flag_created_at_ms f < c)"
  by (simp_all add: fun_eq_iff expired_hit_def stale_reason_def)

lemma live_rows_kept:
  "filter (\<lambda>r. fp_status r \<noteq> Deleted)
     (map (\<lambda>r. if old_tombstone c r \<and> has_metadata r then anonymize r else r)
       (filter (\<lambda>r. \<not> old_tombstone d r) rs)) = filter (\<lambda>r. fp_status r \<noteq> Deleted) rs"
  by (induction rs) (auto simp: old_tombstone_def)

lemma anonymize_nothing: "\<not> has_metadata r \<Longrightarrow> anonymize r = r"
  by (simp add: anonymize_def has_metadata_def)

lemma clear_nothing: "flag_reason f = None \<Longrightarrow> f\<lparr>flag_reason := None\<rparr> = f"
  by simp

lemma purged_iff:
  "db_ok db \<Longrightarrow> r \<in> set (fingerprints db) \<Longrightarrow>
    fp_id r \<in> purged_ids now p db \<longleftrightarrow> old_tombstone (now - tombstone_retention_ms p) r"
  by (auto simp: purged_ids_def dest: same_id_same_row)

lemma purged_count:
  assumes "db_ok db"
  shows "length (filter (old_tombstone (now - tombstone_retention_ms p)) (fingerprints db))
    = card (purged_ids now p db)"
proof -
  let ?rs = "filter (old_tombstone (now - tombstone_retention_ms p)) (fingerprints db)"
  have "distinct (map fp_id ?rs)"
    using assms by (intro distinct_map_filter_key) (simp add: db_ok_def fingerprints_ok_def)
  then have "card (set (map fp_id ?rs)) = length ?rs" by (metis distinct_card length_map)
  then show ?thesis by (simp add: purged_ids_def)
qed

lemma map_filter_cong:
  "(\<And>x. x \<in> set xs \<Longrightarrow> P x = Q x) \<Longrightarrow> (\<And>x. x \<in> set xs \<Longrightarrow> f x = g x) \<Longrightarrow>
    map f (filter P xs) = map g (filter Q xs)"
  by (induction xs) auto

text \<open>C20: a retention run deletes the hits older than their period and those of purged rows, blanks the flag reasons older than theirs, purges the tombstones older than the tombstone period with their hits and flags, clears the private columns of the remaining tombstones older than the metadata period, keeps every other row as it is, and reports how many rows each of the four statements touched.\<close>

theorem retention_effect:
  assumes "db_ok db" "policy_ok p"
  shows "\<exists>db'. apply_retention True now p False db = (Inr
      \<lparr>hits_deleted = int (length (filter (\<lambda>h. hit_at_ms h < now - hit_retention_ms p) (fingerprint_hits db))),
       flag_reasons_cleared = int (length (filter (\<lambda>f. flag_reason f \<noteq> None
          \<and> flag_created_at_ms f < now - flag_reason_retention_ms p) (fingerprint_flags db))),
       tombstones_anonymized = int (length (filter (\<lambda>r. old_tombstone (now - tombstone_metadata_retention_ms p) r
          \<and> has_metadata r \<and> \<not> old_tombstone (now - tombstone_retention_ms p) r) (fingerprints db))),
       tombstones_deleted = int (card (purged_ids now p db))\<rparr>, db')
    \<and> fingerprints db' = map (\<lambda>r. if old_tombstone (now - tombstone_metadata_retention_ms p) r
          then anonymize r else r) (filter (\<lambda>r. fp_id r \<notin> purged_ids now p db) (fingerprints db))
    \<and> fingerprint_hits db' = filter (\<lambda>h. now - hit_retention_ms p \<le> hit_at_ms h
          \<and> hit_fingerprint_id h \<notin> purged_ids now p db) (fingerprint_hits db)
    \<and> fingerprint_flags db' = map (\<lambda>f. if flag_created_at_ms f < now - flag_reason_retention_ms p
          then f\<lparr>flag_reason := None\<rparr> else f)
        (filter (\<lambda>f. flag_fingerprint_id f \<notin> purged_ids now p db) (fingerprint_flags db))
    \<and> consumers db' = consumers db"
proof -
  let ?db' = "snd (retention_txn now p db)"
  let ?old = "old_tombstone (now - tombstone_retention_ms p)"
  have run: "apply_retention True now p False db = (fst (retention_txn now p db), ?db')"
    using apply_retention_runs [OF assms(2), of now False db] by simp
  have card: "int (length (filter ?old (fingerprints db))) = int (card (purged_ids now p db))"
    by (simp add: purged_count [OF assms(1)])
  have fps: "fingerprints ?db' = map (\<lambda>r. if old_tombstone (now - tombstone_metadata_retention_ms p) r
          then anonymize r else r) (filter (\<lambda>r. fp_id r \<notin> purged_ids now p db) (fingerprints db))"
    unfolding retention_txn_fingerprints(1)
    by (rule map_filter_cong) (use purged_iff [OF assms(1)] anonymize_nothing in auto)
  have hits: "fingerprint_hits ?db' = filter (\<lambda>h. now - hit_retention_ms p \<le> hit_at_ms h
          \<and> hit_fingerprint_id h \<notin> purged_ids now p db) (fingerprint_hits db)"
    unfolding retention_txn_tables(1) by (auto simp: expired_hit_def intro!: filter_cong)
  have flags: "fingerprint_flags ?db' = map (\<lambda>f. if flag_created_at_ms f < now - flag_reason_retention_ms p
          then f\<lparr>flag_reason := None\<rparr> else f)
        (filter (\<lambda>f. flag_fingerprint_id f \<notin> purged_ids now p db) (fingerprint_flags db))"
    unfolding retention_txn_tables(2)
    by (subst filter_map_same) (auto simp: stale_reason_def clear_nothing)
  show ?thesis
    using run fps hits flags card
    by (intro exI [of _ ?db'])
      (simp add: retention_counts_eq cutoff_fun_eqs retention_txn_fingerprints(3))
qed

definition sample_policy :: retention_policy where
  "sample_policy = \<lparr>hit_retention_ms = 5, flag_reason_retention_ms = 5,
     tombstone_metadata_retention_ms = 5, tombstone_retention_ms = 50\<rparr>"

lemma sample_policy_ok: "policy_ok sample_policy"
  by (simp add: policy_ok_def sample_policy_def)

definition tombstone_db :: db where
  "tombstone_db = sample_db\<lparr>fingerprints := [sample_row\<lparr>fp_status := Deleted, fp_reason := Some ''r''\<rparr>]\<rparr>"

lemma tombstone_db_ok: "db_ok tombstone_db"
  by (simp add: db_ok_defs tombstone_db_def sample_db_def sample_row_def sample_consumer_def
      VALID_ACTIONS_def VALID_CATEGORIES_def VALID_SCOPES_def)

lemma retention_effect_witness:
  "\<exists>c db'. apply_retention True 100 sample_policy False tombstone_db = (Inr c, db')
    \<and> tombstones_deleted c = 1 \<and> fingerprints db' = []"
proof -
  have "purged_ids 100 sample_policy tombstone_db = fp_id ` set (filter (old_tombstone 50) (fingerprints tombstone_db))"
    by (simp add: purged_ids_def sample_policy_def)
  then have "purged_ids 100 sample_policy tombstone_db = {1}"
    by (simp add: tombstone_db_def sample_row_def old_tombstone_def)
  moreover obtain c db' where "apply_retention True 100 sample_policy False tombstone_db = (Inr c, db')"
    "tombstones_deleted c = int (card (purged_ids 100 sample_policy tombstone_db))"
    "fingerprints db' = map (\<lambda>r. if old_tombstone (100 - tombstone_metadata_retention_ms sample_policy) r
        then anonymize r else r)
      (filter (\<lambda>r. fp_id r \<notin> purged_ids 100 sample_policy tombstone_db) (fingerprints tombstone_db))"
    using retention_effect [OF tombstone_db_ok sample_policy_ok, of 100]
    by (elim exE conjE) (erule that, simp, assumption)
  ultimately show ?thesis by (simp add: tombstone_db_def sample_row_def)
qed

text \<open>C19: after a retention run no hit, no flag reason, no tombstone and no private column of a tombstone is older than the policy allows, every row that is not a tombstone is exactly as before, and running again at the same time finds nothing to do.\<close>

theorem retention_minimizes:
  assumes "policy_ok p" "apply_retention True now p False db = (out, db')"
  shows "(\<forall>h \<in> set (fingerprint_hits db'). now - hit_retention_ms p \<le> hit_at_ms h)
    \<and> (\<forall>f \<in> set (fingerprint_flags db'). flag_reason f \<noteq> None
         \<longrightarrow> now - flag_reason_retention_ms p \<le> flag_created_at_ms f)
    \<and> (\<forall>r \<in> set (fingerprints db'). fp_status r = Deleted
         \<longrightarrow> now - tombstone_retention_ms p \<le> fp_updated_at_ms r
           \<and> (has_metadata r \<longrightarrow> now - tombstone_metadata_retention_ms p \<le> fp_updated_at_ms r))
    \<and> filter (\<lambda>r. fp_status r \<noteq> Deleted) (fingerprints db') = filter (\<lambda>r. fp_status r \<noteq> Deleted) (fingerprints db)
    \<and> apply_retention True now p False db' = (Inr \<lparr>hits_deleted = 0, flag_reasons_cleared = 0,
         tombstones_anonymized = 0, tombstones_deleted = 0\<rparr>, db')"
proof -
  have db': "db' = snd (retention_txn now p db)"
    using assms(2) apply_retention_runs [OF assms(1), of now False db] by simp
  have "(\<forall>h \<in> set (fingerprint_hits db'). now - hit_retention_ms p \<le> hit_at_ms h)"
    unfolding db' retention_txn_tables by (auto simp: expired_hit_def)
  moreover have "(\<forall>f \<in> set (fingerprint_flags db'). flag_reason f \<noteq> None
         \<longrightarrow> now - flag_reason_retention_ms p \<le> flag_created_at_ms f)"
    unfolding db' retention_txn_tables by (auto simp: stale_reason_def not_less)
  moreover have "\<forall>r \<in> set (fingerprints db'). fp_status r = Deleted
         \<longrightarrow> now - tombstone_retention_ms p \<le> fp_updated_at_ms r
           \<and> (has_metadata r \<longrightarrow> now - tombstone_metadata_retention_ms p \<le> fp_updated_at_ms r)"
    unfolding db' retention_txn_fingerprints
    by (auto simp: old_tombstone_def anonymize_def has_metadata_def not_less split: if_splits)
  moreover have "filter (\<lambda>r. fp_status r \<noteq> Deleted) (fingerprints db')
      = filter (\<lambda>r. fp_status r \<noteq> Deleted) (fingerprints db)"
    unfolding db' retention_txn_fingerprints(1) by (rule live_rows_kept)
  moreover have "apply_retention True now p False db' = (Inr \<lparr>hits_deleted = 0, flag_reasons_cleared = 0,
         tombstones_anonymized = 0, tombstones_deleted = 0\<rparr>, db')"
    unfolding db' using apply_retention_runs [OF assms(1), of now False] retention_again [of now p db] by simp
  ultimately show ?thesis by blast
qed

lemma retention_minimizes_witness:
  "let db' = snd (apply_retention True 30 sample_policy False tombstone_db)
   in map has_metadata (fingerprints db') = [False]
     \<and> snd (apply_retention True 30 sample_policy False db') = db'"
proof -
  have rows: "fingerprints (snd (apply_retention True 30 sample_policy False tombstone_db)) =
      [anonymize (sample_row\<lparr>fp_status := Deleted, fp_reason := Some ''r''\<rparr>)]"
    using apply_retention_runs [OF sample_policy_ok, of 30 False tombstone_db]
    by (simp add: retention_txn_fingerprints tombstone_db_def sample_db_def sample_row_def
        old_tombstone_def sample_policy_def has_metadata_def)
  show ?thesis
    using retention_minimizes [OF sample_policy_ok, of 30 tombstone_db] rows
    by (cases "apply_retention True 30 sample_policy False tombstone_db")
      (simp add: has_metadata_def anonymize_def)
qed

text \<open>A preview reports exactly what the run would report, outages and refused policies included, and leaves the database, its sequences included, as it was; a policy with a negative period, or one that keeps tombstone metadata longer than tombstones, is refused either way.\<close>

lemma retention_preview:
  "apply_retention up now p True db = (fst (apply_retention up now p False db), db)
    \<and> (policy_ok p \<or> (\<exists>m. apply_retention up now p False db = (Inl (ValueError m), db)))"
proof (cases "policy_ok p \<and> up")
  case True
  then show ?thesis using apply_retention_runs [of p now] by simp
next
  case False
  then show ?thesis by (auto simp: apply_retention_def with_connection_def policy_ok_def)
qed

end
