(* ===== verification/Privacy_Migration.thy ===== *)
theory Privacy_Migration
  imports Hub_System
begin

text \<open>
  \<^verbatim>\<open>alembic/versions/0002_privacy_hardening.py\<close>: encrypting the private columns of an existing
  database and the way back. One row's rewrite, the pass over a column, and the five passes of the
  migration, which runs in one transaction. \<open>nonce\<close> gives the random nonce of the n-th row.
\<close>

section \<open>One value\<close>

text \<open>The loop body: \<open>None\<close> leaves the row alone, \<open>Some w\<close> updates it.\<close>

definition rewrite_value :: "crypto \<Rightarrow> bool \<Rightarrow> bytes \<Rightarrow> string \<Rightarrow> string option result" where
  "rewrite_value K encrypt nonce value =
     (let decrypted = decrypt_text (cr_aead K) (cr_ring K) None value in
      if encrypt
      then
        (if is_encrypted_value value
         then
           (case decrypted of
              Inr t \<Rightarrow> Inr None
            | Inl (FieldDecryptionError e) \<Rightarrow> encrypt_field K nonce (Some value)
            | Inl e \<Rightarrow> Inl e)
         else encrypt_field K nonce (Some value))
      else
        (if \<not> is_encrypted_value value then Inr None
         else
           (case decrypted of
              Inr t \<Rightarrow> Inr (Some t)
            | Inl (FieldDecryptionError e) \<Rightarrow> Inr None
            | Inl e \<Rightarrow> Inl e)))"

section \<open>One column\<close>

text \<open>An \<^verbatim>\<open>UPDATE\<close> whose value the text type does not take (it holds a NUL) raises.\<close>

fun rewrite_column ::
  "crypto \<Rightarrow> bool \<Rightarrow> (nat \<Rightarrow> bytes) \<Rightarrow> ('r \<Rightarrow> string option) \<Rightarrow> (string option \<Rightarrow> 'r \<Rightarrow> 'r)
   \<Rightarrow> 'r list \<Rightarrow> 'r list result"
where
  "rewrite_column K encrypt nonce value update [] = Inr []"
| "rewrite_column K encrypt nonce value update (r # rs) =
     (case (case value r of None \<Rightarrow> Inr None | Some v \<Rightarrow> rewrite_value K encrypt (nonce (length rs)) v) of
        Inl e \<Rightarrow> Inl e
      | Inr rewritten \<Rightarrow>
          if \<not> pred_option pg_text rewritten then Inl DataError
          else (case rewrite_column K encrypt nonce value update rs of
             Inl e \<Rightarrow> Inl e
           | Inr rs' \<Rightarrow> Inr ((if rewritten = None then r else update rewritten r) # rs')))"

section \<open>The migration\<close>

definition rewrite_fps ::
  "crypto \<Rightarrow> bool \<Rightarrow> (nat \<Rightarrow> bytes) \<Rightarrow> (fingerprint_row \<Rightarrow> string option)
   \<Rightarrow> (string option \<Rightarrow> fingerprint_row \<Rightarrow> fingerprint_row) \<Rightarrow> db result \<Rightarrow> db result"
where
  "rewrite_fps K encrypt nonce value update d =
     (case d of
        Inl e \<Rightarrow> Inl e
      | Inr db \<Rightarrow>
          (case rewrite_column K encrypt nonce value update (fingerprints db) of
             Inl e \<Rightarrow> Inl e | Inr rs \<Rightarrow> Inr (db\<lparr>fingerprints := rs\<rparr>)))"

definition rewrite_hits :: "crypto \<Rightarrow> bool \<Rightarrow> (nat \<Rightarrow> bytes) \<Rightarrow> db result \<Rightarrow> db result" where
  "rewrite_hits K encrypt nonce d =
     (case d of
        Inl e \<Rightarrow> Inl e
      | Inr db \<Rightarrow>
          (case rewrite_column K encrypt nonce hit_guild_id (\<lambda>v h. h\<lparr>hit_guild_id := v\<rparr>)
                  (fingerprint_hits db) of
             Inl e \<Rightarrow> Inl e | Inr hs \<Rightarrow> Inr (db\<lparr>fingerprint_hits := hs\<rparr>)))"

definition rewrite_flags :: "crypto \<Rightarrow> bool \<Rightarrow> (nat \<Rightarrow> bytes) \<Rightarrow> db result \<Rightarrow> db result" where
  "rewrite_flags K encrypt nonce d =
     (case d of
        Inl e \<Rightarrow> Inl e
      | Inr db \<Rightarrow>
          (case rewrite_column K encrypt nonce flag_reason (\<lambda>v f. f\<lparr>flag_reason := v\<rparr>)
                  (fingerprint_flags db) of
             Inl e \<Rightarrow> Inl e | Inr fs \<Rightarrow> Inr (db\<lparr>fingerprint_flags := fs\<rparr>)))"

definition rewrite_all :: "crypto \<Rightarrow> bool \<Rightarrow> (nat \<Rightarrow> nat \<Rightarrow> bytes) \<Rightarrow> db \<Rightarrow> db result" where
  "rewrite_all K encrypt nonce db =
     rewrite_flags K encrypt (nonce 4)
      (rewrite_hits K encrypt (nonce 3)
        (rewrite_fps K encrypt (nonce 2) fp_source_url (\<lambda>v r. r\<lparr>fp_source_url := v\<rparr>)
          (rewrite_fps K encrypt (nonce 1) fp_reason (\<lambda>v r. r\<lparr>fp_reason := v\<rparr>)
            (rewrite_fps K encrypt (nonce 0) fp_source_guild_id (\<lambda>v r. r\<lparr>fp_source_guild_id := v\<rparr>)
              (Inr db)))))"

text \<open>The migration's transaction: an exception leaves the database as it was.\<close>

definition privacy_upgrade :: "crypto \<Rightarrow> (nat \<Rightarrow> nat \<Rightarrow> bytes) \<Rightarrow> db \<Rightarrow> unit result \<times> db" where
  "privacy_upgrade K nonce db =
     (case rewrite_all K True nonce db of Inl e \<Rightarrow> (Inl e, db) | Inr db' \<Rightarrow> (Inr (), db'))"

definition privacy_downgrade :: "crypto \<Rightarrow> (nat \<Rightarrow> nat \<Rightarrow> bytes) \<Rightarrow> db \<Rightarrow> unit result \<times> db" where
  "privacy_downgrade K nonce db =
     (case rewrite_all K False nonce db of Inl e \<Rightarrow> (Inl e, db) | Inr db' \<Rightarrow> (Inr (), db'))"

section \<open>One value, forth and back\<close>

definition decrypts :: "crypto \<Rightarrow> string \<Rightarrow> string \<Rightarrow> bool" where
  "decrypts K env plain \<longleftrightarrow> is_encrypted_value env \<and> decrypt_text (cr_aead K) (cr_ring K) None env = Inr plain"

text \<open>
  A legacy plaintext: a text the database stored, that is not an envelope, or has an envelope's
  prefix and does not decrypt.
\<close>

definition legacy_plain :: "crypto \<Rightarrow> string \<Rightarrow> bool" where
  "legacy_plain K v \<longleftrightarrow> pg_text v \<and> (\<exists>e. decrypt_text (cr_aead K) (cr_ring K) None v = Inl (FieldDecryptionError e))"

definition usable :: "crypto \<Rightarrow> bool" where
  "usable K \<longleftrightarrow> aead_correct (cr_aead K) \<and> (\<exists>ring. cr_ring K = Inr ring \<and> keyring_ok ring)"

lemma encrypt_legacy:
  assumes "usable K" "length nonce = NONCE_BYTES" "legacy_plain K v"
  obtains w where "rewrite_value K True nonce v = Inr (Some w)" "decrypts K w v" "pg_text w"
proof -
  obtain ring where ring: "cr_ring K = Inr ring" "keyring_ok ring" and corr: "aead_correct (cr_aead K)"
    using assms(1) by (auto simp: usable_def)
  have ro: "ring_of None (cr_ring K) = Inr ring" using ring(1) by (simp add: ring_of_def)
  have "\<exists>w. encrypt_text (cr_aead K) (cr_ring K) None None nonce (Some v) = Inr (Some w)"
    by (rule encrypt_active_ok [OF ro ring(2)]) simp
  then obtain w where w: "encrypt_field K nonce (Some v) = Inr (Some w)" by blast
  have "decrypts K w v"
    using encrypt_decrypt [OF corr ro ring(2) assms(2) w] encrypt_is_encrypted [OF w]
    by (simp add: decrypts_def)
  moreover have "rewrite_value K True nonce v = Inr (Some w)"
    using assms(3) w by (auto simp: rewrite_value_def legacy_plain_def Let_def)
  moreover have "pg_text w"
    using encrypt_text_SomeD [OF w] ring(2) keyring_ok_lookup(1) envelope_pg_text
    by (auto simp: ro)
  ultimately show ?thesis using that by blast
qed

lemma encrypt_skips: "decrypts K v t \<Longrightarrow> rewrite_value K True nonce v = Inr None"
  by (simp add: rewrite_value_def decrypts_def Let_def)

lemma decrypt_back: "decrypts K w v \<Longrightarrow> rewrite_value K False nonce w = Inr (Some v)"
  by (simp add: rewrite_value_def decrypts_def Let_def)

section \<open>A column, forth and back\<close>

text \<open>The stored value of an optional plaintext.\<close>

fun enc_of :: "crypto \<Rightarrow> string option \<Rightarrow> string option \<Rightarrow> bool" where
  "enc_of K None w \<longleftrightarrow> w = None"
| "enc_of K (Some v) w \<longleftrightarrow> (\<exists>x. w = Some x \<and> decrypts K x v \<and> pg_text v)"

lemma enc_of_sealed: "enc_of K v w \<Longrightarrow> pred_option is_encrypted_value w"
  by (cases v) (auto simp: decrypts_def)

lemma column_encrypts:
  assumes "usable K" "\<forall>i. length (nonce i) = NONCE_BYTES" "\<forall>r. update (value r) r = r"
    and "\<forall>r \<in> set rs. pred_option (legacy_plain K) (value r)"
  shows "\<exists>rs'. rewrite_column K True nonce value update rs = Inr rs'
    \<and> list_all2 (\<lambda>r r'. \<exists>w. r' = update w r \<and> enc_of K (value r) w) rs rs'"
  using assms(4)
proof (induction rs)
  case Nil
  then show ?case by simp
next
  case (Cons r rs)
  then obtain rs' where rs': "rewrite_column K True nonce value update rs = Inr rs'"
    "list_all2 (\<lambda>r r'. \<exists>w. r' = update w r \<and> enc_of K (value r) w) rs rs'" by auto
  show ?case
  proof (cases "value r")
    case None
    then have "r = update None r" using assms(3) by metis
    then show ?thesis using rs' None by (intro exI [of _ "r # rs'"]) auto
  next
    case (Some v)
    then have leg: "legacy_plain K v" using Cons.prems by simp
    have len: "length (nonce (length rs)) = NONCE_BYTES" using assms(2) by blast
    have "pg_text v" using leg by (simp add: legacy_plain_def)
    obtain w where w: "rewrite_value K True (nonce (length rs)) v = Inr (Some w)" "decrypts K w v" "pg_text w"
      using encrypt_legacy [OF assms(1) len leg] .
    then show ?thesis using rs' Some \<open>pg_text v\<close> by (intro exI [of _ "update (Some w) r # rs'"]) auto
  qed
qed

definition plain_of :: "crypto \<Rightarrow> string option \<Rightarrow> string option" where
  "plain_of K w = (case w of None \<Rightarrow> None
     | Some x \<Rightarrow> (case decrypt_text (cr_aead K) (cr_ring K) None x of Inr t \<Rightarrow> Some t | Inl e \<Rightarrow> None))"

lemma plain_of_enc: "enc_of K v w \<Longrightarrow> plain_of K w = v"
  by (cases v) (auto simp: plain_of_def decrypts_def)

lemma column_decrypts:
  assumes "\<forall>r. update (value r) r = r" "\<forall>r \<in> set rs. \<exists>v. enc_of K v (value r)"
  shows "rewrite_column K False nonce value update rs = Inr (map (\<lambda>r. update (plain_of K (value r)) r) rs)"
  using assms(2)
proof (induction rs)
  case (Cons r rs)
  then obtain v where v: "enc_of K v (value r)" by auto
  show ?case
  proof (cases v)
    case None
    then have "value r = None" using v by simp
    then show ?thesis using Cons assms(1) by (simp add: plain_of_def) metis
  next
    case (Some t)
    then obtain x where x: "value r = Some x" "decrypts K x t" "pg_text t" using v by auto
    then have "plain_of K (value r) = Some t" by (simp add: plain_of_def decrypts_def)
    then show ?thesis using Cons x decrypt_back [OF x(2)] by simp
  qed
qed simp

lemma column_skips:
  assumes "\<forall>r \<in> set rs. \<exists>v. enc_of K v (value r)"
  shows "rewrite_column K True nonce value update rs = Inr rs"
  using assms
proof (induction rs)
  case (Cons r rs)
  then obtain v where v: "enc_of K v (value r)" by auto
  then show ?case using Cons by (cases v) (auto simp: encrypt_skips)
qed simp

section \<open>The database, forth and back\<close>

definition all_legacy :: "crypto \<Rightarrow> db \<Rightarrow> bool" where
  "all_legacy K db \<longleftrightarrow>
     (\<forall>r \<in> set (fingerprints db). pred_option (legacy_plain K) (fp_source_guild_id r)
        \<and> pred_option (legacy_plain K) (fp_reason r) \<and> pred_option (legacy_plain K) (fp_source_url r))
     \<and> (\<forall>h \<in> set (fingerprint_hits db). pred_option (legacy_plain K) (hit_guild_id h))
     \<and> (\<forall>f \<in> set (fingerprint_flags db). pred_option (legacy_plain K) (flag_reason f))"

abbreviation set_private ::
  "string option \<Rightarrow> string option \<Rightarrow> string option \<Rightarrow> fingerprint_row \<Rightarrow> fingerprint_row"
where
  "set_private g re u r \<equiv> r\<lparr>fp_source_guild_id := g, fp_reason := re, fp_source_url := u\<rparr>"

definition fp_encrypted :: "crypto \<Rightarrow> fingerprint_row \<Rightarrow> fingerprint_row \<Rightarrow> bool" where
  "fp_encrypted K r r' \<longleftrightarrow> (\<exists>g re u. r' = set_private g re u r \<and> enc_of K (fp_source_guild_id r) g
     \<and> enc_of K (fp_reason r) re \<and> enc_of K (fp_source_url r) u)"

definition hit_encrypted :: "crypto \<Rightarrow> hit_row \<Rightarrow> hit_row \<Rightarrow> bool" where
  "hit_encrypted K h h' \<longleftrightarrow> (\<exists>w. h' = h\<lparr>hit_guild_id := w\<rparr> \<and> enc_of K (hit_guild_id h) w)"

definition flag_encrypted :: "crypto \<Rightarrow> flag_row \<Rightarrow> flag_row \<Rightarrow> bool" where
  "flag_encrypted K f f' \<longleftrightarrow> (\<exists>w. f' = f\<lparr>flag_reason := w\<rparr> \<and> enc_of K (flag_reason f) w)"

text \<open>What the upgrade makes of the tables.\<close>

definition migrated :: "crypto \<Rightarrow> db \<Rightarrow> db \<Rightarrow> bool" where
  "migrated K db db' \<longleftrightarrow> list_all2 (fp_encrypted K) (fingerprints db) (fingerprints db')
     \<and> list_all2 (hit_encrypted K) (fingerprint_hits db) (fingerprint_hits db')
     \<and> list_all2 (flag_encrypted K) (fingerprint_flags db) (fingerprint_flags db')
     \<and> db' = db\<lparr>fingerprints := fingerprints db', fingerprint_hits := fingerprint_hits db',
          fingerprint_flags := fingerprint_flags db'\<rparr>"

lemma list_all2_chain:
  "list_all2 P xs ys \<Longrightarrow> list_all2 Q ys zs \<Longrightarrow> (\<And>x y z. P x y \<Longrightarrow> Q y z \<Longrightarrow> R x z) \<Longrightarrow> list_all2 R xs zs"
  by (rule list_all2_trans)

lemma list_all2_setD: "list_all2 P xs ys \<Longrightarrow> y \<in> set ys \<Longrightarrow> \<exists>x \<in> set xs. P x y"
  by (metis list_all2_conv_all_nth in_set_conv_nth)

lemma upgrade_fps:
  assumes u: "usable K" and n: "\<forall>k i. length (nonce k i) = NONCE_BYTES"
    and leg: "\<forall>r \<in> set rs. pred_option (legacy_plain K) (fp_source_guild_id r)
        \<and> pred_option (legacy_plain K) (fp_reason r) \<and> pred_option (legacy_plain K) (fp_source_url r)"
  obtains rs1 rs2 rs3 where
    "rewrite_column K True (nonce 0) fp_source_guild_id (\<lambda>v r. r\<lparr>fp_source_guild_id := v\<rparr>) rs = Inr rs1"
    "rewrite_column K True (nonce 1) fp_reason (\<lambda>v r. r\<lparr>fp_reason := v\<rparr>) rs1 = Inr rs2"
    "rewrite_column K True (nonce 2) fp_source_url (\<lambda>v r. r\<lparr>fp_source_url := v\<rparr>) rs2 = Inr rs3"
    "list_all2 (fp_encrypted K) rs rs3"
proof -
  note col = column_encrypts [OF u]
  from n leg obtain rs1 where 1: "rewrite_column K True (nonce 0) fp_source_guild_id
      (\<lambda>v r. r\<lparr>fp_source_guild_id := v\<rparr>) rs = Inr rs1"
    "list_all2 (\<lambda>r r'. \<exists>w. r' = r\<lparr>fp_source_guild_id := w\<rparr> \<and> enc_of K (fp_source_guild_id r) w) rs rs1"
    using col [of "nonce 0" "\<lambda>v r. r\<lparr>fp_source_guild_id := v\<rparr>" fp_source_guild_id rs] by auto
  have l1: "\<forall>r \<in> set rs1. pred_option (legacy_plain K) (fp_reason r) \<and> pred_option (legacy_plain K) (fp_source_url r)"
    using leg by (auto dest!: list_all2_setD [OF 1(2)])
  with n obtain rs2 where 2: "rewrite_column K True (nonce 1) fp_reason (\<lambda>v r. r\<lparr>fp_reason := v\<rparr>) rs1 = Inr rs2"
    "list_all2 (\<lambda>r r'. \<exists>w. r' = r\<lparr>fp_reason := w\<rparr> \<and> enc_of K (fp_reason r) w) rs1 rs2"
    using col [of "nonce 1" "\<lambda>v r. r\<lparr>fp_reason := v\<rparr>" fp_reason rs1] by auto
  have l2: "\<forall>r \<in> set rs2. pred_option (legacy_plain K) (fp_source_url r)"
    using l1 by (auto dest!: list_all2_setD [OF 2(2)])
  with n obtain rs3 where 3: "rewrite_column K True (nonce 2) fp_source_url (\<lambda>v r. r\<lparr>fp_source_url := v\<rparr>) rs2 = Inr rs3"
    "list_all2 (\<lambda>r r'. \<exists>w. r' = r\<lparr>fp_source_url := w\<rparr> \<and> enc_of K (fp_source_url r) w) rs2 rs3"
    using col [of "nonce 2" "\<lambda>v r. r\<lparr>fp_source_url := v\<rparr>" fp_source_url rs2] by auto
  have "list_all2 (\<lambda>r r'. \<exists>g re. r' = r\<lparr>fp_source_guild_id := g, fp_reason := re\<rparr>
      \<and> enc_of K (fp_source_guild_id r) g \<and> enc_of K (fp_reason r) re) rs rs2"
    by (rule list_all2_chain [OF 1(2) 2(2)]) (elim exE conjE, intro exI conjI, simp_all)
  then have "list_all2 (fp_encrypted K) rs rs3"
    by (rule list_all2_chain [OF _ 3(2)], unfold fp_encrypted_def)
      (elim exE conjE, intro exI conjI, simp_all)
  then show ?thesis by (rule that [OF 1(1) 2(1) 3(1)])
qed

lemma upgrade_migrates:
  assumes u: "usable K" and n: "\<forall>k i. length (nonce k i) = NONCE_BYTES" and leg: "all_legacy K db"
  obtains db' where "privacy_upgrade K nonce db = (Inr (), db')" "migrated K db db'"
proof -
  have lf: "\<forall>r \<in> set (fingerprints db). pred_option (legacy_plain K) (fp_source_guild_id r)
        \<and> pred_option (legacy_plain K) (fp_reason r) \<and> pred_option (legacy_plain K) (fp_source_url r)"
    using leg by (simp add: all_legacy_def)
  from upgrade_fps [OF u n lf] obtain rs1 rs2 rs3 where fps:
    "rewrite_column K True (nonce 0) fp_source_guild_id (\<lambda>v r. r\<lparr>fp_source_guild_id := v\<rparr>) (fingerprints db) = Inr rs1"
    "rewrite_column K True (nonce 1) fp_reason (\<lambda>v r. r\<lparr>fp_reason := v\<rparr>) rs1 = Inr rs2"
    "rewrite_column K True (nonce 2) fp_source_url (\<lambda>v r. r\<lparr>fp_source_url := v\<rparr>) rs2 = Inr rs3"
    "list_all2 (fp_encrypted K) (fingerprints db) rs3" by blast
  from u n leg obtain hs where hs: "rewrite_column K True (nonce 3) hit_guild_id
      (\<lambda>v h. h\<lparr>hit_guild_id := v\<rparr>) (fingerprint_hits db) = Inr hs"
    "list_all2 (hit_encrypted K) (fingerprint_hits db) hs"
    using column_encrypts [of K "nonce 3" "\<lambda>v h. h\<lparr>hit_guild_id := v\<rparr>" hit_guild_id "fingerprint_hits db"]
    unfolding hit_encrypted_def all_legacy_def by auto
  from u n leg obtain fs where fs: "rewrite_column K True (nonce 4) flag_reason
      (\<lambda>v f. f\<lparr>flag_reason := v\<rparr>) (fingerprint_flags db) = Inr fs"
    "list_all2 (flag_encrypted K) (fingerprint_flags db) fs"
    using column_encrypts [of K "nonce 4" "\<lambda>v f. f\<lparr>flag_reason := v\<rparr>" flag_reason "fingerprint_flags db"]
    unfolding flag_encrypted_def all_legacy_def by auto
  let ?db' = "db\<lparr>fingerprints := rs3, fingerprint_hits := hs, fingerprint_flags := fs\<rparr>"
  have "rewrite_all K True nonce db = Inr ?db'"
    using fps(1-3) hs(1) fs(1) by (simp add: rewrite_all_def rewrite_fps_def rewrite_hits_def rewrite_flags_def)
  then have "privacy_upgrade K nonce db = (Inr (), ?db')" by (simp add: privacy_upgrade_def)
  moreover have "migrated K db ?db'" using fps(4) hs(2) fs(2) by (simp add: migrated_def)
  ultimately show ?thesis by (rule that)
qed

lemma migrated_back:
  assumes m: "migrated K db db'"
  shows "privacy_downgrade K nonce db' = (Inr (), db)" and "privacy_upgrade K nonce db' = (Inr (), db')"
    and "encrypted_at_rest db'"
proof -
  have fp: "list_all2 (fp_encrypted K) (fingerprints db) (fingerprints db')"
    and hit: "list_all2 (hit_encrypted K) (fingerprint_hits db) (fingerprint_hits db')"
    and flg: "list_all2 (flag_encrypted K) (fingerprint_flags db) (fingerprint_flags db')"
    and frame: "db' = db\<lparr>fingerprints := fingerprints db', fingerprint_hits := fingerprint_hits db',
          fingerprint_flags := fingerprint_flags db'\<rparr>"
    using m by (simp_all add: migrated_def)
  have ef: "\<forall>r \<in> set (fingerprints db'). (\<exists>v. enc_of K v (fp_source_guild_id r))
      \<and> (\<exists>v. enc_of K v (fp_reason r)) \<and> (\<exists>v. enc_of K v (fp_source_url r))"
    by (auto dest!: list_all2_setD [OF fp] simp: fp_encrypted_def) (blast intro: exI)+
  have eh: "\<forall>h \<in> set (fingerprint_hits db'). \<exists>v. enc_of K v (hit_guild_id h)"
    by (auto dest!: list_all2_setD [OF hit] simp: hit_encrypted_def) blast
  have el: "\<forall>f \<in> set (fingerprint_flags db'). \<exists>v. enc_of K v (flag_reason f)"
    by (auto dest!: list_all2_setD [OF flg] simp: flag_encrypted_def) blast
  show "encrypted_at_rest db'"
    unfolding encrypted_at_rest_def using ef eh el enc_of_sealed by blast
  have "rewrite_all K True nonce db' = Inr db'"
    using ef eh el
    by (simp add: rewrite_all_def rewrite_fps_def rewrite_hits_def rewrite_flags_def column_skips)
  then show "privacy_upgrade K nonce db' = (Inr (), db')" by (simp add: privacy_upgrade_def)
  let ?dg = "\<lambda>r. r\<lparr>fp_source_guild_id := plain_of K (fp_source_guild_id r)\<rparr>"
  let ?dr = "\<lambda>r. r\<lparr>fp_reason := plain_of K (fp_reason r)\<rparr>"
  let ?du = "\<lambda>r. r\<lparr>fp_source_url := plain_of K (fp_source_url r)\<rparr>"
  have rows: "map (\<lambda>r. ?du (?dr (?dg r))) (fingerprints db') = fingerprints db"
    using fp by (induction rule: list_all2_induct) (auto simp: fp_encrypted_def plain_of_enc)
  have hits: "map (\<lambda>h. h\<lparr>hit_guild_id := plain_of K (hit_guild_id h)\<rparr>) (fingerprint_hits db') = fingerprint_hits db"
    using hit by (induction rule: list_all2_induct) (auto simp: hit_encrypted_def plain_of_enc)
  have flags: "map (\<lambda>f. f\<lparr>flag_reason := plain_of K (flag_reason f)\<rparr>) (fingerprint_flags db') = fingerprint_flags db"
    using flg by (induction rule: list_all2_induct) (auto simp: flag_encrypted_def plain_of_enc)
  have d1: "rewrite_column K False (nonce 0) fp_source_guild_id (\<lambda>v r. r\<lparr>fp_source_guild_id := v\<rparr>)
      (fingerprints db') = Inr (map ?dg (fingerprints db'))"
    using ef by (intro column_decrypts) auto
  have d2: "rewrite_column K False (nonce 1) fp_reason (\<lambda>v r. r\<lparr>fp_reason := v\<rparr>)
      (map ?dg (fingerprints db')) = Inr (map ?dr (map ?dg (fingerprints db')))"
    using ef by (intro column_decrypts) auto
  have d3: "rewrite_column K False (nonce 2) fp_source_url (\<lambda>v r. r\<lparr>fp_source_url := v\<rparr>)
      (map ?dr (map ?dg (fingerprints db'))) = Inr (fingerprints db)"
  proof -
    have "rewrite_column K False (nonce 2) fp_source_url (\<lambda>v r. r\<lparr>fp_source_url := v\<rparr>)
      (map ?dr (map ?dg (fingerprints db'))) = Inr (map ?du (map ?dr (map ?dg (fingerprints db'))))"
      using ef by (intro column_decrypts) auto
    then show ?thesis using rows by (simp add: comp_def)
  qed
  have d4: "rewrite_column K False (nonce 3) hit_guild_id (\<lambda>v h. h\<lparr>hit_guild_id := v\<rparr>)
      (fingerprint_hits db') = Inr (fingerprint_hits db)"
    using eh hits column_decrypts [of "\<lambda>v h. h\<lparr>hit_guild_id := v\<rparr>" hit_guild_id "fingerprint_hits db'" K "nonce 3"] by simp
  have d5: "rewrite_column K False (nonce 4) flag_reason (\<lambda>v f. f\<lparr>flag_reason := v\<rparr>)
      (fingerprint_flags db') = Inr (fingerprint_flags db)"
    using el flags column_decrypts [of "\<lambda>v f. f\<lparr>flag_reason := v\<rparr>" flag_reason "fingerprint_flags db'" K "nonce 4"] by simp
  have "rewrite_all K False nonce db' = Inr (db'\<lparr>fingerprints := fingerprints db,
      fingerprint_hits := fingerprint_hits db, fingerprint_flags := fingerprint_flags db\<rparr>)"
    by (simp add: rewrite_all_def rewrite_fps_def rewrite_hits_def rewrite_flags_def d1 d2 d3 d4 d5
        del: One_nat_def list.map_comp map_map)
  also have "db'\<lparr>fingerprints := fingerprints db, fingerprint_hits := fingerprint_hits db,
      fingerprint_flags := fingerprint_flags db\<rparr> = db"
    by (subst frame) simp
  finally show "privacy_downgrade K nonce db' = (Inr (), db)" by (simp add: privacy_downgrade_def)
qed

section \<open>What the downgrade does in general\<close>

text \<open>
  A database whose private values all decrypt, what it holds in the clear, and whether the text
  columns can take that: an encrypted column accepts texts that a text column does not.
\<close>

abbreviation readable_value :: "crypto \<Rightarrow> string option \<Rightarrow> bool" where
  "readable_value K v \<equiv> pred_option (\<lambda>x. \<exists>t. decrypts K x t) v"

definition readable :: "crypto \<Rightarrow> db \<Rightarrow> bool" where
  "readable K db \<longleftrightarrow>
     list_all (\<lambda>r. readable_value K (fp_source_guild_id r) \<and> readable_value K (fp_reason r)
       \<and> readable_value K (fp_source_url r)) (fingerprints db)
     \<and> list_all (\<lambda>h. readable_value K (hit_guild_id h)) (fingerprint_hits db)
     \<and> list_all (\<lambda>f. readable_value K (flag_reason f)) (fingerprint_flags db)"

definition plain_db :: "crypto \<Rightarrow> db \<Rightarrow> db" where
  "plain_db K db = db\<lparr>
     fingerprints := map (\<lambda>r. set_private (plain_of K (fp_source_guild_id r)) (plain_of K (fp_reason r))
       (plain_of K (fp_source_url r)) r) (fingerprints db),
     fingerprint_hits := map (\<lambda>h. h\<lparr>hit_guild_id := plain_of K (hit_guild_id h)\<rparr>) (fingerprint_hits db),
     fingerprint_flags := map (\<lambda>f. f\<lparr>flag_reason := plain_of K (flag_reason f)\<rparr>) (fingerprint_flags db)\<rparr>"

definition storable :: "db \<Rightarrow> bool" where
  "storable db \<longleftrightarrow>
     list_all (\<lambda>r. pred_option pg_text (fp_source_guild_id r) \<and> pred_option pg_text (fp_reason r)
       \<and> pred_option pg_text (fp_source_url r)) (fingerprints db)
     \<and> list_all (\<lambda>h. pred_option pg_text (hit_guild_id h)) (fingerprint_hits db)
     \<and> list_all (\<lambda>f. pred_option pg_text (flag_reason f)) (fingerprint_flags db)"

lemma column_downgrade:
  assumes "\<forall>r. update (value r) r = r" "list_all (\<lambda>r. readable_value K (value r)) rs"
  shows "rewrite_column K False nonce value update rs =
    (if list_all (\<lambda>r. pred_option pg_text (plain_of K (value r))) rs
     then Inr (map (\<lambda>r. update (plain_of K (value r)) r) rs) else Inl DataError)"
  using assms(2)
proof (induction rs)
  case (Cons r rs)
  show ?case
  proof (cases "value r")
    case None
    then have "update None r = r" using assms(1) by metis
    then show ?thesis using Cons None by (simp add: plain_of_def)
  next
    case (Some x)
    then obtain t where "decrypts K x t" using Cons.prems by auto
    then have "plain_of K (value r) = Some t" "rewrite_value K False (nonce (length rs)) x = Inr (Some t)"
      using Some by (simp_all add: plain_of_def decrypts_def decrypt_back)
    then show ?thesis using Cons Some by simp
  qed
qed simp

lemma downgrade_cases:
  assumes "readable K db"
  shows "privacy_downgrade K nonce db =
    (if storable (plain_db K db) then (Inr (), plain_db K db) else (Inl DataError, db))"
proof -
  note rd = assms [unfolded readable_def list_all_iff]
  let ?G = "\<lambda>r. r\<lparr>fp_source_guild_id := plain_of K (fp_source_guild_id r)\<rparr>"
  let ?R = "\<lambda>r. r\<lparr>fp_reason := plain_of K (fp_reason r)\<rparr>"
  let ?GR = "\<lambda>r. r\<lparr>fp_source_guild_id := plain_of K (fp_source_guild_id r), fp_reason := plain_of K (fp_reason r)\<rparr>"
  let ?fps = "fingerprints db"
  have g: "rewrite_column K False (nonce 0) fp_source_guild_id (\<lambda>v r. r\<lparr>fp_source_guild_id := v\<rparr>) ?fps =
      (if list_all (\<lambda>r. pred_option pg_text (plain_of K (fp_source_guild_id r))) ?fps
       then Inr (map ?G ?fps) else Inl DataError)"
    using rd by (intro column_downgrade) (auto simp: list_all_iff)
  have r: "rewrite_column K False (nonce 1) fp_reason (\<lambda>v r. r\<lparr>fp_reason := v\<rparr>) (map ?G ?fps) =
      (if list_all (\<lambda>r. pred_option pg_text (plain_of K (fp_reason r))) (map ?G ?fps)
       then Inr (map ?R (map ?G ?fps)) else Inl DataError)"
    using rd by (intro column_downgrade) (auto simp: list_all_iff)
  have u: "rewrite_column K False (nonce 2) fp_source_url (\<lambda>v r. r\<lparr>fp_source_url := v\<rparr>) (map ?GR ?fps) =
      (if list_all (\<lambda>r. pred_option pg_text (plain_of K (fp_source_url r))) (map ?GR ?fps)
       then Inr (map (\<lambda>r. r\<lparr>fp_source_url := plain_of K (fp_source_url r)\<rparr>) (map ?GR ?fps))
       else Inl DataError)"
    using rd by (intro column_downgrade) (auto simp: list_all_iff)
  have h: "rewrite_column K False (nonce 3) hit_guild_id (\<lambda>v h. h\<lparr>hit_guild_id := v\<rparr>) (fingerprint_hits db) =
      (if list_all (\<lambda>h. pred_option pg_text (plain_of K (hit_guild_id h))) (fingerprint_hits db)
       then Inr (map (\<lambda>h. h\<lparr>hit_guild_id := plain_of K (hit_guild_id h)\<rparr>) (fingerprint_hits db)) else Inl DataError)"
    using rd by (intro column_downgrade) (auto simp: list_all_iff)
  have f: "rewrite_column K False (nonce 4) flag_reason (\<lambda>v f. f\<lparr>flag_reason := v\<rparr>) (fingerprint_flags db) =
      (if list_all (\<lambda>f. pred_option pg_text (plain_of K (flag_reason f))) (fingerprint_flags db)
       then Inr (map (\<lambda>f. f\<lparr>flag_reason := plain_of K (flag_reason f)\<rparr>) (fingerprint_flags db)) else Inl DataError)"
    using rd by (intro column_downgrade) (auto simp: list_all_iff)
  show ?thesis
    by (simp add: privacy_downgrade_def rewrite_all_def rewrite_fps_def rewrite_hits_def rewrite_flags_def
        g r u h f storable_def plain_db_def list_all_iff comp_def del: One_nat_def)
qed

end
