(* ===== verification/Crypto_Properties.thy ===== *)
theory Crypto_Properties
  imports Samples Privacy_Migration Json_Values
begin

text \<open>
  The properties of field encryption: generated keys load, the keyring that loads is well-formed,
  what was encrypted decrypts under every later keyring that kept the key, only what was sealed
  decrypts, and the privacy migration can be undone.
\<close>

section \<open>Writing a keyring and parsing it\<close>

lemma split_all_append: "d \<notin> set p \<Longrightarrow> split_all d (p @ d # s) = p # split_all d s"
  by (induction p) auto

lemma split_all_join:
  "ps \<noteq> [] \<Longrightarrow> \<forall>p \<in> set ps. d \<notin> set p \<Longrightarrow> split_all d (join [d] ps) = ps"
  by (induction "[d]" ps rule: join.induct) (auto simp: split_all_no_sep split_all_append)

lemma strip_nonempty: "x \<in> set s \<Longrightarrow> \<not> is_space x \<Longrightarrow> strip s \<noteq> []"
  by (auto simp: strip_def lstrip_def rstrip_def dropWhile_eq_Nil_conv)
    (metis dropWhile_eq_Nil_conv hd_dropWhile hd_in_set)

abbreviation key_entry :: "string \<times> bytes \<Rightarrow> string" where
  "key_entry e \<equiv> fst e @ '':'' @ b64encode (snd e)"

lemma b64encode_nonempty: "bs \<noteq> [] \<Longrightarrow> b64encode bs \<noteq> []"
  by (cases bs rule: b64encode.cases) auto

lemma parse_key_entries:
  assumes "keys_ok (ks0 @ ks)"
  shows "parse_entries (map key_entry ks) ks0 (map (\<lambda>(i, k). (k, i)) ks0) = Inr (ks0 @ ks)"
  using assms
proof (induction ks arbitrary: ks0)
  case (Cons e ks)
  obtain i k where e: "e = (i, k)" by (cases e)
  have parts: "KEY_ID_RE_fullmatch i" "length k = KEY_BYTES" "i \<notin> fst ` set ks0" "k \<notin> snd ` set ks0"
    using Cons.prems e by (auto simp: keys_ok_def)
  then have k: "b64encode k \<noteq> []" by (intro b64encode_nonempty) (auto simp: KEY_BYTES_def)
  have mats: "map_of (map (\<lambda>(i, k). (k, i)) ks0) k = None"
    using parts(4) by (force simp: map_of_eq_None_iff)
  have "parse_entry ks0 (map (\<lambda>(i, k). (k, i)) ks0) (i @ '':'' @ b64encode k) = Inr (i, k)"
    by (rule parse_entry_accepts [OF parts(1) b64_roundtrip parts(2) b64encode_strip k _ mats])
      (use parts(3) in \<open>simp add: map_of_eq_None_iff\<close>)
  moreover have "parse_entries (map key_entry ks) (ks0 @ [e]) (map (\<lambda>(i, k). (k, i)) (ks0 @ [e])) = Inr ((ks0 @ [e]) @ ks)"
    using Cons.prems by (intro Cons.IH) simp
  ultimately show ?case using e by simp
qed simp

text \<open>C30: keys made by generate_key_entry, joined by commas, load: a list of distinct valid ids with distinct 32-byte keys comes back from the parser as exactly that keyring, in order, with the chosen active key.\<close>

theorem keyring_roundtrip:
  assumes "keys_ok ks" "act \<in> fst ` set ks"
  shows "\<exists>entries. list_all2 (\<lambda>(i, k) e. generate_key_entry i k = Inr e) ks entries
    \<and> parse_keyring (Some (join '','' entries)) (Some act) = Inr \<lparr>keys = ks, active_key_id = act\<rparr>"
proof -
  let ?es = "map key_entry ks"
  have ids: "KEY_ID_RE_fullmatch i" if "(i, k) \<in> set ks" for i k
    using assms(1) that by (auto simp: keys_ok_def list_all_iff)
  have gen: "list_all2 (\<lambda>(i, k) e. generate_key_entry i k = Inr e) ks ?es"
    by (auto simp: list_all2_conv_all_nth generate_key_entry_def case_prod_beta dest: ids nth_mem)
      (metis ids nth_mem prod.collapse)
  have ne: "ks \<noteq> []" using assms(2) by auto
  have "CHR '','' \<notin> set e" if "e \<in> set ?es" for e
    using that ids key_id_no_sep(2) b64encode_no_sep(2) by auto
  then have split: "split_all CHR '','' (join '','' ?es) = ?es"
    using ne by (intro split_all_join) auto
  have "parse_entries ?es [] [] = Inr ks" using parse_key_entries [of "[]" ks] assms(1) by simp
  moreover have act: "strip act = act" "act \<noteq> []" using assms(2) ids key_id_no_sep(3,4) by auto
  moreover have "strip (join '','' ?es) \<noteq> []"
  proof -
    obtain i k rest where ks: "ks = (i, k) # rest" using ne by (cases ks) auto
    have "i \<noteq> []" "\<not> is_space (hd i)"
      using ids [of i k] ks key_id_no_sep(3,4) hd_strip [of i] by auto
    moreover have "hd i \<in> set (join '','' ?es)" using ks \<open>i \<noteq> []\<close> by (cases rest) auto
    ultimately show ?thesis by (intro strip_nonempty)
  qed
  moreover have "map_of ks act \<noteq> None" using assms(2) by (simp add: map_of_eq_None_iff)
  ultimately have "parse_keyring (Some (join '','' ?es)) (Some act) = Inr \<lparr>keys = ks, active_key_id = act\<rparr>"
    using split by (simp add: parse_keyring_def)
  with gen show ?thesis by blast
qed

lemma keyring_roundtrip_witness:
  "\<exists>e. generate_key_entry ''k1'' sample_key = Inr e
    \<and> parse_keyring (Some e) (Some ''k1'') = Inr sample_ring"
proof -
  have "keys_ok [(''k1'', sample_key)]" using sample_ring_ok by (simp add: keyring_ok_def sample_ring_def)
  from keyring_roundtrip [OF this, of "''k1''"] show ?thesis
    by (auto simp: list_all2_Cons1 sample_ring_def)
qed

text \<open>Every keyring the parser accepts is well-formed, whatever the two texts are: its ids are valid and distinct, its keys distinct and 32 bytes long, and its active id, the stripped second text, is one of them.\<close>

lemma parsed_keyring_ok:
  assumes "parse_keyring raw_keys active = Inr ring"
  shows "keyring_ok ring \<and> active \<noteq> None \<and> active_key_id ring = strip (the active)
    \<and> (\<exists>key. map_of (keys ring) (active_key_id ring) = Some key \<and> length key = 32)"
proof -
  have ok: "keyring_ok ring" by (rule parse_keyring_ok [OF assms])
  moreover have "active \<noteq> None \<and> active_key_id ring = strip (the active)"
    using assms by (auto simp: parse_keyring_def split: option.splits if_splits sum.splits)
  moreover obtain key where "map_of (keys ring) (active_key_id ring) = Some key"
    using keyring_ok_active [OF ok] by blast
  ultimately show ?thesis using keyring_ok_lookup(2) [OF ok] by (auto simp: KEY_BYTES_def)
qed

lemma parsed_keyring_ok_witness: "keyring_ok sample_ring \<and> active_key_id sample_ring = strip ''k1''"
proof -
  have "parse_entry [] [] (''k1'' @ '':'' @ b64encode sample_key) = Inr (''k1'', sample_key)"
    by (rule parse_entry_accepts [OF sample_key_id b64_roundtrip _ b64encode_strip b64encode_nonempty])
      (simp_all add: sample_key_def KEY_BYTES_def)
  moreover have "split_all CHR '','' (''k1'' @ '':'' @ b64encode sample_key) = [''k1'' @ '':'' @ b64encode sample_key]"
    using b64encode_no_sep(2) by (intro split_all_no_sep) auto
  moreover have "strip (''k1'' @ '':'' @ b64encode sample_key) \<noteq> []"
    by (rule strip_nonempty [of "CHR ''k''"]) (simp_all add: is_space_def)
  ultimately have "parse_keyring (Some (''k1'' @ '':'' @ b64encode sample_key)) (Some ''k1'') = Inr sample_ring"
    by (simp add: parse_keyring_def sample_ring_def key_id_no_sep(4) [OF sample_key_id])
  from parsed_keyring_ok [OF this] show ?thesis by simp
qed

section \<open>Keys over time\<close>

text \<open>A later keyring that kept the keys of an earlier one.\<close>

definition keeps_keys :: "keyring \<Rightarrow> keyring \<Rightarrow> bool" where
  "keeps_keys ring ring' \<longleftrightarrow> (\<forall>(i, k) \<in> set (keys ring). map_of (keys ring') i = Some k)"

lemma startswith_envelope: "startswith (envelope i n c) (ENVELOPE_PREFIX @ i @ '':'')"
  unfolding startswith_iff
  by (rule exI [of _ "b64encode n @ '':'' @ b64encode c"])
    (simp add: envelope_def ENVELOPE_PREFIX_def ENVELOPE_VERSION_def)

text \<open>C16: key rotation: a text encrypted under one keyring decrypts under every later keyring that kept its keys, and rekeying the envelope there gives an envelope that names the later keyring's active key and decrypts to the same text.\<close>

theorem rotation_roundtrip:
  assumes "aead_correct A" "keyring_ok ring'" "keeps_keys ring ring'"
    "length nonce = NONCE_BYTES" "length nonce' = NONCE_BYTES"
    "encrypt_text A (Inr ring) None key_id nonce (Some plain) = Inr (Some env)"
  shows "decrypt_text A (Inr ring') None env = Inr plain
    \<and> (\<exists>env'. rekey_envelope A (Inr ring') None nonce' env = Inr (Some env')
         \<and> startswith env' (ENVELOPE_PREFIX @ active_key_id ring' @ '':'')
         \<and> decrypt_text A (Inr ring') None env' = Inr plain)"
proof -
  have ring': "ring_of None (Inr ring') = Inr ring'" by (simp add: ring_of_def)
  obtain i key where key: "map_of (keys ring) i = Some key"
    "env = envelope i nonce (gcm_encrypt A key nonce (utf8_encode plain))"
    using encrypt_text_SomeD [OF assms(6)] by (auto simp: ring_of_def)
  then have "map_of (keys ring') i = Some key"
    using assms(3) map_of_SomeD by (fastforce simp: keeps_keys_def)
  then have dec: "decrypt_text A (Inr ring') None env = Inr plain"
    unfolding key(2) by (intro decrypt_envelope [OF assms(1) ring' assms(2) _ assms(4)])
  obtain env' where env': "encrypt_text A (Inr ring') None None nonce' (Some plain) = Inr (Some env')"
    using encrypt_active_ok [OF ring' assms(2), of None A nonce' plain] by (auto simp: truthy_iff)
  then have re: "rekey_envelope A (Inr ring') None nonce' env = Inr (Some env')"
    using dec by (simp add: rekey_envelope_def)
  have "startswith env' (ENVELOPE_PREFIX @ active_key_id ring' @ '':'')"
    using encrypt_text_SomeD [OF env'] startswith_envelope by (auto simp: truthy_iff ring_of_def)
  with dec re encrypt_decrypt [OF assms(1) ring' assms(2,5) env'] show ?thesis by blast
qed

definition rotated_ring :: keyring where
  "rotated_ring = \<lparr>keys = [(''k2'', replicate 32 8), (''k1'', sample_key)], active_key_id = ''k2''\<rparr>"

lemma rotated_ring_ok: "keyring_ok rotated_ring"
  by (simp add: keyring_ok_def keys_ok_def rotated_ring_def sample_key_def KEY_BYTES_def
      KEY_ID_RE_fullmatch_def is_key_id_char_def Let_def eval_nat_numeral)

lemma rotation_roundtrip_witness:
  "\<exists>env env'. encrypt_text sample_aead (Inr sample_ring) None None sample_nonce (Some ''x'') = Inr (Some env)
    \<and> rekey_envelope sample_aead (Inr rotated_ring) None sample_nonce env = Inr (Some env')
    \<and> decrypt_text sample_aead (Inr rotated_ring) None env' = Inr ''x''"
proof -
  have kept: "keeps_keys sample_ring rotated_ring"
    by (simp add: keeps_keys_def sample_ring_def rotated_ring_def)
  have n: "length sample_nonce = NONCE_BYTES" by (simp add: sample_nonce_def NONCE_BYTES_def)
  obtain env where "encrypt_text sample_aead (Inr sample_ring) None None sample_nonce (Some ''x'') = Inr (Some env)"
    using encrypt_active_ok [OF _ sample_ring_ok, of None "Inr sample_ring" None sample_aead sample_nonce "''x''"]
    by (auto simp: ring_of_def)
  with rotation_roundtrip [OF sample_aead_correct rotated_ring_ok kept n n this] show ?thesis by blast
qed

section \<open>The privacy migration\<close>

text \<open>C17: the privacy migration: on a database of legacy plaintexts, whatever they look like, the upgrade succeeds and leaves every private column encrypted; running it again changes nothing, and the downgrade restores the original database exactly.\<close>

theorem migration_roundtrip:
  assumes "usable K" "\<And>k i. length (nonce k i) = NONCE_BYTES" "all_legacy K db"
  shows "\<exists>db'. privacy_upgrade K nonce db = (Inr (), db') \<and> encrypted_at_rest db'
    \<and> privacy_upgrade K nonce' db' = (Inr (), db') \<and> privacy_downgrade K nonce' db' = (Inr (), db)"
proof -
  have "\<forall>k i. length (nonce k i) = NONCE_BYTES" using assms(2) by blast
  then obtain db' where "privacy_upgrade K nonce db = (Inr (), db')" "migrated K db db'"
    using upgrade_migrates [OF assms(1) _ assms(3)] by blast
  then show ?thesis using migrated_back [of K db db'] by blast
qed

definition legacy_db :: db where
  "legacy_db = sample_db\<lparr>fingerprints := [sample_row\<lparr>fp_reason := Some ''enc:v1:spam'',
     fp_source_url := Some ''http''\<rparr>]\<rparr>"

lemma migration_roundtrip_witness:
  "\<exists>db'. privacy_upgrade sample_crypto (\<lambda>_ _. sample_nonce) legacy_db = (Inr (), db')
    \<and> encrypted_at_rest db'
    \<and> privacy_downgrade sample_crypto (\<lambda>_ _. sample_nonce) db' = (Inr (), legacy_db)"
proof -
  have u: "usable sample_crypto"
    using sample_ring_ok sample_aead_correct by (simp add: usable_def sample_crypto_def)
  have n: "length sample_nonce = NONCE_BYTES" by (simp add: sample_nonce_def NONCE_BYTES_def)
  have "legacy_plain sample_crypto ''enc:v1:spam''" "legacy_plain sample_crypto ''http''"
    by (auto simp: legacy_plain_def pg_text_code decrypt_text_def is_encrypted_value_def startswith_def
        ENVELOPE_PREFIX_def ENVELOPE_VERSION_def Let_def eval_nat_numeral)
  then have "all_legacy sample_crypto legacy_db"
    by (simp add: all_legacy_def legacy_db_def sample_db_def sample_row_def)
  from migration_roundtrip [OF u n this] show ?thesis by blast
qed

text \<open>C35: the way back from the privacy migration, on any database whose private values all decrypt: it puts every private value in the clear and touches nothing else, unless one of the texts holds a NUL character, which encryption lets into the database and a text column refuses; then it raises and leaves the database as it was. A contribution with a NUL in its reason is accepted, so any writer can block the downgrade.\<close>

theorem downgrade_exact:
  assumes "readable K db"
  shows "privacy_downgrade K nonce db =
    (if storable (plain_db K db) then (Inr (), plain_db K db) else (Inl DataError, db))"
  by (rule downgrade_cases [OF assms])

definition nul_contribution :: contribution where
  "nul_contribution = (sample_contribution 1)\<lparr>con_reason := Some [char_of (0::nat)]\<rparr>"

definition hub_nul :: "int \<times> db" where
  "hub_nul = (case contribute sample_crypto True (sample_nonce, [], []) nul_contribution hub_day1 of
     (Inr (Some r, True), db) \<Rightarrow> (fp_id r, db) | (_, db) \<Rightarrow> (0, db))"

lemma hub_nul_rows:
  "fst hub_nul = 1"
  "map (\<lambda>r. (fp_source_guild_id r, fp_reason r, fp_source_url r)) (fingerprints (snd hub_nul))
    = [(None, Some (envelope ''k1'' sample_nonce (gcm_encrypt sample_aead sample_key sample_nonce
          (utf8_encode [char_of (0::nat)]))), None)]"
  "fingerprint_hits (snd hub_nul) = []" "fingerprint_flags (snd hub_nul) = []"
  by (simp_all add: hub_nul_def hub_day1_eval contribute_def nul_contribution_def sample_contribution_def
      encrypt_text_def sample_crypto_def sample_ring_def ring_of_def with_connection_def transaction_def
      contribute_txn_def envelope_pg_text [OF sample_key_id, unfolded pg_text_code] sql_simps
      select_fp_by_phash_def empty_db_def insert_fp_def new_row_def VALID_ACTIONS_def VALID_CATEGORIES_def
      Let_def)

lemma downgrade_exact_witness:
  "fst hub_nul = 1 \<and> privacy_downgrade sample_crypto (\<lambda>_ _. sample_nonce) (snd hub_nul) = (Inl DataError, snd hub_nul)"
proof -
  let ?env = "envelope ''k1'' sample_nonce (gcm_encrypt sample_aead sample_key sample_nonce
      (utf8_encode [char_of (0::nat)]))"
  obtain r where r: "fingerprints (snd hub_nul) = [r]" "fp_source_guild_id r = None"
    "fp_reason r = Some ?env" "fp_source_url r = None"
    using hub_nul_rows(2) by auto
  have "decrypt_text sample_aead (Inr sample_ring) None ?env = Inr [char_of (0::nat)]"
    by (rule decrypt_envelope [OF sample_aead_correct _ sample_ring_ok])
      (simp_all add: ring_of_def sample_ring_def sample_nonce_def NONCE_BYTES_def)
  then have d: "decrypts sample_crypto ?env [char_of (0::nat)]"
    by (simp add: decrypts_def sample_crypto_def is_encrypted_envelope)
  then have "readable sample_crypto (snd hub_nul)"
    using r hub_nul_rows(3,4) by (auto simp: readable_def)
  moreover have "plain_of sample_crypto (Some ?env) = Some [char_of (0::nat)]"
    using d by (simp add: plain_of_def decrypts_def)
  then have "\<not> storable (plain_db sample_crypto (snd hub_nul))"
    using r by (simp add: storable_def plain_db_def pg_text_def)
  ultimately show ?thesis using downgrade_exact hub_nul_rows(1) by simp
qed

end
