(* ===== verification/Operator_Tools.thy ===== *)
theory Operator_Tools
  imports Http_App Field_Encryption
begin

text \<open>
  \<^verbatim>\<open>tools/create_consumer.py\<close>, \<^verbatim>\<open>tools/purge_retention.py\<close> and \<^verbatim>\<open>tools/generate_field_key.py\<close> from the
  parsed command line on. A tool exits with a code and what it printed, or is left by an exception.
\<close>

text \<open>
  A printed line; \<open>KeyNotice\<close> is the fixed line \<^verbatim>\<open>API key (shown ONCE ...)\<close>, which holds a dash outside
  the character set of the model.
\<close>

datatype output_line = Line string | KeyNotice

datatype outcome = Exit int "output_line list" "output_line list" | Raised exn

section \<open>Creating a consumer\<close>

definition parse_scopes :: "string \<Rightarrow> string list" where
  "parse_scopes s = map strip (filter (\<lambda>p. strip p \<noteq> []) (split_all CHR '','' s))"

definition create_consumer_main ::
  "(postgres_settings \<Rightarrow> exn option) \<Rightarrow> environ \<Rightarrow> bool \<Rightarrow> bytes \<Rightarrow> int \<Rightarrow> string \<Rightarrow> string
   \<Rightarrow> pool_process \<Rightarrow> db \<Rightarrow> outcome \<times> pool_process \<times> db"
where
  "create_consumer_main new_pool_error env reachable token now_ms name raw_scopes s db =
     (let scopes = parse_scopes raw_scopes in
      case get_postgres_pool new_pool_error env (postgres_config (load_config_from_env env)) s of
        (Inl e, s1) \<Rightarrow> (Raised e, s1, db)
      | (Inr pool, s1) \<Rightarrow>
          (case create_consumer reachable token name scopes now_ms db of
             (Inl (ValueError m), db1) \<Rightarrow> (Exit 2 [] [Line (''error: '' @ m)], s1, db1)
           | (Inl UniqueViolation, db1) \<Rightarrow>
               (Exit 2 [] [Line (''error: a consumer named '' @ py_repr (JStr name)
                  @ '' already exists'')], s1, db1)
           | (Inl e, db1) \<Rightarrow> (Raised e, s1, db1)
           | (Inr (consumer_id, raw_key), db1) \<Rightarrow>
               (Exit 0
                  [Line (''Created consumer id='' @ int_str consumer_id @ '' name='' @ py_repr (JStr name)
                     @ '' scopes='' @ py_repr (JList (map JStr scopes))),
                   Line [], KeyNotice, Line (''  '' @ raw_key)] [], s1, db1)))"

section \<open>Retention\<close>

definition DAY_MS :: int where
  "DAY_MS = 24 * 60 * 60 * 1000"

record purge_args =
  hit_days :: int
  flag_reason_days :: int
  tombstone_metadata_days :: int
  tombstone_days :: int
  apply_changes :: bool

text \<open>The defaults of the command line.\<close>

definition default_purge_args :: purge_args where
  "default_purge_args = \<lparr>hit_days = 90, flag_reason_days = 90, tombstone_metadata_days = 30,
     tombstone_days = 180, apply_changes = False\<rparr>"

definition policy_of :: "purge_args \<Rightarrow> retention_policy" where
  "policy_of a = \<lparr>hit_retention_ms = hit_days a * DAY_MS,
     flag_reason_retention_ms = flag_reason_days a * DAY_MS,
     tombstone_metadata_retention_ms = tombstone_metadata_days a * DAY_MS,
     tombstone_retention_ms = tombstone_days a * DAY_MS\<rparr>"

text \<open>
  \<^verbatim>\<open>json.dumps(..., sort_keys=True)\<close> of an object whose values are texts and integers and whose texts
  need no escapes.
\<close>

definition dumps_value :: "json \<Rightarrow> string" where
  "dumps_value v = (case v of JInt n \<Rightarrow> int_str n | JStr s \<Rightarrow> [char_of (34::nat)] @ s @ [char_of (34::nat)]
     | _ \<Rightarrow> py_repr v)"

definition dumps_sorted :: "dict \<Rightarrow> string" where
  "dumps_sorted d = ''{'' @ join '', '' (map (\<lambda>kv. dumps_value (JStr (fst kv)) @ '': '' @ dumps_value (snd kv))
     (sort_key fst d)) @ ''}''"

definition purge_report :: "purge_args \<Rightarrow> retention_counts \<Rightarrow> string" where
  "purge_report a c = dumps_sorted
     [(''mode'', JStr (if apply_changes a then ''apply'' else ''preview'')),
      (''hits_deleted'', JInt (hits_deleted c)),
      (''flag_reasons_cleared'', JInt (flag_reasons_cleared c)),
      (''tombstones_anonymized'', JInt (tombstones_anonymized c)),
      (''tombstones_deleted'', JInt (tombstones_deleted c))]"

text \<open>\<^verbatim>\<open>parser.error\<close> prints to the error stream and exits with code 2.\<close>

definition purge_main ::
  "(postgres_settings \<Rightarrow> exn option) \<Rightarrow> environ \<Rightarrow> bool \<Rightarrow> int \<Rightarrow> purge_args
   \<Rightarrow> pool_process \<Rightarrow> db \<Rightarrow> outcome \<times> pool_process \<times> db"
where
  "purge_main new_pool_error env reachable now_ms a s db =
     (if min (min (hit_days a) (flag_reason_days a)) (min (tombstone_metadata_days a) (tombstone_days a)) < 0
      then (Exit 2 [] [Line ''retention days must be non-negative''], s, db)
      else if tombstone_metadata_days a > tombstone_days a
      then (Exit 2 [] [Line ''tombstone metadata days cannot exceed tombstone days''], s, db)
      else
        (case get_postgres_pool new_pool_error env (postgres_config (load_config_from_env env)) s of
           (Inl e, s1) \<Rightarrow> (Raised e, s1, db)
         | (Inr pool, s1) \<Rightarrow>
             (case apply_retention reachable now_ms (policy_of a) (\<not> apply_changes a) db of
                (Inl e, db1) \<Rightarrow> (Raised e, close_postgres_pool s1, db1)
              | (Inr counts, db1) \<Rightarrow>
                  (Exit 0 [Line (purge_report a counts)] [], close_postgres_pool s1, db1))))"

section \<open>Generating a key\<close>

definition KEYS_ENV :: string where
  "KEYS_ENV = ''FINGERPRINTHUB_FIELD_ENCRYPTION_KEYS''"

definition ACTIVE_KEY_ENV :: string where
  "ACTIVE_KEY_ENV = ''FINGERPRINTHUB_FIELD_ENCRYPTION_ACTIVE_KEY_ID''"

definition generate_key_main :: "bytes \<Rightarrow> string \<Rightarrow> outcome" where
  "generate_key_main token key_id =
     (case generate_key_entry key_id token of
        Inl e \<Rightarrow> Raised e
      | Inr entry \<Rightarrow>
          Exit 0 [Line (KEYS_ENV @ ''='' @ entry), Line (ACTIVE_KEY_ENV @ ''='' @ key_id), Line [],
            Line (''Back up this key outside the repo. ''
              @ ''Losing it permanently loses encrypted field access.'')] [])"

section \<open>What the tools do to the database\<close>

lemma create_main_db:
  "snd (snd (create_consumer_main npe env up token now name raw s db))
    = (if is_ok (fst (get_postgres_pool npe env (postgres_config (load_config_from_env env)) s))
       then snd (create_consumer up token name (parse_scopes raw) now db) else db)"
  by (auto simp: create_consumer_main_def Let_def split: prod.split sum.split exn.split)

lemma create_main_exit0:
  assumes "create_consumer_main npe env up token now name raw s db = (Exit 0 out err, s', db')"
  obtains i raw_key where "create_consumer up token name (parse_scopes raw) now db = (Inr (i, raw_key), db')"
    "last out = Line (''  '' @ raw_key)"
  using assms
  by (auto simp: create_consumer_main_def Let_def split: prod.splits sum.splits exn.splits)

text \<open>The tool's checks are the store's: with a day count that passes them the store raises no \<open>ValueError\<close>.\<close>

lemma policy_of_accepted:
  assumes "\<not> min (min (hit_days a) (flag_reason_days a)) (min (tombstone_metadata_days a) (tombstone_days a)) < 0"
    and "\<not> tombstone_metadata_days a > tombstone_days a"
  shows "0 \<le> hit_retention_ms (policy_of a)" "0 \<le> flag_reason_retention_ms (policy_of a)"
    "0 \<le> tombstone_metadata_retention_ms (policy_of a)"
    "tombstone_metadata_retention_ms (policy_of a) \<le> tombstone_retention_ms (policy_of a)"
  using assms by (auto simp: policy_of_def DAY_MS_def)

end
