(* ===== verification/Runtime_Properties.thy ===== *)
theory Runtime_Properties
  imports Operator_Tools Retention_Lemmas Api_Properties
begin

text \<open>
  The properties of the process around the service: keys that operators issue, the purge tool, the
  pool manager, the start and the end of the process, and the answers that list rows.
\<close>

section \<open>Keys\<close>


definition db_url_env :: environ where
  "db_url_env name = (if name = ''FINGERPRINTHUB_DATABASE_URL'' then Some ''postgresql+psycopg://db'' else None)"

lemma db_url_env_unset: "db_url_env ''FINGERPRINTHUB_LOG_LEVEL'' = None"
  by (simp add: db_url_env_def)

lemma db_url_settings:
  "get_postgres_settings db_url_env (postgres_config cfg) = Inr \<lparr>dsn = ''postgresql://db'',
     pool_min_size = 1, pool_max_size = 10, connect_timeout_seconds = 5\<rparr>"
  by (simp add: get_postgres_settings_def get_database_url_def postgres_config_def mapping_at_def
      dict_get_def DEFAULT_DATABASE_URL_ENV_def db_url_env_def normalize_psycopg_dsn_def
      DEFAULT_POOL_MIN_SIZE_def DEFAULT_POOL_MAX_SIZE_def DEFAULT_CONNECT_TIMEOUT_SECONDS_def startswith_def)

definition db_url_config :: dict where
  "db_url_config = postgres_config (load_config_from_env db_url_env)"

lemma db_url_pool:
  "get_postgres_pool (\<lambda>_. None) db_url_env (postgres_config cfg) fresh_process = (Inr 0, \<lparr>manager_pool = Some 0,
     manager_dsn = Some ''postgresql://db'', open_pools = [(0, \<lparr>dsn = ''postgresql://db'',
     pool_min_size = 1, pool_max_size = 10, connect_timeout_seconds = 5\<rparr>)], next_pool = 1\<rparr>)"
  by (simp add: get_postgres_pool_def get_pool_def db_url_settings fresh_process_def close_pool_def Let_def)


section \<open>Purging\<close>

lemma policy_of_ok:
  "policy_ok (policy_of a) \<longleftrightarrow>
    \<not> min (min (hit_days a) (flag_reason_days a)) (min (tombstone_metadata_days a) (tombstone_days a)) < 0
    \<and> \<not> tombstone_metadata_days a > tombstone_days a"
  by (auto simp: policy_ok_def policy_of_def DAY_MS_def)

lemma apply_retention_down: "policy_ok p \<Longrightarrow> apply_retention False now p dry db = (Inl OperationalError, db)"
  by (auto simp: apply_retention_def with_connection_def policy_ok_def)

lemma get_postgres_pool_ok:
  "process_ok s \<Longrightarrow> get_postgres_pool npe env config s = (r, s') \<Longrightarrow> process_ok s'"
  using get_pool_process_ok [of s npe env config] by (simp add: get_postgres_pool_def)

lemma get_pool_failed:
  assumes "get_postgres_pool npe env config fresh_process = (Inl e, s')"
  shows "open_pools s' = []"
  using assms by (auto simp: get_postgres_pool_def get_pool_def fresh_process_def close_pool_def Let_def
      split: sum.splits option.splits)

text \<open>C37: the purge tool, started in a fresh process with any arguments: it leaves no pool open, changes nothing without --apply, refuses a bad policy with exit code 2 before it touches the database, and otherwise, when it gets a pool and the database answers, prints the counts of the retention run and, with --apply, leaves exactly what that run leaves.\<close>

theorem purge_tool:
  assumes "purge_main new_pool_error env reachable now a fresh_process db = (out, s', db')"
  shows "open_pools s' = [] \<and> (\<not> apply_changes a \<longrightarrow> db' = db)
    \<and> (\<not> policy_ok (policy_of a) \<longrightarrow> db' = db \<and> (\<exists>m. out = Exit 2 [] [m]))
    \<and> (policy_ok (policy_of a) \<longrightarrow> reachable \<longrightarrow>
        is_ok (fst (get_postgres_pool new_pool_error env (postgres_config (load_config_from_env env)) fresh_process)) \<longrightarrow>
        (\<exists>c. fst (apply_retention True now (policy_of a) False db) = Inr c
           \<and> out = Exit 0 [Line (purge_report a c)] []
           \<and> db' = (if apply_changes a then snd (apply_retention True now (policy_of a) False db) else db)))"
proof (cases "policy_ok (policy_of a)")
  case False
  then show ?thesis
    using assms by (auto simp: purge_main_def policy_of_ok fresh_process_def split: if_splits)
next
  case True
  obtain r s1 where pool: "get_postgres_pool new_pool_error env (postgres_config (load_config_from_env env))
      fresh_process = (r, s1)" by fastforce
  have ok1: "process_ok s1" by (rule get_postgres_pool_ok [OF fresh_process_ok pool])
  have txn: "\<exists>c. fst (retention_txn now (policy_of a) db) = Inr c" by (simp add: retention_txn_eq Let_def)
  show ?thesis
  proof (cases r)
    case (Inl e)
    then show ?thesis
      using assms True pool get_pool_failed [of new_pool_error env]
      by (auto simp: purge_main_def policy_of_ok)
  next
    case (Inr i)
    have closed: "open_pools (close_postgres_pool s1) = []"
      using close_manager_ok(1) [OF ok1] by (simp add: close_postgres_pool_def)
    show ?thesis
    proof (cases reachable)
      case up: True
      obtain c where c: "fst (retention_txn now (policy_of a) db) = Inr c" using txn by blast
      then have "out = Exit 0 [Line (purge_report a c)] []" "s' = close_postgres_pool s1"
        "db' = (if apply_changes a then snd (retention_txn now (policy_of a) db) else db)"
        using assms True Inr pool up apply_retention_runs [OF True, of now "\<not> apply_changes a" db]
        by (auto simp: purge_main_def policy_of_ok split: if_splits)
      then show ?thesis
        using c closed True apply_retention_runs [OF True, of now False db] by auto
    next
      case down: False
      then show ?thesis
        using assms True Inr pool closed apply_retention_down [OF True, of now "\<not> apply_changes a" db]
        by (auto simp: purge_main_def policy_of_ok split: if_splits)
    qed
  qed
qed

lemma purge_tool_witness:
  "open_pools (fst (snd (purge_main (\<lambda>_. None) db_url_env True 0 default_purge_args fresh_process sample_db))) = []
    \<and> snd (snd (purge_main (\<lambda>_. None) db_url_env True 0 default_purge_args fresh_process sample_db)) = sample_db"
  by (cases "purge_main (\<lambda>_. None) db_url_env True 0 default_purge_args fresh_process sample_db")
    (use purge_tool [of "\<lambda>_. None" db_url_env True 0 default_purge_args sample_db] in
      \<open>simp add: default_purge_args_def\<close>)

section \<open>The pool manager\<close>

text \<open>The states a process can bring its pool manager into, with any environment and configuration at each call.\<close>

inductive process_reachable :: "(postgres_settings \<Rightarrow> exn option) \<Rightarrow> pool_process \<Rightarrow> bool" for npe
where
  fresh: "process_reachable npe fresh_process"
| get: "process_reachable npe s \<Longrightarrow> process_reachable npe (snd (get_postgres_pool npe env config s))"
| closing: "process_reachable npe s \<Longrightarrow> process_reachable npe (close_postgres_pool s)"

lemma process_reachable_ok: "process_reachable npe s \<Longrightarrow> process_ok s"
  by (induction rule: process_reachable.induct)
    (auto simp: fresh_process_ok get_postgres_pool_def get_pool_process_ok close_postgres_pool_def close_manager_ok)

text \<open>Whatever sequence of requests for a pool and closings a process makes, with any settings and failing constructors, it never has more than one pool open, an open pool is the manager's current one under the current data source, and closing leaves none open.\<close>

lemma at_most_one_pool:
  assumes "process_reachable new_pool_error s"
  shows "length (open_pools s) \<le> 1
    \<and> (\<forall>(i, st) \<in> set (open_pools s). manager_pool s = Some i \<and> manager_dsn s = Some (dsn st))
    \<and> open_pools (close_postgres_pool s) = []"
  using process_reachable_ok [OF assms] close_manager_ok(1)
  by (auto simp: process_ok_def close_postgres_pool_def)

lemma at_most_one_pool_witness:
  "length (open_pools (snd (get_postgres_pool (\<lambda>_. None) db_url_env (db_url_config) fresh_process))) = 1
    \<and> open_pools (close_postgres_pool (snd (get_postgres_pool (\<lambda>_. None) db_url_env (db_url_config) fresh_process))) = []"
  using at_most_one_pool [OF process_reachable.get [OF process_reachable.fresh], of "\<lambda>_. None" db_url_env "db_url_config"]
  by (simp add: db_url_pool db_url_config_def)

text \<open>After a constructor that raised for a changed data source, the manager still hands out the old pool for the old data source, although that pool was closed before the constructor ran.\<close>

lemma closed_pool_handed_out:
  assumes "process_reachable npe s" "manager_pool s = Some i" "manager_dsn s = Some (dsn st2)"
    "get_postgres_settings env1 config1 = Inr st1" "dsn st1 \<noteq> dsn st2" "npe st1 = Some e"
    "get_postgres_settings env2 config2 = Inr st2"
  shows "fst (get_postgres_pool npe env1 config1 s) = Inl e
    \<and> fst (get_postgres_pool npe env2 config2 (snd (get_postgres_pool npe env1 config1 s))) = Inr i
    \<and> open_pools (snd (get_postgres_pool npe env2 config2 (snd (get_postgres_pool npe env1 config1 s)))) = []"
  using assms close_pool_all [OF process_reachable_ok [OF assms(1)]]
  by (simp add: get_postgres_pool_def get_pool_def Let_def)

definition picky_pool :: "postgres_settings \<Rightarrow> exn option" where
  "picky_pool st = (if dsn st = ''x'' then Some TypeError else None)"

definition after_failure :: pool_process where
  "after_failure = snd (get_postgres_pool picky_pool (\<lambda>_. None) [(''database'', JObj [(''url'', JStr ''x'')])]
     (snd (get_postgres_pool picky_pool db_url_env db_url_config fresh_process)))"

lemma closed_pool_handed_out_witness:
  "fst (get_postgres_pool picky_pool db_url_env db_url_config after_failure) = Inr 0
    \<and> open_pools (snd (get_postgres_pool picky_pool db_url_env db_url_config after_failure)) = []"
proof -
  let ?s = "snd (get_postgres_pool picky_pool db_url_env db_url_config fresh_process)"
  let ?st1 = "\<lparr>dsn = ''x'', pool_min_size = 1, pool_max_size = 10, connect_timeout_seconds = 5\<rparr>"
  let ?st2 = "\<lparr>dsn = ''postgresql://db'', pool_min_size = 1, pool_max_size = 10, connect_timeout_seconds = 5\<rparr>"
  have st1: "get_postgres_settings (\<lambda>_. None) [(''database'', JObj [(''url'', JStr ''x'')])] = Inr ?st1"
    by (simp add: get_postgres_settings_def get_database_url_def mapping_at_def
        dict_get_def DEFAULT_DATABASE_URL_ENV_def normalize_psycopg_dsn_def startswith_def
        DEFAULT_POOL_MIN_SIZE_def DEFAULT_POOL_MAX_SIZE_def DEFAULT_CONNECT_TIMEOUT_SECONDS_def)
  have st2: "get_postgres_settings db_url_env db_url_config = Inr ?st2"
    unfolding db_url_config_def by (rule db_url_settings)
  have r: "process_reachable picky_pool ?s" by (rule process_reachable.get [OF process_reachable.fresh])
  have s: "manager_pool ?s = Some 0" "manager_dsn ?s = Some (dsn ?st2)"
    by (simp_all add: get_postgres_pool_def get_pool_def st2 fresh_process_def
        close_pool_def picky_pool_def Let_def)
  have d: "dsn ?st1 \<noteq> dsn ?st2" and e: "picky_pool ?st1 = Some TypeError" by (simp_all add: picky_pool_def)
  show ?thesis
    unfolding after_failure_def using closed_pool_handed_out [OF r s st1 d e st2] by blast
qed

section \<open>Start and end of the process\<close>

text \<open>The application starts only on a database whose migration revisions are exactly the expected heads, with a pool open on the configured database, an auto-hide threshold of at least one and at least one worker.\<close>

lemma starts_only_at_head:
  assumes "create_app_from_environment new_pool_error env expected_heads answers fresh_process = (Inr (cfg, pool), s)"
  shows "\<exists>a settings. answers = Inr a \<and> truthy (version_table a) \<and> set (revision_rows a) = set expected_heads
    \<and> get_postgres_settings env (postgres_config cfg) = Inr settings \<and> open_pools s = [(pool, settings)]
    \<and> 1 \<le> auto_hide_flag_threshold cfg \<and> 1 \<le> get_max_workers env"
proof -
  have cfg: "cfg = load_config_from_env env"
    and valid: "\<exists>info. validate_postgres_runtime env (postgres_config cfg) expected_heads answers = Inr info"
    and pool: "get_postgres_pool new_pool_error env (postgres_config cfg) fresh_process = (Inr pool, s)"
    using assms by (auto simp: create_app_from_environment_def Let_def split: sum.splits prod.splits)
  from pool obtain settings where "get_postgres_settings env (postgres_config cfg) = Inr settings"
    "open_pools s = [(pool, settings)]"
    by (auto simp: get_postgres_pool_def get_pool_def fresh_process_def close_pool_def Let_def
        split: sum.splits option.splits)
  then show ?thesis
    using valid threshold_positive cfg get_max_workers_positive
    by (auto simp: validate_postgres_runtime_def split: sum.splits if_splits)
qed

definition head_answers :: schema_answers where
  "head_answers = \<lparr>server_version = Some ''16'', version_table = Some ''alembic_version'',
     revision_rows = [''0002_privacy_hardening'']\<rparr>"

lemma head_start:
  "create_app_from_environment (\<lambda>_. None) db_url_env [''0002_privacy_hardening''] (Inr head_answers) fresh_process
    = (Inr (load_config_from_env db_url_env, 0), snd (get_postgres_pool (\<lambda>_. None) db_url_env
        (postgres_config (load_config_from_env db_url_env)) fresh_process))"
  by (simp add: create_app_from_environment_def Let_def validate_postgres_runtime_def db_url_settings
      setup_logging_unset db_url_env_unset head_answers_def db_url_pool)

lemma starts_only_at_head_witness:
  "1 \<le> auto_hide_flag_threshold (load_config_from_env db_url_env)
    \<and> length (open_pools (snd (create_app_from_environment (\<lambda>_. None) db_url_env [''0002_privacy_hardening'']
        (Inr head_answers) fresh_process))) = 1"
  using starts_only_at_head [OF head_start] by (elim exE conjE) (simp add: head_start db_url_pool)

text \<open>C36: the process leaves no pool open, whether the configuration, the schema check, the pool or the server fails or the server ends by itself; and the server runs only after the schema check passed.\<close>

theorem main_closes_pool:
  "open_pools (snd (main new_pool_error env expected_heads answers run_app fresh_process)) = []
    \<and> (\<not> is_ok (validate_postgres_runtime env (postgres_config (load_config_from_env env)) expected_heads answers)
       \<longrightarrow> main new_pool_error env expected_heads answers run_app fresh_process
         = main new_pool_error env expected_heads answers run_app' fresh_process)"
proof -
  obtain r s where pool: "get_postgres_pool new_pool_error env (postgres_config (load_config_from_env env)) fresh_process = (r, s)"
    by fastforce
  have "open_pools (close_postgres_pool s) = []"
    using close_manager_ok(1) [OF get_postgres_pool_ok [OF fresh_process_ok pool]]
    by (simp add: close_postgres_pool_def)
  then show ?thesis
    using pool get_pool_failed [of new_pool_error env "postgres_config (load_config_from_env env)"]
    by (auto simp: main_def create_app_from_environment_def Let_def fresh_process_def split: sum.splits)
qed

lemma main_closes_pool_witness:
  "main (\<lambda>_. None) (\<lambda>_. None) [] (Inl OperationalError) (\<lambda>_. Inr ()) fresh_process
    = main (\<lambda>_. None) (\<lambda>_. None) [] (Inl OperationalError) (\<lambda>_. Inl TypeError) fresh_process"
proof -
  have "\<not> is_ok (validate_postgres_runtime (\<lambda>_. None) (postgres_config (load_config_from_env (\<lambda>_. None))) []
      (Inl OperationalError))"
    by (simp add: validate_postgres_runtime_def split: sum.split)
  then show ?thesis using main_closes_pool by blast
qed

section \<open>Answers that list rows\<close>

text \<open>C23: a successful browse of a consumer without the admin scope is exactly one page of that consumer's own active rows that match the query's category and algorithm, newest first, with the limit the query asks for cut to the configured maximum and raised to one, and its offset raised to zero, whatever else the query asks for; each row of the page is shown as the owner sees it.\<close>

theorem browse_own_rows:
  assumes "list_handler sv t c rq db = (Inr resp, db')" "rs_status resp = 200" "\<not> is_admin c"
  shows "\<exists>raw off rows js. py_int (query_or rq ''limit'' ''50'') = Some raw
    \<and> py_int (query_or rq ''offset'' ''0'') = Some off
    \<and> rows = take (nat (max 1 (min raw (max_list_limit (sv_config sv))))) (drop (nat (max 0 off))
        (rev (sort_key fp_id (filter (\<lambda>r. fp_consumer_id r = cv_id c \<and> fp_status r = Active
           \<and> matches (query_text rq ''category'') (fp_category r)
           \<and> matches (query_text rq ''algorithm'') (fp_algorithm r)) (fingerprints db)))))
    \<and> detail_fps (sv_crypto sv) c rows = Inr js
    \<and> resp = json_response (JObj [(''fingerprints'', JList js), (''count'', JInt (int (length rows)))]) 200"
proof -
  have refusal: "rs_status r \<noteq> 200" if "list_consumer c rq = Inl r" for r
    using that by (auto simp: list_consumer_def Let_def split: option.splits if_splits)
  have own: "cid = Some (cv_id c)" if "list_consumer c rq = Inr cid" for cid
    using that assms(3) by (auto simp: list_consumer_def Let_def split: option.splits if_splits)
  have sel: "list_where cat alg (Some (cv_id c)) False = (\<lambda>r. fp_consumer_id r = cv_id c \<and> fp_status r = Active
      \<and> matches cat (fp_category r) \<and> matches alg (fp_algorithm r))" for cat alg
    by (auto simp: list_where_def fun_eq_iff)
  from assms obtain raw off rows js where
    q: "py_int (query_or rq ''limit'' ''50'') = Some raw" "py_int (query_or rq ''offset'' ''0'') = Some off"
    and rows: "list_fingerprints (su_up t 2) (query_text rq ''category'') (query_text rq ''algorithm'')
      (Some (cv_id c)) False (max 1 (min raw (max_list_limit (sv_config sv)))) (max 0 off) db = Inr rows"
    and js: "detail_fps (sv_crypto sv) c rows = Inr js"
    and resp: "resp = json_response (JObj [(''fingerprints'', JList js), (''count'', JInt (int (length rows)))]) 200"
    by (auto simp: list_handler_def Let_def split: sum.splits option.splits dest: refusal own)
  from rows have "rows = take (nat (max 1 (min raw (max_list_limit (sv_config sv))))) (drop (nat (max 0 off))
      (rev (sort_key fp_id (filter (list_where (query_text rq ''category'') (query_text rq ''algorithm'')
        (Some (cv_id c)) False) (fingerprints db)))))"
    unfolding list_fingerprints_def by (simp split: if_splits)
  then show ?thesis using q js resp unfolding sel by blast
qed

lemma browse_own_rows_witness:
  "\<exists>rows js. fst (list_handler sample_service sample_surroundings (sample_view 1 [''read''])
      (sample_request None [] (BodyInvalid [])) sample_db)
    = Inr (json_response (JObj [(''fingerprints'', JList js), (''count'', JInt (int (length rows)))]) 200)
    \<and> rows = [sample_row]"
proof -
  let ?h = "list_handler sample_service sample_surroundings (sample_view 1 [''read''])
      (sample_request None [] (BodyInvalid [])) sample_db"
  have nums: "py_int ''50'' = Some 50" "py_int ''0'' = Some 0"
    by (simp_all add: py_int_def strip_def lstrip_def rstrip_def is_space_def unsigned_value_def
        is_digit_def MAX_STR_DIGITS_def Let_def)
  have sel: "list_fingerprints True None None (Some 1) False (max 1 (min 50 n)) 0 sample_db = Inr [sample_row]"
    if "n = 200" for n
    using that by (simp add: list_fingerprints_def filter_text_ok_def pg_row_count_def list_where_def
        matches_def sample_db_def sample_row_def)
  have cfg: "max_list_limit (sv_config sample_service) = 200"
    by (simp add: sample_service_def load_config_from_env_def int_env_unset DEFAULT_MAX_LIST_LIMIT_def)
  have det: "detail_fps (sv_crypto sample_service) (sample_view 1 [''read'']) [sample_row] = Inr [j]"
    if "detail_fp (sv_crypto sample_service) (sample_view 1 [''read'']) sample_row = Inr j" for j
    using that by simp
  obtain j where j: "detail_fp (sv_crypto sample_service) (sample_view 1 [''read'']) sample_row = Inr j"
  proof -
    have "fp_source_guild_id sample_row = None" "fp_reason sample_row = None" "fp_source_url sample_row = None"
      by (simp_all add: sample_row_def)
    then have "\<exists>j. detail_fp (sv_crypto sample_service) (sample_view 1 [''read'']) sample_row = Inr j"
      by (simp add: detail_fp_def decrypt_shown_def)
    then show ?thesis using that by blast
  qed
  have run: "?h = (Inr (json_response (JObj [(''fingerprints'', JList [j]), (''count'', JInt 1)]) 200), sample_db)"
    using det [OF j] sel [OF cfg]
    by (simp add: list_handler_def require_scope_def sample_view_def query_or_def query_def sample_request_def nums
        list_consumer_def is_admin_def query_text_def str_or_none_def include_hidden_set_def lower_def Let_def)
  have "\<not> is_admin (sample_view 1 [''read''])" "cv_id (sample_view 1 [''read'']) = 1"
    by (simp_all add: is_admin_def sample_view_def)
  moreover have "query_or (sample_request None [] (BodyInvalid [])) a b = b" "query_text (sample_request None [] (BodyInvalid [])) a = None"
    for a b by (simp_all add: query_or_def query_def sample_request_def query_text_def str_or_none_def)
  ultimately show ?thesis
    using browse_own_rows [OF run] run nums cfg
    by (auto simp: sample_db_def sample_row_def matches_def)
qed

text \<open>A successful sync answer is one page of the store's sync for that consumer, with at most the configured maximum of rows (or one), whatever limit the query asks for, a negative cursor counting as zero, and each row only in its peer form.\<close>

lemma sync_answer_bounded:
  assumes "sync_fingerprints sv t c rq db = (Inr resp, db')" "rs_status resp = 200"
  shows "\<exists>since limit rows nxt more'. 0 \<le> since \<and> 1 \<le> limit \<and> limit \<le> max 1 (max_sync_limit (sv_config sv))
    \<and> sync True (cv_id c) since limit (query_text rq ''algorithm'') (query_text rq ''algorithm_version'')
        (query_text rq ''normalization_version'') db = Inr (rows, nxt, more')
    \<and> int (length rows) \<le> limit
    \<and> resp = json_response (JObj [(''fingerprints'', JList (map peer_fp rows)), (''next_since'', JInt nxt),
        (''has_more'', JBool more')]) 200"
proof -
  from assms obtain since raw where req: "''read'' \<in> set (cv_scopes c)"
    "py_int (query_or rq ''since'' ''0'') = Some since"
    "py_int (query_or rq ''limit'' (int_str (default_sync_limit (sv_config sv)))) = Some raw"
    by (auto simp: sync_fingerprints_def require_scope_def split: sum.splits option.splits if_splits)
  then have up: "su_up t 2"
    using assms(1) by (auto simp: sync_fingerprints_def require_scope_def sync_def Let_def split: if_splits)
  from sync_handler_page [OF req(1) up req(2,3) assms(1)] obtain rows nxt more' where page:
    "sync True (cv_id c) (max 0 since) (max 1 (min raw (max_sync_limit (sv_config sv))))
      (query_text rq ''algorithm'') (query_text rq ''algorithm_version'')
      (query_text rq ''normalization_version'') db = Inr (rows, nxt, more')"
    "resp = json_response (JObj [(''fingerprints'', JList (map peer_fp rows)),
        (''next_since'', JInt nxt), (''has_more'', JBool more')]) 200" by blast
  from page sync_page_length [OF page(1)] show ?thesis
    by (intro exI [of _ "max 0 since"] exI [of _ "max 1 (min raw (max_sync_limit (sv_config sv)))"]
        exI [of _ rows] exI [of _ nxt] exI [of _ more']) auto
qed

lemma sync_answer_bounded_witness:
  "\<exists>since limit rows nxt more'. limit \<le> 500
    \<and> sync True 2 since limit None None None sample_db = Inr (rows, nxt, more')
    \<and> fst (sync_fingerprints sample_service sample_surroundings (sample_view 2 [''read''])
        (sample_request None [(''limit'', ''9999'')] (BodyInvalid [])) sample_db)
      = Inr (json_response (JObj [(''fingerprints'', JList (map peer_fp rows)), (''next_since'', JInt nxt),
        (''has_more'', JBool more')]) 200)"
proof -
  let ?rq = "sample_request None [(''limit'', ''9999'')] (BodyInvalid [])"
  let ?out = "sync_fingerprints sample_service sample_surroundings (sample_view 2 [''read'']) ?rq sample_db"
  have nums: "py_int ''9999'' = Some 9999" "py_int ''0'' = Some 0"
    by (simp_all add: py_int_def strip_def lstrip_def rstrip_def is_space_def unsigned_value_def
        is_digit_def MAX_STR_DIGITS_def Let_def)
  have cfg: "max_sync_limit (sv_config sample_service) = 500"
    by (simp add: sample_service_def load_config_from_env_def int_env_unset DEFAULT_MAX_SYNC_LIMIT_def)
  have q: "query_text ?rq ''algorithm'' = None" "query_text ?rq ''algorithm_version'' = None"
    "query_text ?rq ''normalization_version'' = None" "query_or ?rq ''since'' ''0'' = ''0''"
    "query_or ?rq ''limit'' d = ''9999''" for d
    by (simp_all add: query_text_def query_or_def query_def sample_request_def str_or_none_def)
  have page: "sync True 2 0 500 None None None sample_db = Inr ([sync_columns sample_row], 1, False)"
    by (simp add: sync_def sample_db_def sample_row_def sync_where_def matches_def filter_text_ok_def
        pg_row_count_def)
  have view: "cv_id (sample_view 2 [''read'']) = 2" "''read'' \<in> set (cv_scopes (sample_view 2 [''read'']))"
    by (simp_all add: sample_view_def)
  have run: "?out = (Inr (json_response (JObj [(''fingerprints'', JList (map peer_fp [sync_columns sample_row])),
      (''next_since'', JInt 1), (''has_more'', JBool False)]) 200), sample_db)"
    using page view by (simp add: sync_fingerprints_def require_scope_granted q nums cfg)
  from sync_answer_bounded [OF run] show ?thesis using run unfolding q view(1) cfg by fastforce
qed

section \<open>Statistics\<close>

lemma sum_remdups_counts:
  "(\<Sum>v \<leftarrow> remdups ks. int (length (filter (\<lambda>x. x = v) ks))) = int (length ks)"
proof -
  have "(\<Sum>v \<leftarrow> remdups ks. int (length (filter (\<lambda>x. x = v) ks))) = (\<Sum>v \<in> set ks. int (count_list ks v))"
    by (simp add: sum_list_distinct_conv_sum_set count_list_eq_length_filter eq_commute)
  also have "\<dots> = int (length ks)" using sum_count_set [of ks "set ks"] by (simp flip: of_nat_sum)
  finally show ?thesis .
qed

lemma group_counts_sum:
  "sum_list (map snd (group_counts key db)) = int (length (filter (\<lambda>r. fp_status r = Active) (fingerprints db)))"
  using sum_remdups_counts [of "map key (filter (\<lambda>r. fp_status r = Active) (fingerprints db))"]
  by (simp add: group_counts_def Let_def comp_def filter_map length_filter_map)

text \<open>The statistics add up: the totals by status count every row once, and each of the two groupings lists every category or provenance of an active row once, with positive counts that sum to the active total.\<close>

lemma stats_add_up:
  assumes "stats reachable db = Inr st"
  shows "total_active st + total_hidden st + total_deleted st = int (length (fingerprints db))
    \<and> sum_list (map snd (by_category st)) = total_active st
    \<and> sum_list (map snd (by_provenance st)) = total_active st
    \<and> distinct (map fst (by_category st)) \<and> distinct (map fst (by_provenance st))
    \<and> (\<forall>n \<in> snd ` set (by_category st @ by_provenance st). 1 \<le> n)"
proof -
  have st: "st = \<lparr>total_active = count_status Active db, total_hidden = count_status Hidden db,
      total_deleted = count_status Deleted db, total_hits = sum_list (map fp_hit_count (fingerprints db)),
      by_category = group_counts fp_category db, by_provenance = group_counts fp_provenance db,
      active_consumers = int (length (filter cons_enabled (consumers db)))\<rparr>"
    using assms by (simp add: stats_def split: if_splits)
  have "count_status Active db + count_status Hidden db + count_status Deleted db = int (length (fingerprints db))"
  proof -
    have "length (filter (\<lambda>r. fp_status r = Active) rs) + length (filter (\<lambda>r. fp_status r = Hidden) rs)
        + length (filter (\<lambda>r. fp_status r = Deleted) rs) = length rs" for rs
    proof (induction rs)
      case (Cons r rs)
      then show ?case by (cases "fp_status r") auto
    qed simp
    then show ?thesis unfolding count_status_def by (metis of_nat_add)
  qed
  moreover have "1 \<le> n" if n: "n \<in> snd ` set (group_counts key db)" for n and key :: "fingerprint_row \<Rightarrow> string"
  proof -
    obtain r where "r \<in> set (filter (\<lambda>r. fp_status r = Active) (fingerprints db))"
      "n = int (length (filter (\<lambda>x. key x = key r) (filter (\<lambda>r. fp_status r = Active) (fingerprints db))))"
      using n by (auto simp: group_counts_def Let_def)
    moreover from this have "r \<in> set (filter (\<lambda>x. key x = key r) (filter (\<lambda>r. fp_status r = Active) (fingerprints db)))"
      by simp
    ultimately show ?thesis by (metis length_pos_if_in_set of_nat_0_less_iff int_one_le_iff_zero_less)
  qed
  moreover have "distinct (map fst (group_counts key db))" for key
    by (simp add: group_counts_def Let_def comp_def)
  ultimately show ?thesis
    unfolding st by (auto simp: group_counts_sum count_status_def)
qed

lemma stats_add_up_witness:
  "\<exists>st. stats True sample_db = Inr st \<and> sum_list (map snd (by_category st)) = 1"
proof -
  obtain st where st: "stats True sample_db = Inr st" "total_active st = 1"
    by (simp add: stats_def count_status_def sample_db_def sample_row_def)
  then show ?thesis using stats_add_up [OF st(1)] by simp
qed

end
