(* ===== verification/Schema_Migrations.thy ===== *)
theory Schema_Migrations
  imports Privacy_Migration Postgres_Runtime "HOL-Library.AList"
begin

text \<open>
  The migration side of the program: the statements of \<^verbatim>\<open>alembic/versions/0001_init.py\<close> on a model of
  the catalogue that knows names, kinds, columns and dependencies of relations, the two revisions as
  steps on a database server, and \<^verbatim>\<open>alembic/env.py\<close>, which runs them on the configured database or
  writes them as a script. Alembic and SQLAlchemy are parameters: what an engine makes of a URL, and
  the loop that applies the pending revisions; what is relied on of the loop is \<open>runs_upgrade_head\<close> and
  \<open>runs_downgrade_base\<close>.
\<close>

section \<open>The catalogue\<close>

text \<open>
  A table with its columns, the tables it references and the sequences its defaults use; an index with
  its table; a sequence. Relations share one name space.
\<close>

datatype relation =
    TableRel string "string list" "string list" "string list"
  | IndexRel string string
  | SequenceRel string

fun rel_name :: "relation \<Rightarrow> string" where
  "rel_name (TableRel n cols refs seqs) = n"
| "rel_name (IndexRel n t) = n"
| "rel_name (SequenceRel n) = n"

fun rel_references :: "relation \<Rightarrow> string list" where
  "rel_references (TableRel n cols refs seqs) = refs"
| "rel_references r = []"

fun rel_sequences :: "relation \<Rightarrow> string list" where
  "rel_sequences (TableRel n cols refs seqs) = seqs"
| "rel_sequences r = []"

text \<open>The server: its relations, the rows and sequence positions, and Alembic's version table.\<close>

record server =
  pg_catalog :: "relation list"
  pg_data :: db
  pg_versions :: "string list option"

definition find_rel :: "relation list \<Rightarrow> string \<Rightarrow> relation option" where
  "find_rel cat n = List.find (\<lambda>r. rel_name r = n) cat"

text \<open>What a name that has to be a table, or a sequence, raises.\<close>

definition table_error :: "relation list \<Rightarrow> string \<Rightarrow> exn option" where
  "table_error cat n =
     (case find_rel cat n of
        None \<Rightarrow> Some UndefinedTable
      | Some (TableRel m cols refs seqs) \<Rightarrow> None
      | Some r \<Rightarrow> Some WrongObjectType)"

definition sequence_error :: "relation list \<Rightarrow> string \<Rightarrow> exn option" where
  "sequence_error cat n =
     (case find_rel cat n of
        None \<Rightarrow> Some UndefinedTable
      | Some (SequenceRel m) \<Rightarrow> None
      | Some r \<Rightarrow> Some WrongObjectType)"

fun first_error :: "('a \<Rightarrow> exn option) \<Rightarrow> 'a list \<Rightarrow> exn option" where
  "first_error f [] = None"
| "first_error f (x # xs) = (case f x of Some e \<Rightarrow> Some e | None \<Rightarrow> first_error f xs)"

text \<open>A relation that is created holds no rows, and a sequence starts at one.\<close>

definition fresh_relation :: "string \<Rightarrow> db \<Rightarrow> db" where
  "fresh_relation n d =
     (if n = ''consumers'' then d\<lparr>consumers := [], consumers_id_seq := 1\<rparr>
      else if n = ''fingerprints'' then d\<lparr>fingerprints := [], fingerprints_id_seq := 1\<rparr>
      else if n = ''fingerprint_hits'' then d\<lparr>fingerprint_hits := [], hits_id_seq := 1\<rparr>
      else if n = ''fingerprint_flags'' then d\<lparr>fingerprint_flags := [], flags_id_seq := 1\<rparr>
      else if n = ''fingerprints_sync_seq'' then d\<lparr>fingerprints_sync_seq := 1\<rparr>
      else d)"

section \<open>Statements\<close>

text \<open>
  The forms of DDL the migrations use, all creations \<^verbatim>\<open>IF NOT EXISTS\<close> and all drops \<^verbatim>\<open>IF EXISTS\<close>
  (without \<^verbatim>\<open>CASCADE\<close>).
\<close>

datatype statement =
    CREATE_TABLE string "string list" "string list" "string list"
  | CREATE_SEQUENCE string
  | CREATE_INDEX bool string string "string list"
  | DROP_TABLE string
  | DROP_SEQUENCE string
  | LOCK_TABLE "string list"

text \<open>The keys a unique index of the schema would hold.\<close>

definition index_keys :: "string \<Rightarrow> string list \<Rightarrow> db \<Rightarrow> int list" where
  "index_keys t cols d =
     (if t = ''fingerprints'' \<and> cols = [''sync_seq''] then map fp_sync_seq (fingerprints d) else [])"

definition add_relation :: "relation \<Rightarrow> server \<Rightarrow> server" where
  "add_relation r srv =
     srv\<lparr>pg_catalog := pg_catalog srv @ [r], pg_data := fresh_relation (rel_name r) (pg_data srv)\<rparr>"

fun of_table :: "string \<Rightarrow> relation \<Rightarrow> bool" where
  "of_table t (TableRel n cols refs seqs) \<longleftrightarrow> n = t"
| "of_table t (IndexRel n u) \<longleftrightarrow> u = t"
| "of_table t (SequenceRel n) \<longleftrightarrow> False"

definition drop_relations :: "(relation \<Rightarrow> bool) \<Rightarrow> string \<Rightarrow> server \<Rightarrow> server" where
  "drop_relations gone n srv =
     srv\<lparr>pg_catalog := filter (\<lambda>r. \<not> gone r) (pg_catalog srv), pg_data := fresh_relation n (pg_data srv)\<rparr>"

fun execute :: "statement \<Rightarrow> server \<Rightarrow> unit result \<times> server" where
  "execute (CREATE_TABLE n cols refs seqs) srv =
     (if find_rel (pg_catalog srv) n \<noteq> None then (Inr (), srv)
      else (case first_error (table_error (pg_catalog srv)) refs of
          Some e \<Rightarrow> (Inl e, srv)
        | None \<Rightarrow>
            (case first_error (sequence_error (pg_catalog srv)) seqs of
               Some e \<Rightarrow> (Inl e, srv)
             | None \<Rightarrow> (Inr (), add_relation (TableRel n cols refs seqs) srv))))"
| "execute (CREATE_SEQUENCE n) srv =
     (if find_rel (pg_catalog srv) n \<noteq> None then (Inr (), srv)
      else (Inr (), add_relation (SequenceRel n) srv))"
| "execute (CREATE_INDEX is_unique n t cols) srv =
     (case find_rel (pg_catalog srv) t of
        Some (TableRel m tcols refs seqs) \<Rightarrow>
          if find_rel (pg_catalog srv) n \<noteq> None then (Inr (), srv)
          else if \<not> set cols \<subseteq> set tcols then (Inl UndefinedColumn, srv)
          else if is_unique \<and> \<not> distinct (index_keys t cols (pg_data srv)) then (Inl UniqueViolation, srv)
          else (Inr (), add_relation (IndexRel n t) srv)
      | Some r \<Rightarrow> (Inl WrongObjectType, srv)
      | None \<Rightarrow> (Inl UndefinedTable, srv))"
| "execute (DROP_TABLE n) srv =
     (case find_rel (pg_catalog srv) n of
        None \<Rightarrow> (Inr (), srv)
      | Some (TableRel m cols refs seqs) \<Rightarrow>
          if list_ex (\<lambda>r. rel_name r \<noteq> n \<and> n \<in> set (rel_references r)) (pg_catalog srv)
          then (Inl DependentObjectsStillExist, srv)
          else (Inr (), drop_relations (of_table n) n srv)
      | Some r \<Rightarrow> (Inl WrongObjectType, srv))"
| "execute (DROP_SEQUENCE n) srv =
     (case find_rel (pg_catalog srv) n of
        None \<Rightarrow> (Inr (), srv)
      | Some (SequenceRel m) \<Rightarrow>
          if list_ex (\<lambda>r. n \<in> set (rel_sequences r)) (pg_catalog srv)
          then (Inl DependentObjectsStillExist, srv)
          else (Inr (), drop_relations (\<lambda>r. r = SequenceRel n) n srv)
      | Some r \<Rightarrow> (Inl WrongObjectType, srv))"
| "execute (LOCK_TABLE ts) srv =
     (case first_error (table_error (pg_catalog srv)) ts of
        Some e \<Rightarrow> (Inl e, srv) | None \<Rightarrow> (Inr (), srv))"

fun execute_all :: "statement list \<Rightarrow> server \<Rightarrow> unit result \<times> server" where
  "execute_all [] srv = (Inr (), srv)"
| "execute_all (st # sts) srv =
     (case execute st srv of
        (Inl e, srv1) \<Rightarrow> (Inl e, srv1)
      | (Inr u, srv1) \<Rightarrow> execute_all sts srv1)"

section \<open>The first revision\<close>

definition CONSUMERS_COLUMNS :: "string list" where
  "CONSUMERS_COLUMNS = [''id'', ''name'', ''api_key_hash'', ''scopes'', ''enabled'', ''created_at_ms'',
     ''last_seen_at_ms'']"

definition FINGERPRINTS_COLUMNS :: "string list" where
  "FINGERPRINTS_COLUMNS = [''id'', ''sync_seq'', ''phash_hex'', ''algorithm'', ''algorithm_version'',
     ''normalization_version'', ''category'', ''action'', ''consumer_id'', ''source_guild_id'', ''reason'',
     ''source_url'', ''added_at_ms'', ''updated_at_ms'', ''hit_count'', ''last_hit_at_ms'', ''auto_added'',
     ''provenance'', ''status'', ''flag_count'']"

definition HITS_COLUMNS :: "string list" where
  "HITS_COLUMNS = [''id'', ''fingerprint_id'', ''consumer_id'', ''guild_id'', ''distance'', ''hit_at_ms'']"

definition FLAGS_COLUMNS :: "string list" where
  "FLAGS_COLUMNS = [''id'', ''fingerprint_id'', ''consumer_id'', ''reason'', ''created_at_ms'']"

definition init_upgrade :: "statement list" where
  "init_upgrade =
     [CREATE_TABLE ''consumers'' CONSUMERS_COLUMNS [] [],
      CREATE_SEQUENCE ''fingerprints_sync_seq'',
      CREATE_TABLE ''fingerprints'' FINGERPRINTS_COLUMNS [''consumers''] [''fingerprints_sync_seq''],
      CREATE_INDEX True ''idx_fingerprints_sync_seq'' ''fingerprints'' [''sync_seq''],
      CREATE_INDEX False ''idx_fingerprints_phash_hex'' ''fingerprints'' [''phash_hex''],
      CREATE_INDEX False ''idx_fingerprints_category'' ''fingerprints'' [''category''],
      CREATE_INDEX False ''idx_fingerprints_compat'' ''fingerprints''
        [''algorithm'', ''algorithm_version'', ''normalization_version''],
      CREATE_INDEX False ''idx_fingerprints_consumer_id'' ''fingerprints'' [''consumer_id''],
      CREATE_TABLE ''fingerprint_hits'' HITS_COLUMNS [''fingerprints'', ''consumers''] [],
      CREATE_INDEX False ''idx_fingerprint_hits_fingerprint_id'' ''fingerprint_hits'' [''fingerprint_id''],
      CREATE_TABLE ''fingerprint_flags'' FLAGS_COLUMNS [''fingerprints'', ''consumers''] [],
      CREATE_INDEX False ''idx_fingerprint_flags_fingerprint_id'' ''fingerprint_flags'' [''fingerprint_id'']]"

definition init_downgrade :: "statement list" where
  "init_downgrade =
     [DROP_TABLE ''fingerprint_flags'', DROP_TABLE ''fingerprint_hits'', DROP_TABLE ''fingerprints'',
      DROP_SEQUENCE ''fingerprints_sync_seq'', DROP_TABLE ''consumers'']"

text \<open>What the first revision creates.\<close>

definition SCHEMA :: "relation list" where
  "SCHEMA =
     [TableRel ''consumers'' CONSUMERS_COLUMNS [] [],
      SequenceRel ''fingerprints_sync_seq'',
      TableRel ''fingerprints'' FINGERPRINTS_COLUMNS [''consumers''] [''fingerprints_sync_seq''],
      IndexRel ''idx_fingerprints_sync_seq'' ''fingerprints'',
      IndexRel ''idx_fingerprints_phash_hex'' ''fingerprints'',
      IndexRel ''idx_fingerprints_category'' ''fingerprints'',
      IndexRel ''idx_fingerprints_compat'' ''fingerprints'',
      IndexRel ''idx_fingerprints_consumer_id'' ''fingerprints'',
      TableRel ''fingerprint_hits'' HITS_COLUMNS [''fingerprints'', ''consumers''] [],
      IndexRel ''idx_fingerprint_hits_fingerprint_id'' ''fingerprint_hits'',
      TableRel ''fingerprint_flags'' FLAGS_COLUMNS [''fingerprints'', ''consumers''] [],
      IndexRel ''idx_fingerprint_flags_fingerprint_id'' ''fingerprint_flags'']"

section \<open>The first revision, forth and back\<close>

text \<open>Other relations of the database that have nothing to do with the program's.\<close>

definition SCHEMA_NAMES :: "string list" where
  "SCHEMA_NAMES = map rel_name SCHEMA"

fun foreign :: "relation \<Rightarrow> bool" where
  "foreign (TableRel n cols refs seqs) \<longleftrightarrow> set (n # refs @ seqs) \<inter> set SCHEMA_NAMES = {}"
| "foreign (IndexRel n t) \<longleftrightarrow> n \<notin> set SCHEMA_NAMES \<and> t \<notin> set SCHEMA_NAMES"
| "foreign (SequenceRel n) \<longleftrightarrow> n \<notin> set SCHEMA_NAMES"

lemma find_rel_simps [simp]:
  "find_rel [] n = None"
  "find_rel (r # cat) n = (if rel_name r = n then Some r else find_rel cat n)"
  by (simp_all add: find_rel_def)

lemma find_rel_foreign:
  "list_all foreign cat \<Longrightarrow> n \<in> set SCHEMA_NAMES \<Longrightarrow> find_rel (cat @ rs) n = find_rel rs n"
proof (induction cat)
  case (Cons r cat)
  have "rel_name r \<noteq> n" using Cons.prems by (cases r) auto
  then show ?case using Cons by simp
qed simp

lemma foreign_kept:
  assumes "list_all foreign cat" "n \<in> set SCHEMA_NAMES"
  shows "filter (\<lambda>r. \<not> of_table n r) cat = cat" "filter (\<lambda>r. r \<noteq> SequenceRel n) cat = cat"
    "\<not> list_ex (\<lambda>r. rel_name r \<noteq> n \<and> n \<in> set (rel_references r)) cat"
    "\<not> list_ex (\<lambda>r. n \<in> set (rel_sequences r)) cat"
proof -
  have r: "\<not> of_table n r \<and> r \<noteq> SequenceRel n \<and> n \<notin> set (rel_references r) \<and> n \<notin> set (rel_sequences r)"
    if "r \<in> set cat" for r
    using assms that by (cases r) (fastforce simp: list_all_iff)+
  show "filter (\<lambda>r. \<not> of_table n r) cat = cat" "filter (\<lambda>r. r \<noteq> SequenceRel n) cat = cat"
    "\<not> list_ex (\<lambda>r. rel_name r \<noteq> n \<and> n \<in> set (rel_references r)) cat"
    "\<not> list_ex (\<lambda>r. n \<in> set (rel_sequences r)) cat"
    using r by (auto simp: list_ex_iff)
qed

lemmas schema_defs = SCHEMA_def init_upgrade_def init_downgrade_def CONSUMERS_COLUMNS_def
  FINGERPRINTS_COLUMNS_def HITS_COLUMNS_def FLAGS_COLUMNS_def

lemma schema_names: "set SCHEMA_NAMES = {''consumers'', ''fingerprints_sync_seq'', ''fingerprints'',
   ''idx_fingerprints_sync_seq'', ''idx_fingerprints_phash_hex'', ''idx_fingerprints_category'',
   ''idx_fingerprints_compat'', ''idx_fingerprints_consumer_id'', ''fingerprint_hits'',
   ''idx_fingerprint_hits_fingerprint_id'', ''fingerprint_flags'', ''idx_fingerprint_flags_fingerprint_id''}"
  by (simp add: SCHEMA_NAMES_def SCHEMA_def)

lemma init_up:
  assumes "list_all foreign (pg_catalog srv)"
  shows "execute_all init_upgrade srv = (Inr (), srv\<lparr>pg_catalog := pg_catalog srv @ SCHEMA, pg_data := empty_db\<rparr>)"
proof -
  note find = find_rel_foreign [OF assms]
  have "find_rel (pg_catalog srv) n = None" if "n \<in> set SCHEMA_NAMES" for n
    using find [OF that, of "[]"] by simp
  then show ?thesis
    by (simp add: init_upgrade_def schema_names find table_error_def sequence_error_def add_relation_def
        fresh_relation_def SCHEMA_def index_keys_def FINGERPRINTS_COLUMNS_def HITS_COLUMNS_def FLAGS_COLUMNS_def
        empty_db_def)
qed

text \<open>On a database that has the schema the creations change nothing, rows included.\<close>

lemma init_up_again:
  assumes "list_all foreign cat" "pg_catalog srv = cat @ SCHEMA"
  shows "execute_all init_upgrade srv = (Inr (), srv)"
  by (simp add: init_upgrade_def assms(2) schema_names find_rel_foreign [OF assms(1)] SCHEMA_def)

lemma init_down:
  assumes "list_all foreign cat" "pg_catalog srv = cat @ SCHEMA"
  shows "execute_all init_downgrade srv = (Inr (), srv\<lparr>pg_catalog := cat, pg_data := empty_db\<rparr>)"
  by (simp add: init_downgrade_def assms(2) schema_names find_rel_foreign [OF assms(1)] SCHEMA_def
      foreign_kept [OF assms(1)] drop_relations_def fresh_relation_def empty_db_def)

lemma lock_schema:
  assumes "list_all foreign cat" "pg_catalog srv = cat @ SCHEMA"
  shows "execute (LOCK_TABLE [''fingerprints'', ''fingerprint_hits'', ''fingerprint_flags'']) srv = (Inr (), srv)"
  by (simp add: assms(2) table_error_def schema_names find_rel_foreign [OF assms(1)] SCHEMA_def)

section \<open>The revisions as steps\<close>

definition INIT_REVISION :: "string \<times> string option" where
  "INIT_REVISION = (''0001_init'', None)"

definition PRIVACY_REVISION :: "string \<times> string option" where
  "PRIVACY_REVISION = (''0002_privacy_hardening'', Some ''0001_init'')"

definition REVISIONS :: "(string \<times> string option) list" where
  "REVISIONS = [INIT_REVISION, PRIVACY_REVISION]"

text \<open>
  \<^verbatim>\<open>op\<close> during a migration: on a connection statements run; when a script is written they are
  appended to it, and \<^verbatim>\<open>op.get_bind()\<close> is \<^verbatim>\<open>None\<close>, so that \<^verbatim>\<open>bind.execute\<close> in \<^verbatim>\<open>_rewrite_column\<close> raises.
\<close>

definition privacy_step ::
  "(db \<Rightarrow> unit result \<times> db) \<Rightarrow> server \<Rightarrow> unit result \<times> server"
where
  "privacy_step rewrite srv =
     (case execute (LOCK_TABLE [''fingerprints'', ''fingerprint_hits'', ''fingerprint_flags'']) srv of
        (Inl e, srv1) \<Rightarrow> (Inl e, srv1)
      | (Inr u, srv1) \<Rightarrow>
          (case rewrite (pg_data srv1) of (r, d) \<Rightarrow> (r, srv1\<lparr>pg_data := d\<rparr>)))"

definition revision_upgrade ::
  "crypto \<Rightarrow> (nat \<Rightarrow> nat \<Rightarrow> bytes) \<Rightarrow> string \<Rightarrow> server \<Rightarrow> unit result \<times> server"
where
  "revision_upgrade K nonce r srv =
     (if r = fst INIT_REVISION then execute_all init_upgrade srv
      else if r = fst PRIVACY_REVISION then privacy_step (privacy_upgrade K nonce) srv
      else (Inl KeyError, srv))"

definition revision_downgrade ::
  "crypto \<Rightarrow> (nat \<Rightarrow> nat \<Rightarrow> bytes) \<Rightarrow> string \<Rightarrow> server \<Rightarrow> unit result \<times> server"
where
  "revision_downgrade K nonce r srv =
     (if r = fst INIT_REVISION then execute_all init_downgrade srv
      else if r = fst PRIVACY_REVISION then privacy_step (privacy_downgrade K nonce) srv
      else (Inl KeyError, srv))"

text \<open>The same upgrades when a script is written: what is emitted, and how the attempt ends.\<close>

definition revision_script :: "string \<Rightarrow> statement list \<Rightarrow> unit result \<times> statement list" where
  "revision_script r out =
     (if r = fst INIT_REVISION then (Inr (), out @ init_upgrade)
      else if r = fst PRIVACY_REVISION
      then (Inl AttributeError,
            out @ [LOCK_TABLE [''fingerprints'', ''fingerprint_hits'', ''fingerprint_flags'']])
      else (Inl KeyError, out))"

section \<open>What is relied on of Alembic\<close>

text \<open>
  The scripts of a directory with their \<^verbatim>\<open>down_revision\<close>, in a line from the base; the heads are those
  that no script revises.
\<close>

fun linear_from :: "string option \<Rightarrow> (string \<times> string option) list \<Rightarrow> bool" where
  "linear_from prev [] \<longleftrightarrow> True"
| "linear_from prev ((r, d) # rs) \<longleftrightarrow> d = prev \<and> linear_from (Some r) rs"

definition heads :: "(string \<times> string option) list \<Rightarrow> string list" where
  "heads scripts = filter (\<lambda>r. Some r \<notin> set (map snd scripts)) (map fst scripts)"

text \<open>
  The loop of \<^verbatim>\<open>context.run_migrations()\<close>: each step in order, the state marked after each, and the
  first exception ends it.
\<close>

fun run_steps ::
  "('r \<Rightarrow> 's \<Rightarrow> unit result \<times> 's) \<Rightarrow> ('r \<Rightarrow> 's \<Rightarrow> 's) \<Rightarrow> 'r list \<Rightarrow> 's \<Rightarrow> unit result \<times> 's"
where
  "run_steps step mark [] s = (Inr (), s)"
| "run_steps step mark (r # rs) s =
     (case step r s of
        (Inl e, s1) \<Rightarrow> (Inl e, s1)
      | (Inr u, s1) \<Rightarrow> run_steps step mark rs (mark r s1))"

definition ensure_version_table :: "server \<Rightarrow> server" where
  "ensure_version_table srv = (if pg_versions srv = None then srv\<lparr>pg_versions := Some []\<rparr> else srv)"

definition mark_upgraded :: "string \<Rightarrow> server \<Rightarrow> server" where
  "mark_upgraded r srv = srv\<lparr>pg_versions := Some [r]\<rparr>"

definition mark_downgraded :: "(string \<times> string option) list \<Rightarrow> string \<Rightarrow> server \<Rightarrow> server" where
  "mark_downgraded scripts r srv =
     srv\<lparr>pg_versions := Some (case map_of scripts r of Some (Some d) \<Rightarrow> [d] | _ \<Rightarrow> [])\<rparr>"

text \<open>The revisions after the one the database is at, and those up to it, newest first.\<close>

definition pending :: "(string \<times> string option) list \<Rightarrow> string list option \<Rightarrow> string list" where
  "pending scripts versions =
     (case versions of
        Some (v # vs) \<Rightarrow> tl (dropWhile (\<lambda>r. r \<noteq> v) (map fst scripts))
      | _ \<Rightarrow> map fst scripts)"

definition applied :: "(string \<times> string option) list \<Rightarrow> string list option \<Rightarrow> string list" where
  "applied scripts versions =
     (case versions of
        Some (v # vs) \<Rightarrow> v # rev (takeWhile (\<lambda>r. r \<noteq> v) (map fst scripts))
      | _ \<Rightarrow> [])"

definition known_version :: "(string \<times> string option) list \<Rightarrow> server \<Rightarrow> bool" where
  "known_version scripts srv \<longleftrightarrow>
     (case pg_versions srv of None \<Rightarrow> True | Some vs \<Rightarrow> length vs \<le> 1 \<and> set vs \<subseteq> fst ` set scripts)"

type_synonym migration_loop =
  "(string \<times> string option) list \<Rightarrow> (string \<Rightarrow> server \<Rightarrow> unit result \<times> server) \<Rightarrow> server
   \<Rightarrow> unit result \<times> server"

definition runs_upgrade_head :: "migration_loop \<Rightarrow> bool" where
  "runs_upgrade_head run \<longleftrightarrow> (\<forall>scripts step srv. linear_from None scripts \<longrightarrow> known_version scripts srv \<longrightarrow>
     run scripts step srv
       = run_steps step mark_upgraded (pending scripts (pg_versions srv)) (ensure_version_table srv))"

definition runs_downgrade_base :: "migration_loop \<Rightarrow> bool" where
  "runs_downgrade_base run \<longleftrightarrow> (\<forall>scripts step srv. linear_from None scripts \<longrightarrow> known_version scripts srv \<longrightarrow>
     run scripts step srv
       = run_steps step (mark_downgraded scripts) (applied scripts (pg_versions srv)) (ensure_version_table srv))"

section \<open>alembic/env.py\<close>

text \<open>
  \<open>ini\<close> is the main section of \<^verbatim>\<open>alembic.ini\<close>, \<open>locate\<close> which database an engine reaches for a URL (or what
  making it raises), \<open>world\<close> the databases that answer, \<open>migrate\<close> the command's loop on the program's
  revisions. The transaction around it rolls back when it raises.
\<close>

definition run_migrations_online ::
  "environ \<Rightarrow> (string \<times> string) list \<Rightarrow> (string \<Rightarrow> string result) \<Rightarrow> (server \<Rightarrow> unit result \<times> server)
   \<Rightarrow> (string \<rightharpoonup> server) \<Rightarrow> unit result \<times> (string \<rightharpoonup> server)"
where
  "run_migrations_online env ini locate migrate world =
     (let url = migration_database_url env (map_of ini ''sqlalchemy.url'');
          section = AList.update ''sqlalchemy.url'' url ini
      in
        (case locate (the (map_of section ''sqlalchemy.url'')) of
           Inl e \<Rightarrow> (Inl e, world)
         | Inr place \<Rightarrow>
             (case world place of
                None \<Rightarrow> (Inl OperationalError, world)
              | Some srv \<Rightarrow>
                  (case migrate srv of
                     (Inl e, srv') \<Rightarrow> (Inl e, world)
                   | (Inr u, srv') \<Rightarrow> (Inr (), world(place \<mapsto> srv'))))))"

text \<open>Offline nothing is connected; \<open>write\<close> is the command's loop on the script.\<close>

definition run_migrations_offline ::
  "(statement list \<Rightarrow> unit result \<times> statement list) \<Rightarrow> unit result \<times> statement list"
where
  "run_migrations_offline write = write []"

end
