(* ===== verification/Migration_Properties.thy ===== *)
theory Migration_Properties
  imports Schema_Migrations Http_App Samples
begin

text \<open>
  The properties of migrating: what \<^verbatim>\<open>alembic upgrade head\<close> makes of a new, a legacy and a current
  database and that the service then starts on it, the way back to nothing, and the script mode.
\<close>

section \<open>The database of a URL\<close>

text \<open>The schema check's queries on the database that its data source reaches.\<close>

definition answers_at ::
  "(string \<Rightarrow> string result) \<Rightarrow> (string \<rightharpoonup> server) \<Rightarrow> string \<Rightarrow> string \<Rightarrow> schema_answers result"
where
  "answers_at locate world version d =
     (case locate d of
        Inl e \<Rightarrow> Inl e
      | Inr place \<Rightarrow>
          (case world place of
             None \<Rightarrow> Inl OperationalError
           | Some srv \<Rightarrow>
               Inr \<lparr>server_version = Some version,
                    version_table = map_option (\<lambda>_. ''alembic_version'') (pg_versions srv),
                    revision_rows = (case pg_versions srv of None \<Rightarrow> [] | Some vs \<Rightarrow> vs)\<rparr>))"

text \<open>
  A usual URL, and that the driver's name in a URL of SQLAlchemy does not change which database is
  meant.
\<close>

definition plain_url :: "string \<Rightarrow> bool" where
  "plain_url rest \<longleftrightarrow> normalize_psycopg_dsn (''postgresql://'' @ rest) = ''postgresql://'' @ rest"

definition driver_neutral :: "(string \<Rightarrow> string result) \<Rightarrow> bool" where
  "driver_neutral locate \<longleftrightarrow>
     (\<forall>rest. locate (''postgresql+psycopg://'' @ rest) = locate (''postgresql://'' @ rest))"

lemma answers_at_place:
  assumes "locate d = Inr place" "world place = Some srv"
  shows "answers_at locate world version d = Inr \<lparr>server_version = Some version,
    version_table = map_option (\<lambda>_. ''alembic_version'') (pg_versions srv),
    revision_rows = (case pg_versions srv of None \<Rightarrow> [] | Some vs \<Rightarrow> vs)\<rparr>"
  using assms by (simp add: answers_at_def)

lemma service_settings:
  assumes "env ''FINGERPRINTHUB_DATABASE_URL'' = Some (''postgresql://'' @ rest)" "plain_url rest"
  shows "get_postgres_settings env (postgres_config cfg) =
    Inr \<lparr>dsn = ''postgresql://'' @ rest, pool_min_size = 1, pool_max_size = 10, connect_timeout_seconds = 5\<rparr>"
  using assms
  by (simp add: get_postgres_settings_def get_database_url_def postgres_config_def mapping_at_def
      DEFAULT_DATABASE_URL_ENV_def DEFAULT_POOL_MIN_SIZE_def DEFAULT_POOL_MAX_SIZE_def
      DEFAULT_CONNECT_TIMEOUT_SECONDS_def plain_url_def)

lemma migration_url:
  assumes "env ''FINGERPRINTHUB_DATABASE_URL'' = Some (''postgresql://'' @ rest)"
  shows "migration_database_url env ini = ''postgresql+psycopg://'' @ rest"
  using assms replace_first_prefix [of "''postgresql://''" "''postgresql+psycopg://''" rest]
    startswith_append [of "''postgresql://''" rest]
  by (simp add: migration_database_url_def del: append_Cons replace_first.simps)

lemma online_at:
  assumes "env ''FINGERPRINTHUB_DATABASE_URL'' = Some (''postgresql://'' @ rest)" "driver_neutral locate"
    and "locate (''postgresql://'' @ rest) = Inr place" "world place = Some srv"
  shows "run_migrations_online env ini locate migrate world =
    (case migrate srv of (Inl e, srv') \<Rightarrow> (Inl e, world) | (Inr u, srv') \<Rightarrow> (Inr (), world(place \<mapsto> srv')))"
  using assms
  by (simp add: run_migrations_online_def migration_url driver_neutral_def update_conv
      del: append_Cons append_Nil)

section \<open>Upgrading\<close>

text \<open>Where a database can be: nothing of the program in it, at the first revision, at the second.\<close>

definition at_base :: "server \<Rightarrow> bool" where
  "at_base srv \<longleftrightarrow> pg_versions srv \<in> {None, Some []} \<and> list_all foreign (pg_catalog srv)"

definition at_init :: "server \<Rightarrow> bool" where
  "at_init srv \<longleftrightarrow> pg_versions srv = Some [''0001_init'']
     \<and> (\<exists>cat. list_all foreign cat \<and> pg_catalog srv = cat @ SCHEMA)"

definition at_head :: "server \<Rightarrow> bool" where
  "at_head srv \<longleftrightarrow> pg_versions srv = Some [''0002_privacy_hardening'']
     \<and> (\<exists>cat. list_all foreign cat \<and> pg_catalog srv = cat @ SCHEMA)"

lemma revisions_linear: "linear_from None REVISIONS"
  by (simp add: REVISIONS_def INIT_REVISION_def PRIVACY_REVISION_def)

lemma heads_revisions: "heads REVISIONS = [''0002_privacy_hardening'']"
  by (simp add: heads_def REVISIONS_def INIT_REVISION_def PRIVACY_REVISION_def)

lemma upgrade_known:
  assumes "runs_upgrade_head run" "at_base srv \<or> at_init srv \<or> at_head srv"
  shows "run REVISIONS step srv
    = run_steps step mark_upgraded (pending REVISIONS (pg_versions srv)) (ensure_version_table srv)"
proof -
  have "known_version REVISIONS srv"
    using assms(2) by (auto simp: known_version_def at_base_def at_init_def at_head_def REVISIONS_def
        INIT_REVISION_def PRIVACY_REVISION_def)
  then show ?thesis using assms(1) revisions_linear by (simp add: runs_upgrade_head_def)
qed

lemma revision_simps [simp]:
  "revision_upgrade K nonce ''0001_init'' srv = execute_all init_upgrade srv"
  "revision_upgrade K nonce ''0002_privacy_hardening'' srv = privacy_step (privacy_upgrade K nonce) srv"
  "revision_downgrade K nonce ''0001_init'' srv = execute_all init_downgrade srv"
  "revision_downgrade K nonce ''0002_privacy_hardening'' srv = privacy_step (privacy_downgrade K nonce) srv"
  by (simp_all add: revision_upgrade_def revision_downgrade_def INIT_REVISION_def PRIVACY_REVISION_def)

lemma privacy_step_runs:
  assumes "list_all foreign cat" "pg_catalog srv = cat @ SCHEMA"
  shows "privacy_step rewrite srv = (case rewrite (pg_data srv) of (r, d) \<Rightarrow> (r, srv\<lparr>pg_data := d\<rparr>))"
  using lock_schema [OF assms] by (simp add: privacy_step_def)

lemma privacy_upgrade_empty: "privacy_upgrade K nonce empty_db = (Inr (), empty_db)"
  by (simp add: privacy_upgrade_def rewrite_all_def rewrite_fps_def rewrite_hits_def rewrite_flags_def
      empty_db_def)

lemma upgrade_from_base:
  assumes "runs_upgrade_head run" "at_base srv"
  shows "run REVISIONS (revision_upgrade K nonce) srv = (Inr (), srv\<lparr>pg_catalog := pg_catalog srv @ SCHEMA,
     pg_data := empty_db, pg_versions := Some [''0002_privacy_hardening'']\<rparr>)"
proof -
  have f: "list_all foreign (pg_catalog srv)" using assms(2) by (simp add: at_base_def)
  have p: "pending REVISIONS (pg_versions srv) = [''0001_init'', ''0002_privacy_hardening'']"
    using assms(2) by (auto simp: at_base_def pending_def REVISIONS_def INIT_REVISION_def PRIVACY_REVISION_def)
  let ?s = "ensure_version_table srv"
  have "list_all foreign (pg_catalog ?s)" using f by (simp add: ensure_version_table_def)
  note up = init_up [OF this]
  let ?s1 = "mark_upgraded ''0001_init'' (?s\<lparr>pg_catalog := pg_catalog ?s @ SCHEMA, pg_data := empty_db\<rparr>)"
  have "privacy_step (privacy_upgrade K nonce) ?s1 = (Inr (), ?s1)"
    using f by (subst privacy_step_runs [of "pg_catalog srv"])
      (simp_all add: ensure_version_table_def mark_upgraded_def privacy_upgrade_empty)
  then show ?thesis
    using assms by (simp add: upgrade_known p up) (simp add: mark_upgraded_def ensure_version_table_def)
qed

lemma upgrade_from_init:
  assumes "runs_upgrade_head run" "at_init srv" "privacy_upgrade K nonce (pg_data srv) = (Inr (), d)"
  shows "run REVISIONS (revision_upgrade K nonce) srv
    = (Inr (), srv\<lparr>pg_data := d, pg_versions := Some [''0002_privacy_hardening'']\<rparr>)"
proof -
  obtain cat where cat: "list_all foreign cat" "pg_catalog srv = cat @ SCHEMA"
    and v: "pg_versions srv = Some [''0001_init'']"
    using assms(2) by (auto simp: at_init_def)
  have p: "pending REVISIONS (Some [''0001_init'']) = [''0002_privacy_hardening'']"
    by (simp add: pending_def REVISIONS_def INIT_REVISION_def PRIVACY_REVISION_def)
  show ?thesis
    using assms(1,2) privacy_step_runs [OF cat] assms(3)
    by (simp add: upgrade_known p v ensure_version_table_def mark_upgraded_def)
qed

lemma upgrade_at_head:
  assumes "runs_upgrade_head run" "at_head srv"
  shows "run REVISIONS step srv = (Inr (), srv)"
proof -
  have v: "pg_versions srv = Some [''0002_privacy_hardening'']" using assms(2) by (simp add: at_head_def)
  have p: "pending REVISIONS (Some [''0002_privacy_hardening'']) = []"
    by (simp add: pending_def REVISIONS_def INIT_REVISION_def PRIVACY_REVISION_def)
  show ?thesis using assms by (simp add: upgrade_known p v ensure_version_table_def)
qed

text \<open>What the upgrade leaves of the rows: a new database has none, legacy rows are encrypted, a current database is not touched.\<close>

definition upgraded :: "crypto \<Rightarrow> server \<Rightarrow> server \<Rightarrow> bool" where
  "upgraded K srv srv' \<longleftrightarrow> pg_versions srv' = Some (heads REVISIONS)
     \<and> (if at_base srv then pg_catalog srv' = pg_catalog srv @ SCHEMA \<and> pg_data srv' = empty_db
        else if at_init srv then pg_catalog srv' = pg_catalog srv \<and> migrated K (pg_data srv) (pg_data srv')
          \<and> encrypted_at_rest (pg_data srv')
        else srv' = srv)"

lemma upgrade_head:
  assumes "runs_upgrade_head run"
    and "at_base srv \<or> at_head srv \<or> at_init srv \<and> usable K \<and> (\<forall>k i. length (nonce k i) = NONCE_BYTES)
      \<and> all_legacy K (pg_data srv)"
  obtains srv' where "run REVISIONS (revision_upgrade K nonce) srv = (Inr (), srv')" "upgraded K srv srv'"
proof -
  note distinct_cases = at_base_def at_init_def at_head_def
  from assms(2) consider (base) "at_base srv" | (head) "at_head srv" "\<not> at_base srv" "\<not> at_init srv"
    | (init) "at_init srv" "\<not> at_base srv" "usable K" "\<forall>k i. length (nonce k i) = NONCE_BYTES"
        "all_legacy K (pg_data srv)"
    by (auto simp: distinct_cases)
  then show ?thesis
  proof cases
    case base
    show ?thesis
      by (rule that [OF upgrade_from_base [OF assms(1) base]]) (simp add: upgraded_def base heads_revisions)
  next
    case head
    show ?thesis
      by (rule that [OF upgrade_at_head [OF assms(1) head(1)]])
        (use head in \<open>simp add: upgraded_def heads_revisions at_head_def\<close>)
  next
    case init
    obtain d where d: "privacy_upgrade K nonce (pg_data srv) = (Inr (), d)" "migrated K (pg_data srv) d"
      by (rule upgrade_migrates [OF init(3-5)])
    show ?thesis
      by (rule that [OF upgrade_from_init [OF assms(1) init(1) d(1)]])
        (use init(1,2) d(2) migrated_back(3) [OF d(2)] in \<open>simp add: upgraded_def heads_revisions\<close>)
  qed
qed

text \<open>C32: migrating and starting: with the database URL and an acceptable log level in the environment, running the migrations to the head goes to the database the service will use and to no other; whether that database is new, holds legacy plaintexts or is current, it ends at the head revision with the program's relations beside the foreign ones, legacy values encrypted and reversibly so, and the service starts on it with one pool, which on a database at any other revision it refuses.\<close>

theorem upgrade_then_start:
  assumes "env ''FINGERPRINTHUB_DATABASE_URL'' = Some (''postgresql://'' @ rest)" "plain_url rest"
    and "setup_logging env = Inr level" and "driver_neutral locate"
    and "locate (''postgresql://'' @ rest) = Inr place" "world place = Some srv"
    and "runs_upgrade_head run"
    and "at_base srv \<or> at_head srv \<or> at_init srv \<and> usable K \<and> (\<forall>k i. length (nonce k i) = NONCE_BYTES)
      \<and> all_legacy K (pg_data srv)"
  shows "\<exists>srv'. run_migrations_online env ini locate (run REVISIONS (revision_upgrade K nonce)) world
      = (Inr (), world(place \<mapsto> srv'))
    \<and> upgraded K srv srv'
    \<and> (\<exists>cfg pool s. create_app_from_environment (\<lambda>_. None) env (heads REVISIONS)
          (answers_at locate (world(place \<mapsto> srv')) version (''postgresql://'' @ rest)) fresh_process
        = (Inr (cfg, pool), s) \<and> length (open_pools s) = 1)
    \<and> (\<not> at_head srv \<longrightarrow> \<not> is_ok (fst (create_app_from_environment (\<lambda>_. None) env (heads REVISIONS)
          (answers_at locate world version (''postgresql://'' @ rest)) fresh_process)))"
proof -
  obtain srv' where srv': "run REVISIONS (revision_upgrade K nonce) srv = (Inr (), srv')" "upgraded K srv srv'"
    using upgrade_head [OF assms(7,8)] .
  have run: "run_migrations_online env ini locate (run REVISIONS (revision_upgrade K nonce)) world
      = (Inr (), world(place \<mapsto> srv'))"
    using online_at [of env rest locate place world srv, OF assms(1,4,5,6)] srv'(1) by simp
  have v: "pg_versions srv' = Some [''0002_privacy_hardening'']"
    using srv'(2) by (simp add: upgraded_def heads_revisions)
  note settings = service_settings [of env rest, OF assms(1,2)]
  have head: "answers_at locate (world(place \<mapsto> srv')) version (''postgresql://'' @ rest) =
      Inr \<lparr>server_version = Some version, version_table = Some ''alembic_version'',
        revision_rows = [''0002_privacy_hardening'']\<rparr>"
    by (subst answers_at_place [of locate _ place _ srv', OF assms(5)]) (simp_all add: v)
  have start: "\<exists>cfg pool s. create_app_from_environment (\<lambda>_. None) env (heads REVISIONS)
        (answers_at locate (world(place \<mapsto> srv')) version (''postgresql://'' @ rest)) fresh_process
      = (Inr (cfg, pool), s) \<and> length (open_pools s) = 1"
    unfolding head
    by (simp add: create_app_from_environment_def Let_def assms(3) validate_postgres_runtime_def settings
        heads_revisions get_postgres_pool_def get_pool_def fresh_process_def close_pool_def)
  have refuse: "\<not> is_ok (fst (create_app_from_environment (\<lambda>_. None) env (heads REVISIONS)
      (answers_at locate world version (''postgresql://'' @ rest)) fresh_process))" if "\<not> at_head srv"
  proof -
    have "at_base srv \<or> at_init srv" using assms(8) that by blast
    then consider "pg_versions srv = None" | "pg_versions srv = Some []"
      | "pg_versions srv = Some [''0001_init'']"
      by (elim disjE) (auto simp: at_base_def at_init_def)
    then show ?thesis
      unfolding answers_at_place [of locate "''postgresql://'' @ rest" place world srv, OF assms(5,6)]
      by cases (simp_all add: create_app_from_environment_def Let_def assms(3) validate_postgres_runtime_def
          settings heads_revisions)
  qed
  show ?thesis using run srv'(2) start refuse by blast
qed

definition sample_loop :: migration_loop where
  "sample_loop scripts step srv =
     run_steps step mark_upgraded (pending scripts (pg_versions srv)) (ensure_version_table srv)"

definition new_server :: server where
  "new_server = \<lparr>pg_catalog = [SequenceRel ''other''], pg_data = empty_db, pg_versions = None\<rparr>"

definition sample_locate :: "string \<Rightarrow> string result" where
  "sample_locate url = (if url \<in> {''postgresql://db'', ''postgresql+psycopg://db''} then Inr ''db'' else Inl TypeError)"

definition sample_environ :: environ where
  "sample_environ = [''FINGERPRINTHUB_DATABASE_URL'' \<mapsto> ''postgresql://db'']"

lemma upgrade_then_start_witness:
  "\<exists>srv'. fst (run_migrations_online sample_environ [] sample_locate
      (sample_loop REVISIONS (revision_upgrade sample_crypto (\<lambda>_ _. sample_nonce))) [''db'' \<mapsto> new_server]) = Inr ()
    \<and> upgraded sample_crypto new_server srv' \<and> pg_data srv' = empty_db"
proof -
  have env: "sample_environ ''FINGERPRINTHUB_DATABASE_URL'' = Some (''postgresql://'' @ ''db'')"
    by (simp add: sample_environ_def)
  have plain: "plain_url ''db''" by (simp add: plain_url_def normalize_psycopg_dsn_def startswith_def)
  have logs: "setup_logging sample_environ = Inr INFO"
    by (simp add: setup_logging_unset sample_environ_def)
  have neutral: "driver_neutral sample_locate" by (auto simp: driver_neutral_def sample_locate_def)
  have at: "sample_locate (''postgresql://'' @ ''db'') = Inr ''db''" by (simp add: sample_locate_def)
  have loop: "runs_upgrade_head sample_loop" by (simp add: runs_upgrade_head_def sample_loop_def)
  have base: "at_base new_server" by (simp add: at_base_def new_server_def schema_names)
  from upgrade_then_start [of sample_environ "''db''" INFO sample_locate "''db''" "[''db'' \<mapsto> new_server]" new_server
      sample_loop sample_crypto "\<lambda>_ _. sample_nonce" "[]" "[]", OF env plain logs neutral at _ loop] base
  show ?thesis by (auto simp: upgraded_def)
qed

section \<open>The way back\<close>

lemma downgrade_from_head:
  assumes "runs_downgrade_base run" "pg_versions srv = Some [''0002_privacy_hardening'']"
    and "list_all foreign cat" "pg_catalog srv = cat @ SCHEMA" "readable K (pg_data srv)"
  shows "storable (plain_db K (pg_data srv)) \<Longrightarrow> run REVISIONS (revision_downgrade K nonce) srv
      = (Inr (), srv\<lparr>pg_catalog := cat, pg_data := empty_db, pg_versions := Some []\<rparr>)"
    and "\<not> storable (plain_db K (pg_data srv)) \<Longrightarrow>
      run REVISIONS (revision_downgrade K nonce) srv = (Inl DataError, srv)"
proof -
  have "known_version REVISIONS srv"
    by (simp add: known_version_def assms(2) REVISIONS_def INIT_REVISION_def PRIVACY_REVISION_def)
  then have loop: "run REVISIONS (revision_downgrade K nonce) srv
      = run_steps (revision_downgrade K nonce) (mark_downgraded REVISIONS)
          (applied REVISIONS (Some [''0002_privacy_hardening''])) srv"
    using assms(1,2) revisions_linear by (simp add: runs_downgrade_base_def ensure_version_table_def)
  have order: "applied REVISIONS (Some [''0002_privacy_hardening'']) = [''0002_privacy_hardening'', ''0001_init'']"
    by (simp add: applied_def REVISIONS_def INIT_REVISION_def PRIVACY_REVISION_def)
  note step = privacy_step_runs [OF assms(3,4)] downgrade_cases [OF assms(5)]
  { assume "storable (plain_db K (pg_data srv))"
    then have one: "privacy_step (privacy_downgrade K nonce) srv = (Inr (), srv\<lparr>pg_data := plain_db K (pg_data srv)\<rparr>)"
      by (simp add: step)
    let ?s1 = "mark_downgraded REVISIONS ''0002_privacy_hardening'' (srv\<lparr>pg_data := plain_db K (pg_data srv)\<rparr>)"
    have "execute_all init_downgrade ?s1 = (Inr (), ?s1\<lparr>pg_catalog := cat, pg_data := empty_db\<rparr>)"
      by (rule init_down [OF assms(3)]) (simp add: mark_downgraded_def assms(4))
    then show "run REVISIONS (revision_downgrade K nonce) srv
      = (Inr (), srv\<lparr>pg_catalog := cat, pg_data := empty_db, pg_versions := Some []\<rparr>)"
      by (simp add: loop order one) (simp add: mark_downgraded_def REVISIONS_def INIT_REVISION_def) }
  { assume "\<not> storable (plain_db K (pg_data srv))"
    then have "privacy_step (privacy_downgrade K nonce) srv = (Inl DataError, srv)" by (simp add: step)
    then show "run REVISIONS (revision_downgrade K nonce) srv = (Inl DataError, srv)"
      by (simp add: loop order) }
qed

text \<open>C33: taking everything back: from the head, running the downgrades to the base on the configured database removes exactly the program's relations, in an order that no foreign key or default refuses, keeps the relations of others, and leaves a database on which the upgrade starts from nothing again; when a private text cannot be stored in the clear the whole command rolls back and no database changes.\<close>

theorem downgrade_then_upgrade:
  assumes "env ''FINGERPRINTHUB_DATABASE_URL'' = Some (''postgresql://'' @ rest)"
    and "driver_neutral locate" "locate (''postgresql://'' @ rest) = Inr place" "world place = Some srv"
    and "runs_downgrade_base back" "runs_upgrade_head run"
    and "pg_versions srv = Some (heads REVISIONS)" "list_all foreign cat" "pg_catalog srv = cat @ SCHEMA"
    and "readable K (pg_data srv)"
  shows "(storable (plain_db K (pg_data srv)) \<longrightarrow>
      run_migrations_online env ini locate (back REVISIONS (revision_downgrade K nonce)) world
        = (Inr (), world(place \<mapsto> srv\<lparr>pg_catalog := cat, pg_data := empty_db, pg_versions := Some []\<rparr>))
      \<and> run_migrations_online env ini locate (run REVISIONS (revision_upgrade K nonce))
          (world(place \<mapsto> srv\<lparr>pg_catalog := cat, pg_data := empty_db, pg_versions := Some []\<rparr>))
        = (Inr (), world(place \<mapsto> srv\<lparr>pg_data := empty_db\<rparr>)))
    \<and> (\<not> storable (plain_db K (pg_data srv)) \<longrightarrow>
      run_migrations_online env ini locate (back REVISIONS (revision_downgrade K nonce)) world = (Inl DataError, world))"
proof -
  have v: "pg_versions srv = Some [''0002_privacy_hardening'']" using assms(7) by (simp add: heads_revisions)
  let ?base = "srv\<lparr>pg_catalog := cat, pg_data := empty_db, pg_versions := Some []\<rparr>"
  note online = online_at [of env rest locate place world srv, OF assms(1-4)]
  note down = downgrade_from_head [OF assms(5) v assms(8-10)]
  have "at_base ?base" by (simp add: at_base_def assms(8))
  from upgrade_from_base [OF assms(6) this, of K nonce]
  have "run REVISIONS (revision_upgrade K nonce) ?base = (Inr (), srv\<lparr>pg_data := empty_db\<rparr>)"
    by (simp add: assms(9) [symmetric] v [symmetric])
  then have up: "run_migrations_online env ini locate (run REVISIONS (revision_upgrade K nonce)) (world(place \<mapsto> ?base))
      = (Inr (), world(place \<mapsto> srv\<lparr>pg_data := empty_db\<rparr>))"
    by (subst online_at [of env rest locate place _ ?base, OF assms(1-3)]) simp_all
  show ?thesis using up by (simp add: online down)
qed

definition sample_loop_back :: migration_loop where
  "sample_loop_back scripts step srv =
     run_steps step (mark_downgraded scripts) (applied scripts (pg_versions srv)) (ensure_version_table srv)"

definition head_server :: server where
  "head_server = \<lparr>pg_catalog = [SequenceRel ''other''] @ SCHEMA, pg_data = sample_db,
     pg_versions = Some [''0002_privacy_hardening'']\<rparr>"

lemma downgrade_then_upgrade_witness:
  "run_migrations_online sample_environ [] sample_locate
      (sample_loop_back REVISIONS (revision_downgrade sample_crypto (\<lambda>_ _. sample_nonce))) [''db'' \<mapsto> head_server]
    = (Inr (), [''db'' \<mapsto> \<lparr>pg_catalog = [SequenceRel ''other''], pg_data = empty_db, pg_versions = Some []\<rparr>])"
proof -
  have env: "sample_environ ''FINGERPRINTHUB_DATABASE_URL'' = Some (''postgresql://'' @ ''db'')"
    by (simp add: sample_environ_def)
  have neutral: "driver_neutral sample_locate" by (auto simp: driver_neutral_def sample_locate_def)
  have at: "sample_locate (''postgresql://'' @ ''db'') = Inr ''db''" by (simp add: sample_locate_def)
  have loops: "runs_downgrade_base sample_loop_back" "runs_upgrade_head sample_loop"
    by (simp_all add: runs_downgrade_base_def sample_loop_back_def runs_upgrade_head_def sample_loop_def)
  have f: "list_all foreign [SequenceRel ''other'']" by (simp add: schema_names)
  have v: "pg_versions head_server = Some (heads REVISIONS)" by (simp add: head_server_def heads_revisions)
  have c: "pg_catalog head_server = [SequenceRel ''other''] @ SCHEMA" by (simp add: head_server_def)
  have "readable sample_crypto (pg_data head_server)" "storable (plain_db sample_crypto (pg_data head_server))"
    by (simp_all add: readable_def storable_def plain_db_def plain_of_def head_server_def sample_db_def sample_row_def)
  with downgrade_then_upgrade [of sample_environ "''db''" sample_locate "''db''" "[''db'' \<mapsto> head_server]" head_server
      sample_loop_back sample_loop "[SequenceRel ''other'']" sample_crypto "[]" "\<lambda>_ _. sample_nonce",
      OF env neutral at _ loops v f c]
  show ?thesis by (simp add: head_server_def)
qed

section \<open>The script mode\<close>

text \<open>Writing the migrations as a script (\<^verbatim>\<open>alembic upgrade head --sql\<close>) never succeeds while the second revision is pending: its column rewriting needs a connection, which a script has not, and the AttributeError comes after the script has already emitted the first revision and the lock.\<close>

lemma offline_upgrade_raises:
  assumes "versions \<in> {None, Some [], Some [''0001_init'']}"
  shows "fst (run_migrations_offline (run_steps revision_script mark (pending REVISIONS versions))) = Inl AttributeError"
  using assms
  by (auto simp: run_migrations_offline_def pending_def revision_script_def REVISIONS_def INIT_REVISION_def
      PRIVACY_REVISION_def)

lemma offline_upgrade_raises_witness:
  "fst (run_migrations_offline (run_steps revision_script (\<lambda>r out. out) (pending REVISIONS (Some [''0001_init'']))))
    = Inl AttributeError"
  by (rule offline_upgrade_raises) simp

end
