(* ===== verification/Json_Text.thy ===== *)
theory Json_Text
  imports Field_Encryption Json_Values "HOL-Library.AList"
begin

text \<open>
  JSON as text: \<^verbatim>\<open>json.dumps(value, ensure_ascii=False, separators=(",", ":"))\<close> and \<^verbatim>\<open>json.loads(text)\<close> of
  Python's library, and the two functions of \<^verbatim>\<open>utils/field_encryption.py\<close> that store a JSON value
  encrypted. The scanner follows the library's: no trailing commas, NaN and the infinities allowed,
  control characters refused in strings, the last of equal keys wins at the place of the first. It
  runs on fuel, and \<open>json_scan_terminates\<close> shows that twice the length of the text is enough.
  Reading a float's literal into a float is the machine's and a parameter. A \<^verbatim>\<open>\u\<close> escape above 255
  has no text in the model; the interpreter's recursion limit is not modelled.
\<close>

section \<open>Writing\<close>

definition dquote :: char where "dquote = CHR 0x22"
definition backslash :: char where "backslash = CHR 0x5C"

definition json_escape :: "char \<Rightarrow> string" where
  "json_escape c =
     (let n = ord c in
      if c = dquote \<or> c = backslash then [backslash, c]
      else if n = 8 then [backslash, CHR ''b'']
      else if n = 9 then [backslash, CHR ''t'']
      else if n = 10 then [backslash, CHR ''n'']
      else if n = 12 then [backslash, CHR ''f'']
      else if n = 13 then [backslash, CHR ''r'']
      else if n < 32 then [backslash, CHR ''u'', CHR ''0'', CHR ''0'', hex_nibble (n div 16), hex_nibble (n mod 16)]
      else [c])"

definition json_string :: "string \<Rightarrow> string" where
  "json_string s = dquote # concat (map json_escape s) @ [dquote]"

fun json_float :: "pyfloat \<Rightarrow> string" where
  "json_float (Finite r n) = r"
| "json_float NaN = ''NaN''"
| "json_float (Infinite negative) = (if negative then ''-Infinity'' else ''Infinity'')"

fun json_text :: "json \<Rightarrow> string" where
  "json_text JNull = ''null''"
| "json_text (JBool b) = (if b then ''true'' else ''false'')"
| "json_text (JInt n) = int_str n"
| "json_text (JFloat f) = json_float f"
| "json_text (JStr s) = json_string s"
| "json_text (JList vs) = ''['' @ join '','' (map json_text vs) @ '']''"
| "json_text (JObj kvs) =
     ''{'' @ join '','' (map (\<lambda>kv. json_string (fst kv) @ '':'' @ json_text (snd kv)) kvs) @ ''}''"

text \<open>An integer of more than 4300 digits has no decimal text: \<^verbatim>\<open>int.__repr__\<close> raises \<^verbatim>\<open>ValueError\<close>.\<close>

definition int_printable :: "int \<Rightarrow> bool" where
  "int_printable n \<longleftrightarrow> length (nat_str (nat \<bar>n\<bar>)) \<le> MAX_STR_DIGITS"

fun ints_printable :: "json \<Rightarrow> bool" where
  "ints_printable (JInt n) = int_printable n"
| "ints_printable (JList vs) = list_all ints_printable vs"
| "ints_printable (JObj kvs) = list_all (\<lambda>kv. ints_printable (snd kv)) kvs"
| "ints_printable v = True"

definition json_dumps :: "json \<Rightarrow> string result" where
  "json_dumps v =
     (if ints_printable v then Inr (json_text v)
      else Inl (ValueError ''Exceeds the limit (4300 digits) for integer string conversion''))"

section \<open>Scanning\<close>

text \<open>What a scanner found and the text after it; a syntax error; a text beyond the model; no fuel.\<close>

datatype 'a scanned = Found 'a string | NotJson | BeyondModel | NoFuel

fun map_scanned :: "('a \<Rightarrow> 'b) \<Rightarrow> 'a scanned \<Rightarrow> 'b scanned" where
  "map_scanned f (Found x r) = Found (f x) r"
| "map_scanned f NotJson = NotJson"
| "map_scanned f BeyondModel = BeyondModel"
| "map_scanned f NoFuel = NoFuel"

definition json_space :: "char \<Rightarrow> bool" where
  "json_space c \<longleftrightarrow> ord c \<in> {9, 10, 13, 32}"

definition skip_space :: "string \<Rightarrow> string" where
  "skip_space s = dropWhile json_space s"

definition hex_value :: "char \<Rightarrow> nat option" where
  "hex_value c =
     (let n = ord c in
      if 48 \<le> n \<and> n \<le> 57 then Some (n - 48)
      else if 97 \<le> n \<and> n \<le> 102 then Some (n - 87)
      else if 65 \<le> n \<and> n \<le> 70 then Some (n - 55)
      else None)"

definition unescape :: "char \<Rightarrow> char option" where
  "unescape c =
     (if c = dquote \<or> c = backslash \<or> c = CHR ''/'' then Some c
      else if c = CHR ''b'' then Some (char_of (8::nat))
      else if c = CHR ''f'' then Some (char_of (12::nat))
      else if c = CHR ''n'' then Some (char_of (10::nat))
      else if c = CHR ''r'' then Some (char_of (13::nat))
      else if c = CHR ''t'' then Some (char_of (9::nat))
      else None)"

text \<open>The character of an escape sequence after its backslash.\<close>

definition scan_escape :: "string \<Rightarrow> char scanned" where
  "scan_escape s =
     (case s of
        [] \<Rightarrow> NotJson
      | e # s1 \<Rightarrow>
          if e \<noteq> CHR ''u''
          then (case unescape e of None \<Rightarrow> NotJson | Some x \<Rightarrow> Found x s1)
          else
            (case s1 of
               h1 # h2 # h3 # h4 # s2 \<Rightarrow>
                 (case (hex_value h1, hex_value h2, hex_value h3, hex_value h4) of
                    (Some a, Some b, Some c, Some d) \<Rightarrow>
                      if a = 0 \<and> b = 0 then Found (char_of (16 * c + d)) s2 else BeyondModel
                  | _ \<Rightarrow> NotJson)
             | _ \<Rightarrow> NotJson))"

lemma scan_escape_shorter: "scan_escape s = Found x r \<Longrightarrow> length r < length s"
  by (auto simp: scan_escape_def split: list.splits if_splits option.splits)

lemma scan_escape_fuel [simp]: "scan_escape s \<noteq> NoFuel"
  by (auto simp: scan_escape_def split: list.splits if_splits option.splits)

text \<open>The text of a string up to its closing quote.\<close>

function scan_string :: "string \<Rightarrow> string scanned" where
  "scan_string [] = NotJson"
| "scan_string (c # s) =
     (if c = dquote then Found [] s
      else if ord c < 32 then NotJson
      else if c \<noteq> backslash then map_scanned ((#) c) (scan_string s)
      else
        (case scan_escape s of
           Found x r \<Rightarrow> map_scanned ((#) x) (scan_string r)
         | NotJson \<Rightarrow> NotJson
         | BeyondModel \<Rightarrow> BeyondModel
         | NoFuel \<Rightarrow> NoFuel))"
  by pat_completeness auto
termination
  by (relation "measure length") (auto dest: scan_escape_shorter)

text \<open>
  The longest number at the start of the text, as its literal, whether it has a fraction or an
  exponent, and the rest.
\<close>

definition digits_of :: "string \<Rightarrow> string" where "digits_of s = takeWhile is_digit s"
definition after_digits :: "string \<Rightarrow> string" where "after_digits s = dropWhile is_digit s"

definition lex_int :: "string \<Rightarrow> (string \<times> string) option" where
  "lex_int s =
     (case s of
        [] \<Rightarrow> None
      | c # r \<Rightarrow>
          if c = CHR ''0'' then Some ([c], r)
          else if is_digit c then Some (digits_of s, after_digits s) else None)"

definition lex_frac :: "string \<Rightarrow> string \<times> string" where
  "lex_frac s =
     (case s of
        c # r \<Rightarrow> if c = CHR ''.'' \<and> digits_of r \<noteq> [] then (c # digits_of r, after_digits r) else ([], s)
      | [] \<Rightarrow> ([], s))"

definition lex_exp :: "string \<Rightarrow> string \<times> string" where
  "lex_exp s =
     (case s of
        e # r \<Rightarrow>
          if e = CHR ''e'' \<or> e = CHR ''E''
          then
            (let (sign, r1) = (case r of
                   c # r' \<Rightarrow> if c = CHR ''+'' \<or> c = CHR ''-'' then ([c], r') else ([], r)
                 | [] \<Rightarrow> ([], r))
             in if digits_of r1 \<noteq> [] then (e # sign @ digits_of r1, after_digits r1) else ([], s))
          else ([], s)
      | [] \<Rightarrow> ([], s))"

definition lex_unsigned :: "string \<Rightarrow> (string \<times> bool \<times> string) option" where
  "lex_unsigned s =
     (case lex_int s of
        None \<Rightarrow> None
      | Some (i, r) \<Rightarrow>
          (let (f, r1) = lex_frac r; (e, r2) = lex_exp r1
           in Some (i @ f @ e, f \<noteq> [] \<or> e \<noteq> [], r2)))"

definition lex_number :: "string \<Rightarrow> (string \<times> bool \<times> string) option" where
  "lex_number s =
     (case s of
        c # r \<Rightarrow>
          if c = CHR ''-'' then map_option (\<lambda>(l, fl, r1). (c # l, fl, r1)) (lex_unsigned r)
          else lex_unsigned s
      | [] \<Rightarrow> None)"

definition scan_number :: "(string \<Rightarrow> pyfloat) \<Rightarrow> string \<Rightarrow> json scanned" where
  "scan_number F s =
     (case lex_number s of
        None \<Rightarrow> NotJson
      | Some (literal, True, r) \<Rightarrow> Found (JFloat (F literal)) r
      | Some (literal, False, r) \<Rightarrow>
          (case py_int literal of None \<Rightarrow> NotJson | Some n \<Rightarrow> Found (JInt n) r))"

text \<open>The words, tried before a number.\<close>

definition scan_atom :: "(string \<Rightarrow> pyfloat) \<Rightarrow> string \<Rightarrow> json scanned" where
  "scan_atom F s =
     (if startswith s ''null'' then Found JNull (drop 4 s)
      else if startswith s ''true'' then Found (JBool True) (drop 4 s)
      else if startswith s ''false'' then Found (JBool False) (drop 5 s)
      else if startswith s ''NaN'' then Found (JFloat NaN) (drop 3 s)
      else if startswith s ''Infinity'' then Found (JFloat (Infinite False)) (drop 8 s)
      else if startswith s ''-Infinity'' then Found (JFloat (Infinite True)) (drop 9 s)
      else scan_number F s)"

text \<open>
  One value; the elements of an array after the opening bracket (or a comma); the members of an object
  likewise. A member sets its key in the dictionary built so far.
\<close>

fun scan_once :: "(string \<Rightarrow> pyfloat) \<Rightarrow> nat \<Rightarrow> string \<Rightarrow> json scanned"
and scan_elements :: "(string \<Rightarrow> pyfloat) \<Rightarrow> nat \<Rightarrow> json list \<Rightarrow> string \<Rightarrow> json scanned"
and scan_members :: "(string \<Rightarrow> pyfloat) \<Rightarrow> nat \<Rightarrow> dict \<Rightarrow> string \<Rightarrow> json scanned"
where
  "scan_once F 0 s = NoFuel"
| "scan_once F (Suc k) s =
     (case s of
        [] \<Rightarrow> NotJson
      | c # r \<Rightarrow>
          if c = dquote then map_scanned JStr (scan_string r)
          else if c = CHR ''['' then
            (case skip_space r of
               [] \<Rightarrow> NotJson
             | d # r1 \<Rightarrow> if d = CHR '']'' then Found (JList []) r1 else scan_elements F k [] (d # r1))
          else if c = CHR ''{'' then
            (case skip_space r of
               [] \<Rightarrow> NotJson
             | d # r1 \<Rightarrow> if d = CHR ''}'' then Found (JObj []) r1 else scan_members F k [] (d # r1))
          else scan_atom F s)"
| "scan_elements F 0 vs s = NoFuel"
| "scan_elements F (Suc k) vs s =
     (case scan_once F k s of
        NotJson \<Rightarrow> NotJson
      | BeyondModel \<Rightarrow> BeyondModel
      | NoFuel \<Rightarrow> NoFuel
      | Found v r \<Rightarrow>
          (case skip_space r of
             [] \<Rightarrow> NotJson
           | c # r1 \<Rightarrow>
               if c = CHR '']'' then Found (JList (vs @ [v])) r1
               else if c = CHR '','' then scan_elements F k (vs @ [v]) (skip_space r1)
               else NotJson))"
| "scan_members F 0 kvs s = NoFuel"
| "scan_members F (Suc k) kvs s =
     (case s of
        [] \<Rightarrow> NotJson
      | q # s1 \<Rightarrow>
          if q \<noteq> dquote then NotJson
          else
            (case scan_string s1 of
               NotJson \<Rightarrow> NotJson
             | BeyondModel \<Rightarrow> BeyondModel
             | NoFuel \<Rightarrow> NoFuel
             | Found key r \<Rightarrow>
                 (case skip_space r of
                    [] \<Rightarrow> NotJson
                  | c # r1 \<Rightarrow>
                      if c \<noteq> CHR '':'' then NotJson
                      else
                        (case scan_once F k (skip_space r1) of
                           NotJson \<Rightarrow> NotJson
                         | BeyondModel \<Rightarrow> BeyondModel
                         | NoFuel \<Rightarrow> NoFuel
                         | Found v r2 \<Rightarrow>
                             (case skip_space r2 of
                                [] \<Rightarrow> NotJson
                              | d # r3 \<Rightarrow>
                                  if d = CHR ''}'' then Found (JObj (AList.update key v kvs)) r3
                                  else if d = CHR '','' then scan_members F k (AList.update key v kvs) (skip_space r3)
                                  else NotJson)))))"

text \<open>\<^verbatim>\<open>json.loads\<close>: one value between white space, and nothing else.\<close>

definition json_fuel :: "string \<Rightarrow> nat" where
  "json_fuel s = 2 * length s + 1"

definition json_loads :: "(string \<Rightarrow> pyfloat) \<Rightarrow> string \<Rightarrow> json scanned" where
  "json_loads F s =
     (case scan_once F (json_fuel s) (skip_space s) of
        Found v r \<Rightarrow> if skip_space r = [] then Found v [] else NotJson
      | other \<Rightarrow> other)"

section \<open>Encrypted JSON fields\<close>

definition encrypt_json :: "aead \<Rightarrow> keyring result \<Rightarrow> bytes \<Rightarrow> json \<Rightarrow> string option result" where
  "encrypt_json A loaded nonce value =
     (if value = JNull then Inr None
      else (case json_dumps value of
          Inl e \<Rightarrow> Inl e
        | Inr text \<Rightarrow> encrypt_text A loaded None None nonce (Some text)))"

text \<open>
  The stored value is \<^verbatim>\<open>None\<close> or a text. \<open>Inr (Some v)\<close> returns \<open>v\<close>; \<open>Inr None\<close> stands for what the model
  has no text for.
\<close>

definition decrypt_json_field ::
  "aead \<Rightarrow> (string \<Rightarrow> pyfloat) \<Rightarrow> keyring result \<Rightarrow> keyring option \<Rightarrow> string option
   \<Rightarrow> json option result"
where
  "decrypt_json_field A F loaded ring_arg value =
     (case value of
        None \<Rightarrow> Inr (Some JNull)
      | Some v \<Rightarrow>
          if \<not> is_encrypted_value v then Inl (FieldDecryptionError JsonFieldNotEncrypted)
          else
            (case decrypt_text A loaded ring_arg v of
               Inl e \<Rightarrow> Inl e
             | Inr decrypted \<Rightarrow>
                 (case json_loads F decrypted of
                    Found w r \<Rightarrow> Inr (Some w)
                  | NotJson \<Rightarrow> Inl (FieldDecryptionError InvalidJson)
                  | BeyondModel \<Rightarrow> Inr None
                  | NoFuel \<Rightarrow> Inr None)))"

section \<open>The scanner ends\<close>

lemma map_scanned_Found: "map_scanned f x = Found y r \<longleftrightarrow> (\<exists>z. x = Found z r \<and> y = f z)"
  by (cases x) auto

lemma map_scanned_NoFuel [simp]: "map_scanned f x = NoFuel \<longleftrightarrow> x = NoFuel"
  by (cases x) auto

lemma skip_space_length: "length (skip_space s) \<le> length s"
  by (simp add: skip_space_def length_dropWhile_le)

lemma skip_space_rest: "skip_space s = c # r \<Longrightarrow> length r < length s"
  using skip_space_length [of s] by simp

lemma scan_string_shorter: "scan_string s = Found x r \<Longrightarrow> length r < length s"
proof (induction s arbitrary: x rule: scan_string.induct)
  case (2 c s)
  show ?case
  proof (cases "c = dquote \<or> ord c < 32 \<or> c \<noteq> backslash")
    case True
    then show ?thesis
      using "2.prems" "2.IH"(1) by (auto simp: map_scanned_Found less_SucI split: if_splits)
  next
    case False
    then obtain y s1 z where esc: "scan_escape s = Found y s1" and rec: "scan_string s1 = Found z r"
      using "2.prems" by (auto simp: map_scanned_Found split: scanned.splits)
    have "length r < length s1" using False esc rec "2.IH"(2) by auto
    then show ?thesis using scan_escape_shorter [OF esc] by simp
  qed
qed simp

lemma scan_string_fuel [simp]: "scan_string s \<noteq> NoFuel"
  by (induction s rule: scan_string.induct) (auto split: scanned.split)

lemma after_digits_length: "length (after_digits s) \<le> length s"
  by (simp add: after_digits_def length_dropWhile_le)

lemma after_digits_less [simp]:
  "length (after_digits s) \<le> Suc (length s)" "length (after_digits s) \<le> Suc (Suc (length s))"
  "length (after_digits (c # s)) \<le> Suc (Suc (length s))"
  using after_digits_length [of s] after_digits_length [of "c # s"] by simp_all

lemma lex_int_shorter: "lex_int s = Some (i, r) \<Longrightarrow> length r < length s"
  by (auto simp: lex_int_def after_digits_def less_Suc_eq_le length_dropWhile_le
      split: list.splits if_splits)

lemma lex_frac_shorter: "lex_frac s = (f, r) \<Longrightarrow> length r \<le> length s"
  by (auto simp: lex_frac_def split: list.splits if_splits)

lemma lex_exp_shorter: "lex_exp s = (e, r) \<Longrightarrow> length r \<le> length s"
  using after_digits_less(1) [of "[]"]
  by (auto simp: lex_exp_def Let_def split: list.splits if_splits prod.splits)

lemma lex_unsigned_shorter:
  assumes "lex_unsigned s = Some (l, fl, r)"
  shows "length r < length s"
proof -
  obtain i r1 where i: "lex_int s = Some (i, r1)"
    using assms by (auto simp: lex_unsigned_def split: option.splits)
  obtain f r2 where f: "lex_frac r1 = (f, r2)" by fastforce
  obtain e r3 where e: "lex_exp r2 = (e, r3)" by fastforce
  have "r = r3" using assms by (simp add: lex_unsigned_def i f e)
  then show ?thesis using lex_int_shorter [OF i] lex_frac_shorter [OF f] lex_exp_shorter [OF e] by simp
qed

lemma lex_number_shorter: "lex_number s = Some (l, fl, r) \<Longrightarrow> length r < length s"
  by (auto simp: lex_number_def dest!: lex_unsigned_shorter split: list.splits if_splits)

lemma scan_number_shorter: "scan_number F s = Found v r \<Longrightarrow> length r < length s"
  by (auto simp: scan_number_def split: option.splits bool.splits dest: lex_number_shorter)

lemma scan_atom_shorter:
  assumes "scan_atom F s = Found v r" "s \<noteq> []"
  shows "length r < length s"
  using assms by (auto simp: scan_atom_def split: if_splits dest: scan_number_shorter)

lemma scan_atom_fuel [simp]: "scan_atom F s \<noteq> NoFuel"
  by (simp add: scan_atom_def scan_number_def split: option.split bool.split)

lemma scanners_shorter:
  "scan_once F k s = Found v r \<Longrightarrow> length r < length s"
  "scan_elements F k vs s = Found v r \<Longrightarrow> length r < length s"
  "scan_members F k kvs s = Found v r \<Longrightarrow> length r < length s"
proof (induction F k s and F k vs s and F k kvs s arbitrary: v r and v r and v r
    rule: scan_once_scan_elements_scan_members.induct)
  case (2 F k s)
  then obtain c t where s: "s = c # t" by (auto split: list.splits)
  consider "c = dquote" | "c \<noteq> dquote" "c = CHR ''[''" | "c \<noteq> dquote" "c = CHR ''{''"
    | "c \<noteq> dquote" "c \<noteq> CHR ''[''" "c \<noteq> CHR ''{''" by blast
  then show ?case
  proof cases
    case 1
    then show ?thesis using 2 s scan_string_shorter by (auto simp: map_scanned_Found less_SucI)
  next
    case 2
    then obtain d r1 where d: "skip_space t = d # r1" using "2.prems" s by (auto split: list.splits)
    note len = skip_space_rest [OF d]
    show ?thesis
    proof (cases "d = CHR '']''")
      case True
      then show ?thesis using "2.prems" s 2 d len by simp
    next
      case False
      then have "scan_elements F k [] (d # r1) = Found v r" using "2.prems" s 2 d by simp
      from "2.IH"(1) [OF s 2 d False this] show ?thesis using s len by simp
    qed
  next
    case 3
    have b: "c \<noteq> CHR ''[''" using 3 by simp
    obtain d r1 where d: "skip_space t = d # r1" using "2.prems" s 3 by (auto split: list.splits)
    note len = skip_space_rest [OF d]
    show ?thesis
    proof (cases "d = CHR ''}''")
      case True
      then show ?thesis using "2.prems" s 3 d len by simp
    next
      case False
      then have "scan_members F k [] (d # r1) = Found v r" using "2.prems" s 3 d by simp
      from "2.IH"(2) [OF s 3(1) b 3(2) d False this] show ?thesis using s len by simp
    qed
  next
    case 4
    then show ?thesis using "2.prems" s scan_atom_shorter [of F s] by simp
  qed
next
  case (4 F k vs s)
  then obtain w r1 where w: "scan_once F k s = Found w r1" by (auto split: scanned.splits)
  then obtain c r2 where c: "skip_space r1 = c # r2" using "4.prems" by (auto split: list.splits)
  have len: "length r2 < length s" using "4.IH"(1) [OF w] skip_space_rest [OF c] by simp
  show ?case
  proof (cases "c = CHR '']''")
    case True
    then show ?thesis using "4.prems" w c len by simp
  next
    case False
    then have comma: "c = CHR '',''" and rec: "scan_elements F k (vs @ [w]) (skip_space r2) = Found v r"
      using "4.prems" w c by (auto split: if_splits)
    from "4.IH"(2) [OF w c False comma rec] show ?thesis using len skip_space_length [of r2] by simp
  qed
next
  case (6 F k kvs s)
  then obtain s1 key r0 where s: "s = dquote # s1" and key: "scan_string s1 = Found key r0"
    by (auto split: list.splits if_splits scanned.splits)
  then obtain r1 where r1: "skip_space r0 = CHR '':'' # r1"
    using "6.prems" by (auto split: list.splits if_splits)
  then obtain w r2 where w: "scan_once F k (skip_space r1) = Found w r2"
    using "6.prems" s key by (auto split: scanned.splits)
  then obtain d r3 where d: "skip_space r2 = d # r3" using "6.prems" s key r1 by (auto split: list.splits)
  note key_len = scan_string_shorter [OF key]
  have "length r2 < length (skip_space r1)" using "6.IH"(1) [OF s _ key r1 _ w] by simp
  then have len: "length r3 < length s"
    using key_len skip_space_rest [OF r1] skip_space_rest [OF d] skip_space_length [of r1] s by simp
  show ?case
  proof (cases "d = CHR ''}''")
    case True
    then show ?thesis using "6.prems" s key r1 w d len by simp
  next
    case False
    then have comma: "d = CHR '',''" and rec: "scan_members F k (AList.update key w kvs) (skip_space r3) = Found v r"
      using "6.prems" s key r1 w d by (auto split: if_splits)
    from "6.IH"(2) [OF s _ key r1 _ w d False comma rec] show ?thesis
      using len skip_space_length [of r3] by simp
  qed
qed simp_all

lemma scanners_fuel:
  "2 * length s + 1 \<le> k \<Longrightarrow> scan_once F k s \<noteq> NoFuel"
  "2 * length s + 2 \<le> k \<Longrightarrow> scan_elements F k vs s \<noteq> NoFuel"
  "2 * length s + 2 \<le> k \<Longrightarrow> scan_members F k kvs s \<noteq> NoFuel"
proof (induction F k s and F k vs s and F k kvs s rule: scan_once_scan_elements_scan_members.induct)
  case (2 F k s)
  show ?case
  proof (cases s)
    case (Cons c t)
    have enough: "2 * length (d # r1) + 2 \<le> k" if "skip_space t = d # r1" for d r1
      using skip_space_length [of t] "2.prems" that Cons by simp
    then show ?thesis using "2.IH"(1) [OF Cons] "2.IH"(2) [OF Cons] Cons by (auto split: list.split)
  qed simp
next
  case (4 F k vs s)
  have one: "scan_once F k s \<noteq> NoFuel" using 4 by simp
  have next_one: "scan_elements F k (vs @ [w]) (skip_space r2) \<noteq> NoFuel"
    if "scan_once F k s = Found w r1" "skip_space r1 = CHR '','' # r2" for w r1 r2
  proof -
    have "2 * length (skip_space r2) + 2 \<le> k"
      using scanners_shorter(1) [OF that(1)] skip_space_rest [OF that(2)] skip_space_length [of r2] "4.prems"
      by simp
    then show ?thesis using "4.IH"(2) [OF that(1) that(2)] by simp
  qed
  show ?case using one next_one by (auto split: scanned.split list.split)
next
  case (6 F k kvs s)
  show ?case
  proof (cases "s \<noteq> [] \<and> hd s = dquote")
    case True
    then obtain s1 where s: "s = dquote # s1" by (cases s) auto
    have one: "scan_once F k (skip_space r1) \<noteq> NoFuel"
      if "scan_string s1 = Found key r" "skip_space r = CHR '':'' # r1" for key r r1
    proof -
      have "2 * length (skip_space r1) + 1 \<le> k"
        using scan_string_shorter [OF that(1)] skip_space_rest [OF that(2)] skip_space_length [of r1] "6.prems" s
        by simp
      then show ?thesis using "6.IH"(1) [OF s _ that] by simp
    qed
    have next_one: "scan_members F k (AList.update key w kvs) (skip_space r3) \<noteq> NoFuel"
      if "scan_string s1 = Found key r" "skip_space r = CHR '':'' # r1"
        "scan_once F k (skip_space r1) = Found w r2" "skip_space r2 = CHR '','' # r3" for key r r1 w r2 r3
    proof -
      have "2 * length (skip_space r3) + 2 \<le> k"
        using scan_string_shorter [OF that(1)] skip_space_rest [OF that(2)] skip_space_length [of r1]
          scanners_shorter(1) [OF that(3)] skip_space_rest [OF that(4)] skip_space_length [of r3] "6.prems" s
        by simp
      then show ?thesis using "6.IH"(2) [OF s _ that(1,2) _ that(3,4)] by simp
    qed
    show ?thesis using one next_one s by (auto split: scanned.split list.split)
  qed (cases s; simp)
qed simp_all

text \<open>More fuel changes nothing once there was enough.\<close>

lemma scanners_more_fuel:
  "scan_once F k s \<noteq> NoFuel \<Longrightarrow> k \<le> k' \<Longrightarrow> scan_once F k' s = scan_once F k s"
  "scan_elements F k vs s \<noteq> NoFuel \<Longrightarrow> k \<le> k' \<Longrightarrow> scan_elements F k' vs s = scan_elements F k vs s"
  "scan_members F k kvs s \<noteq> NoFuel \<Longrightarrow> k \<le> k' \<Longrightarrow> scan_members F k' kvs s = scan_members F k kvs s"
proof (induction F k s and F k vs s and F k kvs s arbitrary: k' and k' and k'
    rule: scan_once_scan_elements_scan_members.induct)
  case (2 F k s)
  from "2.prems"(2) obtain j where k': "k' = Suc j" "k \<le> j" by (cases k') simp_all
  show ?case
  proof (cases s)
    case (Cons c t)
    then show ?thesis
      using "2.prems"(1) "2.IH"(1) [OF Cons _ _ _ _ _ k'(2)] "2.IH"(2) [OF Cons _ _ _ _ _ _ k'(2)] k'(1)
      by (auto split: list.split)
  qed (use k' in simp)
next
  case (4 F k vs s)
  from "4.prems"(2) obtain j where k': "k' = Suc j" "k \<le> j" by (cases k') simp_all
  have "scan_once F k s \<noteq> NoFuel" using "4.prems"(1) by (cases "scan_once F k s") simp_all
  then have one: "scan_once F j s = scan_once F k s" by (rule "4.IH"(1) [OF _ k'(2)])
  show ?case
  proof (cases "scan_once F k s")
    case (Found w r1)
    show ?thesis
    proof (cases "skip_space r1")
      case (Cons c r2)
      have "scan_elements F j (vs @ [w]) (skip_space r2) = scan_elements F k (vs @ [w]) (skip_space r2)"
        if "c \<noteq> CHR '']''" "c = CHR '',''"
        using "4.IH"(2) [OF Found Cons that _ k'(2)] "4.prems"(1) Found Cons that by simp
      then show ?thesis using k'(1) one Found Cons by auto
    qed (use k'(1) one Found in simp)
  qed (use k'(1) one in simp_all)
next
  case (6 F k kvs s)
  from "6.prems"(2) obtain j where k': "k' = Suc j" "k \<le> j" by (cases k') simp_all
  show ?case
  proof (cases s)
    case s0: (Cons q s1)
    show ?thesis
    proof (cases "q = dquote")
      case True
      then have s: "s = dquote # s1" using s0 by simp
      show ?thesis
      proof (cases "scan_string s1")
        case key: (Found key r0)
        show ?thesis
        proof (cases "skip_space r0")
          case r0: (Cons c r1)
          show ?thesis
          proof (cases "c = CHR '':''")
            case True
            then have r1: "skip_space r0 = CHR '':'' # r1" using r0 by simp
            have "scan_once F k (skip_space r1) \<noteq> NoFuel"
              using "6.prems"(1) s key r1 by (cases "scan_once F k (skip_space r1)") simp_all
            then have one: "scan_once F j (skip_space r1) = scan_once F k (skip_space r1)"
              using "6.IH"(1) [OF s _ key r1 _ _ k'(2)] by simp
            show ?thesis
            proof (cases "scan_once F k (skip_space r1)")
              case (Found w r2)
              show ?thesis
              proof (cases "skip_space r2")
                case (Cons d r3)
                have "scan_members F j (AList.update key w kvs) (skip_space r3)
                    = scan_members F k (AList.update key w kvs) (skip_space r3)"
                  if "d \<noteq> CHR ''}''" "d = CHR '',''"
                  using "6.IH"(2) [OF s _ key r1 _ Found Cons that _ k'(2)] "6.prems"(1) s key r1 Found Cons that by simp
                then show ?thesis using k'(1) one s key r1 Found Cons by auto
              qed (use k'(1) one s key r1 Found in simp)
            qed (use k'(1) one s key r1 in simp_all)
          qed (use k' s key r0 in simp)
        qed (use k' s key in simp)
      qed (use k' s in simp_all)
    qed (use k' s0 in simp)
  qed (use k' in simp)
qed simp_all

text \<open>The scanner started by \<^verbatim>\<open>json.loads\<close> never runs out of fuel.\<close>

lemma json_loads_fuel: "json_loads F s \<noteq> NoFuel"
proof -
  have "2 * length (skip_space s) + 1 \<le> json_fuel s"
    using skip_space_length [of s] by (simp add: json_fuel_def)
  then have "scan_once F (json_fuel s) (skip_space s) \<noteq> NoFuel" by (rule scanners_fuel(1))
  then show ?thesis by (auto simp: json_loads_def split: scanned.split)
qed

lemma json_loads_enough:
  assumes "json_fuel s \<le> k"
  shows "scan_once F k (skip_space s) = scan_once F (json_fuel s) (skip_space s)"
proof (rule scanners_more_fuel(1) [OF _ assms])
  have "2 * length (skip_space s) + 1 \<le> json_fuel s"
    using skip_space_length [of s] by (simp add: json_fuel_def)
  then show "scan_once F (json_fuel s) (skip_space s) \<noteq> NoFuel" by (rule scanners_fuel(1))
qed

section \<open>Reading what was written: strings\<close>

lemma hex_value_nibble: "n < 16 \<Longrightarrow> hex_value (hex_nibble n) = Some n"
  by (auto simp: hex_value_def hex_nibble_def Let_def)

lemma char_of_ord: "ord c = n \<Longrightarrow> char_of n = c"
  by auto

lemma scan_escaped: "scan_string (json_escape c @ u) = map_scanned ((#) c) (scan_string u)"
proof -
  have esc: "scan_string (backslash # e # u) = map_scanned ((#) c) (scan_string u)"
    if "e \<noteq> CHR ''u''" "unescape e = Some c" for e
    using that by (simp add: scan_escape_def dquote_def backslash_def)
  note short = json_escape_def unescape_def dquote_def backslash_def Let_def
  consider "c = dquote \<or> c = backslash" | "ord c = 8" | "ord c = 9" | "ord c = 10" | "ord c = 12" | "ord c = 13"
    | "c \<noteq> dquote" "c \<noteq> backslash" "ord c < 32" "ord c \<notin> {8, 9, 10, 12, 13}"
    | "c \<noteq> dquote" "c \<noteq> backslash" "\<not> ord c < 32"
    by auto
  then show ?thesis
  proof cases
    case 1
    then show ?thesis using esc [of c] by (auto simp: short)
  next
    case 2
    then show ?thesis using esc [of "CHR ''b''"] char_of_ord [OF 2] by (auto simp: short)
  next
    case 3
    then show ?thesis using esc [of "CHR ''t''"] char_of_ord [OF 3] by (auto simp: short)
  next
    case 4
    then show ?thesis using esc [of "CHR ''n''"] char_of_ord [OF 4] by (auto simp: short)
  next
    case 5
    then show ?thesis using esc [of "CHR ''f''"] char_of_ord [OF 5] by (auto simp: short)
  next
    case 6
    then show ?thesis using esc [of "CHR ''r''"] char_of_ord [OF 6] by (auto simp: short)
  next
    case 7
    have "hex_value (hex_nibble (ord c div 16)) = Some (ord c div 16)"
      "hex_value (hex_nibble (ord c mod 16)) = Some (ord c mod 16)" "hex_value CHR ''0'' = Some 0"
      using 7(3) by (auto simp: hex_value_nibble) (simp add: hex_value_def)
    then show ?thesis
      using 7 by (simp add: json_escape_def Let_def scan_escape_def) (simp add: dquote_def backslash_def)
  next
    case 8
    then have "json_escape c = [c]" by (auto simp: json_escape_def Let_def)
    then show ?thesis using 8 by simp
  qed
qed

lemma scan_json_string: "scan_string (concat (map json_escape s) @ dquote # t) = Found s t"
  by (induction s) (simp_all add: scan_escaped del: scan_string.simps(2), simp add: scan_string.simps(2))

section \<open>Reading what was written: numbers\<close>

text \<open>What can follow a value inside a text that \<^verbatim>\<open>dumps\<close> wrote.\<close>

definition stops :: "string \<Rightarrow> bool" where
  "stops t \<longleftrightarrow> t = [] \<or> hd t \<in> {CHR '','', CHR '']'', CHR ''}''}"

lemma stops_simps [simp]: "stops []" "stops (CHR '','' # t)" "stops (CHR '']'' # t)" "stops (CHR ''}'' # t)"
  by (simp_all add: stops_def)

lemma digits_append:
  assumes "stops t"
  shows "digits_of (s @ t) = digits_of s" "after_digits (s @ t) = after_digits s @ t"
proof -
  have t: "takeWhile is_digit t = []" "dropWhile is_digit t = t"
    using assms by (cases t; auto simp: stops_def is_digit_def)+
  show "digits_of (s @ t) = digits_of s" "after_digits (s @ t) = after_digits s @ t"
    by (induction s) (simp_all add: digits_of_def after_digits_def t)
qed

lemma digits_stop: "stops t \<Longrightarrow> digits_of t = []"
  by (cases t) (auto simp: stops_def digits_of_def is_digit_def)

lemma lex_int_append: "lex_int s = Some (i, r) \<Longrightarrow> stops t \<Longrightarrow> lex_int (s @ t) = Some (i, r @ t)"
  using digits_append [of t s] by (cases s) (auto simp: lex_int_def split: if_splits)

lemma lex_frac_append: "lex_frac s = (f, r) \<Longrightarrow> stops t \<Longrightarrow> lex_frac (s @ t) = (f, r @ t)"
  by (cases s; cases t) (auto simp: lex_frac_def digits_append stops_def split: if_splits)

lemma lex_exp_append:
  assumes "lex_exp s = (e, r)" "stops t"
  shows "lex_exp (s @ t) = (e, r @ t)"
proof (cases s)
  case Nil
  then show ?thesis using assms by (cases t) (auto simp: lex_exp_def stops_def)
next
  case (Cons c u)
  show ?thesis
  proof (cases u)
    case Nil
    then show ?thesis
      using assms Cons digits_stop [OF assms(2)]
      by (cases t) (auto simp: lex_exp_def stops_def digits_of_def split: if_splits)
  next
    case Cons2: (Cons d w)
    then show ?thesis
      using assms(1) Cons digits_append [OF assms(2), of w] digits_append [OF assms(2), of "d # w"]
      by (auto simp: lex_exp_def Let_def split: if_splits)
  qed
qed

lemma lex_number_append:
  assumes "lex_number s = Some (l, fl, r)" "stops t"
  shows "lex_number (s @ t) = Some (l, fl, r @ t)"
proof -
  have un: "lex_unsigned (s @ t) = Some (l, fl, r @ t)" if u: "lex_unsigned s = Some (l, fl, r)" for s l fl r
  proof -
    obtain i r1 where i: "lex_int s = Some (i, r1)"
      using u by (auto simp: lex_unsigned_def split: option.splits)
    obtain f r2 where f: "lex_frac r1 = (f, r2)" by fastforce
    obtain e r3 where e: "lex_exp r2 = (e, r3)" by fastforce
    show ?thesis
      using u lex_int_append [OF i assms(2)] lex_frac_append [OF f assms(2)] lex_exp_append [OF e assms(2)]
      by (simp add: lex_unsigned_def i f e)
  qed
  show ?thesis
    using assms(1) by (cases s) (auto simp: lex_number_def dest: un split: if_splits)
qed

text \<open>A number starts with a digit, or a sign and a digit, so that no word is read first.\<close>

lemma lex_unsigned_head: "lex_unsigned s = Some x \<Longrightarrow> \<exists>c u. s = c # u \<and> is_digit c"
  by (cases s) (auto simp: lex_unsigned_def lex_int_def is_digit_def split: if_splits)

lemma lex_number_head:
  assumes "lex_number s = Some x"
  shows "(\<exists>c u. s = c # u \<and> is_digit c) \<or> (\<exists>c u. s = CHR ''-'' # c # u \<and> is_digit c)"
proof -
  obtain a u where s: "s = a # u" using assms by (cases s) (auto simp: lex_number_def)
  show ?thesis
  proof (cases "a = CHR ''-''")
    case True
    then obtain y where "lex_unsigned u = Some y" using assms s by (auto simp: lex_number_def)
    from lex_unsigned_head [OF this] show ?thesis using s True by blast
  next
    case False
    then have "lex_unsigned s = Some x" using assms s by (simp add: lex_number_def)
    from lex_unsigned_head [OF this] show ?thesis by blast
  qed
qed

lemma startswith_simps [simp]:
  "startswith s []" "\<not> startswith [] (d # w)" "startswith (c # u) (d # w) \<longleftrightarrow> c = d \<and> startswith u w"
  by (auto simp: startswith_def)

lemma digit_chars:
  assumes "is_digit c"
  shows "c \<noteq> CHR ''n''" "c \<noteq> CHR ''t''" "c \<noteq> CHR ''f''" "c \<noteq> CHR ''N''" "c \<noteq> CHR ''I''" "c \<noteq> CHR ''-''"
    "c \<noteq> dquote" "c \<noteq> CHR ''[''" "c \<noteq> CHR ''{''" "c \<noteq> CHR '']''" "c \<noteq> CHR ''}''" "\<not> json_space c"
  using assms by (auto simp: is_digit_def dquote_def json_space_def)

lemma scan_atom_number: "lex_number s = Some x \<Longrightarrow> scan_atom F s = scan_number F s"
  by (drule lex_number_head, elim disjE exE conjE) (simp_all add: scan_atom_def digit_chars)

lemma nat_str_lex: "lex_int (nat_str n) = Some (nat_str n, [])"
proof -
  obtain c u where cu: "nat_str n = c # u" by (cases "nat_str n") auto
  have all: "list_all is_digit (nat_str n)" by (rule nat_str_digits)
  have zero: "hd (nat_str n) = CHR ''0'' \<Longrightarrow> n = 0"
  proof (induction n rule: nat_str.induct)
    case (1 n)
    show ?case
    proof (cases "n < 10")
      case True
      then have "char_of (48 + n) = CHR ''0''" using "1.prems" by (subst (asm) nat_str.simps) simp
      then have "ord (char_of (48 + n)) = ord CHR ''0''" by simp
      then show ?thesis using True by simp
    next
      case False
      then have "hd (nat_str (n div 10)) = CHR ''0''" using "1.prems" by (subst (asm) nat_str.simps) simp
      then show ?thesis using "1.IH" False by simp
    qed
  qed
  show ?thesis
  proof (cases "c = CHR ''0''")
    case True
    then have "n = 0" using zero cu by simp
    then have "nat_str n = [char_of (48 + n)]" by (subst nat_str.simps) simp
    then have "nat_str n = [c]" using cu by simp
    then show ?thesis using True by (simp add: lex_int_def)
  next
    case False
    have "digits_of (nat_str n) = nat_str n" "after_digits (nat_str n) = []"
      using all by (simp_all add: digits_of_def after_digits_def list_all_iff takeWhile_eq_all_conv)
    then show ?thesis using False all cu by (simp add: lex_int_def)
  qed
qed

lemma lex_int_str: "lex_number (int_str n) = Some (int_str n, False, [])"
proof -
  have u: "lex_unsigned (nat_str m) = Some (nat_str m, False, [])" for m
    by (simp add: lex_unsigned_def nat_str_lex lex_frac_def lex_exp_def)
  have "hd (nat_str m) \<noteq> CHR ''-''" for m
    using nat_str_digits [of m] by (cases "nat_str m") (auto simp: is_digit_def)
  then show ?thesis
    using u [of "nat n"] u [of "nat (- n)"] nat_str_nonempty [of "nat n"]
    by (cases "nat_str (nat n)") (auto simp: lex_number_def int_str_def, metis list.sel(1))
qed

lemma py_int_str:
  assumes "int_printable n"
  shows "py_int (int_str n) = Some n"
proof (cases "n < 0")
  case False
  then show ?thesis
    using assms py_int_nat_str [of "nat n"] by (simp add: int_printable_def int_str_def)
next
  case True
  let ?m = "nat (- n)"
  have "length (nat_str ?m) \<le> MAX_STR_DIGITS" using assms True by (simp add: int_printable_def)
  moreover have "filter is_digit (nat_str ?m) = nat_str ?m"
    using nat_str_digits [of ?m] by (simp add: list_all_iff)
  ultimately have "unsigned_value (nat_str ?m) = Some ?m"
    by (simp add: unsigned_value_def digits_value_nat_str)
  moreover have "strip (CHR ''-'' # nat_str ?m) = CHR ''-'' # nat_str ?m"
  proof (rule strip_id)
    have "is_digit (last (nat_str ?m))" using nat_str_digits [of ?m] by (simp add: list_all_iff)
    moreover have "\<not> is_space CHR ''-''" by (simp add: is_space_def)
    ultimately show "CHR ''-'' # nat_str ?m = [] \<or> \<not> is_space (hd (CHR ''-'' # nat_str ?m))
        \<and> \<not> is_space (last (CHR ''-'' # nat_str ?m))"
      by (simp add: digit_not_space)
  qed
  ultimately show ?thesis using True by (simp add: py_int_def int_str_def)
qed

section \<open>Reading what was written: values\<close>

text \<open>
  The values Python can hold in this form: a finite float has a float's literal as its \<^verbatim>\<open>repr\<close>, which
  reads back as the same float; integers small enough to print; distinct keys.
\<close>

definition float_literal :: "string \<Rightarrow> bool" where
  "float_literal r \<longleftrightarrow> lex_number r = Some (r, True, [])"

fun float_ok :: "(string \<Rightarrow> pyfloat) \<Rightarrow> pyfloat \<Rightarrow> bool" where
  "float_ok F (Finite r n) \<longleftrightarrow> float_literal r \<and> F r = Finite r n"
| "float_ok F NaN \<longleftrightarrow> True"
| "float_ok F (Infinite negative) \<longleftrightarrow> True"

fun json_ok :: "(string \<Rightarrow> pyfloat) \<Rightarrow> json \<Rightarrow> bool" where
  "json_ok F JNull \<longleftrightarrow> True"
| "json_ok F (JBool b) \<longleftrightarrow> True"
| "json_ok F (JInt n) \<longleftrightarrow> int_printable n"
| "json_ok F (JFloat x) \<longleftrightarrow> float_ok F x"
| "json_ok F (JStr s) \<longleftrightarrow> True"
| "json_ok F (JList vs) \<longleftrightarrow> list_all (json_ok F) vs"
| "json_ok F (JObj kvs) \<longleftrightarrow> distinct (map fst kvs) \<and> list_all (\<lambda>kv. json_ok F (snd kv)) kvs"

lemma json_ok_printable: "json_ok F v \<Longrightarrow> ints_printable v"
  by (induction v rule: ints_printable.induct) (auto simp: list_all_iff)

lemma scan_number_int: "int_printable n \<Longrightarrow> stops t \<Longrightarrow> scan_number F (int_str n @ t) = Found (JInt n) t"
  using lex_number_append [OF lex_int_str, of t n] py_int_str by (simp add: scan_number_def)

lemma scan_number_float:
  "float_literal r \<Longrightarrow> stops t \<Longrightarrow> scan_number F (r @ t) = Found (JFloat (F r)) t"
  using lex_number_append [of r r True "[]" t] by (simp add: float_literal_def scan_number_def)

text \<open>Where a written value starts: never with white space or a closing bracket.\<close>

definition starts :: "string \<Rightarrow> bool" where
  "starts s \<longleftrightarrow> (\<exists>c u. s = c # u \<and> \<not> json_space c \<and> c \<noteq> CHR '']'' \<and> c \<noteq> CHR ''}'')"

lemma starts_number: "lex_number s = Some x \<Longrightarrow> starts s"
  by (drule lex_number_head, elim disjE exE conjE)
    (auto simp: starts_def digit_chars, simp_all add: json_space_def)

lemma starts_json_string: "starts (json_string s @ t)"
  by (simp add: starts_def json_string_def dquote_def json_space_def)

lemma starts_append: "starts s \<Longrightarrow> starts (s @ t)"
  by (auto simp: starts_def)

lemma json_text_starts: "json_ok F v \<Longrightarrow> starts (json_text v)"
proof (cases v)
  case (JFloat x)
  assume "json_ok F v"
  with JFloat show ?thesis
    using starts_number by (cases x) (auto simp: float_literal_def, auto simp: starts_def json_space_def)
qed (use starts_number [OF lex_int_str] starts_json_string [of _ "[]"] in \<open>auto simp: starts_def json_space_def\<close>)

lemma skip_starts: "starts s \<Longrightarrow> skip_space s = s"
  by (auto simp: starts_def skip_space_def)

lemma skip_simps [simp]:
  "skip_space [] = []" "skip_space (CHR '']'' # t) = CHR '']'' # t" "skip_space (CHR ''}'' # t) = CHR ''}'' # t"
  "skip_space (CHR '','' # t) = CHR '','' # t" "skip_space (CHR '':'' # t) = CHR '':'' # t"
  by (simp_all add: skip_space_def json_space_def)

lemma update_new_key: "k \<notin> fst ` set kvs \<Longrightarrow> AList.update k v kvs = kvs @ [(k, v)]"
  by (induction kvs) auto

text \<open>A value of the induction: it reads back, whatever follows it.\<close>

definition reads_back :: "(string \<Rightarrow> pyfloat) \<Rightarrow> json \<Rightarrow> bool" where
  "reads_back F v \<longleftrightarrow> (\<forall>k t. stops t \<longrightarrow> 2 * length (json_text v) + 1 \<le> k \<longrightarrow>
     scan_once F k (json_text v @ t) = Found v t)"

lemma reads_backD:
  "reads_back F v \<Longrightarrow> stops t \<Longrightarrow> 2 * length (json_text v) + 1 \<le> k \<Longrightarrow>
    scan_once F k (json_text v @ t) = Found v t"
  by (simp add: reads_back_def)

lemma scan_written_elements:
  assumes "vs \<noteq> []" "\<forall>v \<in> set vs. reads_back F v \<and> starts (json_text v)"
    and "2 * length (join '','' (map json_text vs)) + 2 \<le> k"
  shows "scan_elements F k ws (join '','' (map json_text vs) @ CHR '']'' # t) = Found (JList (ws @ vs)) t"
  using assms
proof (induction vs arbitrary: k ws)
  case (Cons v vs)
  then obtain j where k: "k = Suc j" by (cases k) auto
  show ?case
  proof (cases vs)
    case Nil
    have "scan_once F j (json_text v @ CHR '']'' # t) = Found v (CHR '']'' # t)"
      using Cons.prems Nil k by (intro reads_backD) simp_all
    then show ?thesis using Nil k by simp
  next
    case more: (Cons w us)
    let ?rest = "join '','' (map json_text vs)"
    have written: "join '','' (map json_text (v # vs)) = json_text v @ CHR '','' # ?rest" using more by simp
    have one: "scan_once F j (json_text v @ CHR '','' # ?rest @ CHR '']'' # t) = Found v (CHR '','' # ?rest @ CHR '']'' # t)"
      using Cons.prems written k by (intro reads_backD) simp_all
    have "starts ?rest" using Cons.prems(2) more by (cases us) (auto simp: starts_append)
    then have skip: "skip_space (?rest @ CHR '']'' # t) = ?rest @ CHR '']'' # t" by (intro skip_starts starts_append)
    have "scan_elements F j (ws @ [v]) (?rest @ CHR '']'' # t) = Found (JList ((ws @ [v]) @ vs)) t"
      using Cons.prems written k by (intro Cons.IH) (simp_all add: more)
    then show ?thesis using k one skip unfolding written by simp
  qed
qed simp

abbreviation member_text :: "string \<times> json \<Rightarrow> string" where
  "member_text kv \<equiv> json_string (fst kv) @ '':'' @ json_text (snd kv)"

lemma scan_written_members:
  assumes "kvs \<noteq> []" "\<forall>kv \<in> set kvs. reads_back F (snd kv) \<and> starts (json_text (snd kv))"
    and "2 * length (join '','' (map member_text kvs)) + 2 \<le> k"
    and "distinct (map fst (ms @ kvs))"
  shows "scan_members F k ms (join '','' (map member_text kvs) @ CHR ''}'' # t) = Found (JObj (ms @ kvs)) t"
  using assms
proof (induction kvs arbitrary: k ms)
  case (Cons kv kvs)
  then obtain j where k: "k = Suc j" by (cases k) auto
  obtain key v where kv: "kv = (key, v)" by fastforce
  have upd: "AList.update key v ms = ms @ [kv]"
    unfolding kv by (rule update_new_key) (use Cons.prems(4) in \<open>auto simp: kv\<close>)
  have read_key: "scan_string (concat (map json_escape key) @ dquote # u) = Found key u" for u
    by (rule scan_json_string)
  have value_starts: "starts (json_text v)" using Cons.prems(2) kv by simp
  have skip_value: "skip_space (json_text v @ u) = json_text v @ u" for u
    using value_starts by (intro skip_starts starts_append)
  show ?case
  proof (cases kvs)
    case Nil
    have "scan_once F j (json_text v @ CHR ''}'' # t) = Found v (CHR ''}'' # t)"
      using Cons.prems Nil k kv by (intro reads_backD) simp_all
    then show ?thesis
      using Nil k kv upd read_key skip_value by (simp add: json_string_def)
  next
    case more: (Cons kv2 us)
    let ?rest = "join '','' (map member_text kvs)"
    have written: "join '','' (map member_text (kv # kvs)) = member_text kv @ CHR '','' # ?rest" using more by simp
    have one: "scan_once F j (json_text v @ CHR '','' # ?rest @ CHR ''}'' # t) = Found v (CHR '','' # ?rest @ CHR ''}'' # t)"
      using Cons.prems written k kv by (intro reads_backD) simp_all
    have "starts ?rest" using more by (cases us) (auto intro: starts_json_string)
    then have skip: "skip_space (?rest @ CHR ''}'' # t) = ?rest @ CHR ''}'' # t" by (intro skip_starts starts_append)
    have "scan_members F j (ms @ [kv]) (?rest @ CHR ''}'' # t) = Found (JObj ((ms @ [kv]) @ kvs)) t"
      using Cons.prems written k by (intro Cons.IH) (simp_all add: more)
    then show ?thesis
      using k kv one skip upd read_key skip_value unfolding written by (simp add: json_string_def)
  qed
qed simp

text \<open>An atom: a value whose text starts like no string, array or object.\<close>

lemma reads_back_atom:
  assumes "json_text v = c # u" "c \<notin> {dquote, CHR ''['', CHR ''{''}"
    and "\<And>t. stops t \<Longrightarrow> scan_atom F (c # u @ t) = Found v t"
  shows "reads_back F v"
  unfolding reads_back_def
proof (intro allI impI)
  fix k t assume "stops t" "2 * length (json_text v) + 1 \<le> k"
  then show "scan_once F k (json_text v @ t) = Found v t" using assms by (cases k) auto
qed

lemma reads_back_number:
  assumes "lex_number (json_text v) = Some x" "\<And>t. stops t \<Longrightarrow> scan_number F (json_text v @ t) = Found v t"
  shows "reads_back F v"
proof -
  obtain c u where cu: "json_text v = c # u" "c \<notin> {dquote, CHR ''['', CHR ''{''}"
    using lex_number_head [OF assms(1)] by (auto simp: digit_chars) (simp add: dquote_def)+
  obtain l fl r where x: "x = (l, fl, r)" by (cases x)
  have "scan_atom F (json_text v @ t) = Found v t" if "stops t" for t
    using scan_atom_number [OF lex_number_append [OF assms(1) [unfolded x] that]] assms(2) [OF that] by simp
  then show ?thesis using reads_back_atom [OF cu] cu(1) by simp
qed

lemma reads_back_list:
  assumes "\<forall>v \<in> set vs. reads_back F v \<and> starts (json_text v)"
  shows "reads_back F (JList vs)"
  unfolding reads_back_def
proof (intro allI impI)
  fix k t assume len: "2 * length (json_text (JList vs)) + 1 \<le> k"
  then obtain j where k: "k = Suc j" by (cases k) auto
  show "scan_once F k (json_text (JList vs) @ t) = Found (JList vs) t"
  proof (cases "vs = []")
    case True
    then show ?thesis using k by (simp add: dquote_def)
  next
    case False
    let ?elems = "join '','' (map json_text vs)"
    obtain w us where vs: "vs = w # us" using False by (cases vs) auto
    then have "starts ?elems" using assms by (cases us) (auto simp: starts_append)
    then have "starts (?elems @ CHR '']'' # t)" by (rule starts_append)
    then obtain c u where cu: "?elems @ CHR '']'' # t = c # u" "c \<noteq> CHR '']''" "\<not> json_space c"
      by (auto simp: starts_def)
    have "scan_elements F j [] (?elems @ CHR '']'' # t) = Found (JList ([] @ vs)) t"
      using len k by (intro scan_written_elements False assms) simp
    then show ?thesis using k cu by (simp add: dquote_def skip_space_def)
  qed
qed

lemma reads_back_object:
  assumes "\<forall>kv \<in> set kvs. reads_back F (snd kv) \<and> starts (json_text (snd kv))" "distinct (map fst kvs)"
  shows "reads_back F (JObj kvs)"
  unfolding reads_back_def
proof (intro allI impI)
  fix k t assume len: "2 * length (json_text (JObj kvs)) + 1 \<le> k"
  then obtain j where k: "k = Suc j" by (cases k) auto
  show "scan_once F k (json_text (JObj kvs) @ t) = Found (JObj kvs) t"
  proof (cases "kvs = []")
    case True
    then show ?thesis using k by (simp add: dquote_def)
  next
    case False
    let ?members = "join '','' (map member_text kvs)"
    obtain kv us where "kvs = kv # us" using False by (cases kvs) auto
    then obtain u where cu: "?members @ CHR ''}'' # t = dquote # u"
      by (cases us) (simp_all add: json_string_def)
    have "scan_members F j [] (?members @ CHR ''}'' # t) = Found (JObj ([] @ kvs)) t"
      using len k assms(2) by (intro scan_written_members False assms(1)) simp_all
    then show ?thesis using k cu by (simp add: dquote_def skip_space_def json_space_def)
  qed
qed

lemma json_reads_back: "json_ok F v \<Longrightarrow> reads_back F v"
proof (induction v rule: json_text.induct)
  case 1
  show ?case by (rule reads_back_atom [of _ "CHR ''n''" "''ull''"]) (simp_all add: dquote_def scan_atom_def)
next
  case (2 b)
  show ?case
    by (cases b)
      (rule reads_back_atom [of _ "CHR ''t''" "''rue''"], simp_all add: dquote_def scan_atom_def,
       rule reads_back_atom [of _ "CHR ''f''" "''alse''"], simp_all add: dquote_def scan_atom_def)
next
  case (3 n)
  then show ?case by (intro reads_back_number [of _ "(int_str n, False, [])"]) (simp_all add: lex_int_str scan_number_int)
next
  case (4 x)
  show ?case
  proof (cases x)
    case (Finite r n)
    then have "float_literal r" "F r = Finite r n" using 4 by simp_all
    then show ?thesis
      unfolding Finite by (intro reads_back_number [of _ "(r, True, [])"]) (simp_all add: scan_number_float, simp add: float_literal_def)
  next
    case NaN
    show ?thesis unfolding NaN
      by (rule reads_back_atom [of _ "CHR ''N''" "''aN''"]) (simp_all add: dquote_def scan_atom_def)
  next
    case (Infinite negative)
    show ?thesis unfolding Infinite
      by (cases negative)
        (rule reads_back_atom [of _ "CHR ''-''" "''Infinity''"], simp_all add: dquote_def scan_atom_def,
         rule reads_back_atom [of _ "CHR ''I''" "''nfinity''"], simp_all add: dquote_def scan_atom_def)
  qed
next
  case (5 s)
  show ?case
    unfolding reads_back_def
  proof (intro allI impI)
    fix k t assume "2 * length (json_text (JStr s)) + 1 \<le> k"
    then show "scan_once F k (json_text (JStr s) @ t) = Found (JStr s) t"
      using scan_json_string [of s t] by (cases k) (simp_all add: json_string_def)
  qed
next
  case (6 vs)
  then show ?case by (intro reads_back_list) (auto simp: list_all_iff json_text_starts)
next
  case (7 kvs)
  then show ?case by (intro reads_back_object) (auto simp: list_all_iff json_text_starts)
qed

text \<open>\<^verbatim>\<open>json.loads\<close> undoes \<^verbatim>\<open>json.dumps\<close>.\<close>

lemma json_loads_text:
  assumes "json_ok F v"
  shows "json_loads F (json_text v) = Found v []"
proof -
  have "scan_once F (json_fuel (json_text v)) (json_text v @ []) = Found v []"
    by (rule reads_backD [OF json_reads_back [OF assms]]) (simp_all add: json_fuel_def)
  then show ?thesis using skip_starts [OF json_text_starts [OF assms]] by (simp add: json_loads_def)
qed

section \<open>What is read is well-formed\<close>

text \<open>
  The machine's reading of float literals: a finite result prints as a float's literal that reads as
  the same float (\<^verbatim>\<open>float(repr(x)) == x\<close>).
\<close>

definition float_sound :: "(string \<Rightarrow> pyfloat) \<Rightarrow> bool" where
  "float_sound F \<longleftrightarrow> (\<forall>l r n. F l = Finite r n \<longrightarrow> float_literal r \<and> F r = Finite r n)"

lemma float_sound_ok: "float_sound F \<Longrightarrow> float_ok F (F l)"
  by (cases "F l") (auto simp: float_sound_def)

lemma nat_str_length: "n < 10 ^ d \<Longrightarrow> 0 < d \<Longrightarrow> length (nat_str n) \<le> d"
proof (induction n arbitrary: d rule: nat_str.induct)
  case (1 n)
  show ?case
  proof (cases "n < 10")
    case True
    then show ?thesis using "1.prems" by (subst nat_str.simps) simp
  next
    case False
    obtain e where d: "d = Suc e" using "1.prems" by (cases d) auto
    then have "0 < e" using "1.prems"(1) False by (cases e) auto
    moreover have "n div 10 < 10 ^ e" using "1.prems"(1) d by (simp add: less_mult_imp_div_less mult.commute)
    ultimately have "length (nat_str (n div 10)) \<le> e" using "1.IH" False by blast
    then show ?thesis using False d by (subst nat_str.simps) simp
  qed
qed

lemma digits_value_bound:
  "digits_value acc b s = Some n \<Longrightarrow> n < (acc + 1) * 10 ^ length (filter is_digit s)"
proof (induction acc b s rule: digits_value.induct)
  case (2 acc b c s)
  show ?case
  proof (cases "is_digit c")
    case True
    then have d: "ord c - 48 \<le> 9" by (auto simp: is_digit_def)
    have "n < (acc * 10 + (ord c - 48) + 1) * 10 ^ length (filter is_digit s)"
      using 2 True by simp
    also have "\<dots> \<le> ((acc + 1) * 10) * 10 ^ length (filter is_digit s)"
      using d by (intro mult_right_mono) simp_all
    finally show ?thesis using True by (simp add: algebra_simps)
  next
    case False
    then show ?thesis using 2 by (auto split: if_splits)
  qed
qed (auto split: if_splits)

lemma unsigned_value_length:
  assumes "unsigned_value s = Some n"
  shows "length (nat_str n) \<le> MAX_STR_DIGITS"
proof (rule nat_str_length)
  have "n < 10 ^ length (filter is_digit s)" and len: "length (filter is_digit s) \<le> MAX_STR_DIGITS"
    using assms digits_value_bound [of 0 False s n] by (auto simp: unsigned_value_def split: if_splits)
  then show "n < 10 ^ MAX_STR_DIGITS"
    by (meson less_le_trans one_le_numeral power_increasing)
qed (simp add: MAX_STR_DIGITS_def)

lemma py_int_printable: "py_int s = Some n \<Longrightarrow> int_printable n"
  using unsigned_value_length
  by (auto simp: py_int_def int_printable_def split: list.splits if_splits)

lemma scan_atom_ok: "float_sound F \<Longrightarrow> scan_atom F s = Found v r \<Longrightarrow> json_ok F v"
  by (auto simp: scan_atom_def scan_number_def float_sound_ok py_int_printable
      split: if_splits option.splits bool.splits)

lemma update_ok:
  assumes "distinct (map fst kvs)" "list_all (\<lambda>kv. json_ok F (snd kv)) kvs" "json_ok F v"
  shows "distinct (map fst (AList.update k v kvs))" "list_all (\<lambda>kv. json_ok F (snd kv)) (AList.update k v kvs)"
proof -
  show "distinct (map fst (AList.update k v kvs))" by (rule distinct_update [OF assms(1)])
  show "list_all (\<lambda>kv. json_ok F (snd kv)) (AList.update k v kvs)"
    using assms(2,3) by (induction kvs) auto
qed

lemma scanners_ok:
  assumes "float_sound F"
  shows "scan_once F k s = Found v r \<Longrightarrow> json_ok F v"
    "scan_elements F k vs s = Found v r \<Longrightarrow> list_all (json_ok F) vs \<Longrightarrow> json_ok F v"
    "scan_members F k kvs s = Found v r \<Longrightarrow> distinct (map fst kvs) \<Longrightarrow>
      list_all (\<lambda>kv. json_ok F (snd kv)) kvs \<Longrightarrow> json_ok F v"
  using assms
proof (induction F k s and F k vs s and F k kvs s arbitrary: v r and v r and v r
    rule: scan_once_scan_elements_scan_members.induct)
  case (2 F k s)
  then show ?case
    by (auto simp: map_scanned_Found scan_atom_ok split: list.splits if_splits)
next
  case (4 F k vs s)
  then obtain w r1 where w: "scan_once F k s = Found w r1" by (auto split: scanned.splits)
  then have ok: "json_ok F w" using 4 by blast
  show ?case using 4 w ok by (auto split: list.splits if_splits)
next
  case (6 F k kvs s)
  then obtain s1 key r0 where s: "s = dquote # s1" and key: "scan_string s1 = Found key r0"
    by (auto split: list.splits if_splits scanned.splits)
  then obtain r1 where r1: "skip_space r0 = CHR '':'' # r1"
    using "6.prems" by (auto split: list.splits if_splits)
  then obtain w r2 where w: "scan_once F k (skip_space r1) = Found w r2"
    using "6.prems" s key by (auto split: scanned.splits)
  then obtain d r3 where d: "skip_space r2 = d # r3" using "6.prems" s key r1 by (auto split: list.splits)
  have ok: "json_ok F w" using "6.IH"(1) [OF s _ key r1 _ w] "6.prems"(4) by simp
  note upd = update_ok [OF "6.prems"(2,3) ok, of key]
  show ?case
  proof (cases "d = CHR ''}''")
    case True
    then show ?thesis using "6.prems" s key r1 w d upd by auto
  next
    case False
    then have comma: "d = CHR '',''" and rec: "scan_members F k (AList.update key w kvs) (skip_space r3) = Found v r"
      using "6.prems" s key r1 w d by (auto split: if_splits)
    from "6.IH"(2) [OF s _ key r1 _ w d False comma rec] show ?thesis using upd "6.prems"(4) by simp
  qed
qed simp_all

lemma json_loads_ok: "float_sound F \<Longrightarrow> json_loads F s = Found v r \<Longrightarrow> json_ok F v"
  by (auto simp: json_loads_def scanners_ok split: scanned.splits if_splits)

end
