(* ===== verification/Json_Properties.thy ===== *)
theory Json_Properties
  imports Json_Text Crypto_Properties
begin

text \<open>
  The properties of encrypted JSON fields: they read back equal, also after a change of keys; within the
  model, what is read from one can be written again, and the scanner ends.
\<close>

definition sample_float :: "string \<Rightarrow> pyfloat" where
  "sample_float l = (if l = ''1.5'' then Finite ''1.5'' 1 else NaN)"

lemma sample_float_literal: "float_literal ''1.5''"
  by (simp add: float_literal_def lex_number_def lex_unsigned_def lex_int_def lex_frac_def lex_exp_def
      digits_of_def after_digits_def is_digit_def)

lemma sample_float_sound: "float_sound sample_float"
  using sample_float_literal by (auto simp: float_sound_def sample_float_def split: if_splits)

definition sample_json :: json where
  "sample_json = JObj [(''n'', JInt (- 12)), (''quote'', JStr [CHR 0x22, CHR 0x0A]),
     (''list'', JList [JFloat (Finite ''1.5'' 1), JNull, JObj [], JBool True])]"

lemma sample_json_ok: "json_ok sample_float sample_json"
proof -
  have "length (nat_str 12) = 2" by (simp add: nat_str.simps)
  then have "int_printable (- 12)" by (simp add: int_printable_def MAX_STR_DIGITS_def)
  then show ?thesis by (simp add: sample_json_def sample_float_literal) (simp add: sample_float_def)
qed

lemma json_field_reads:
  assumes "aead_correct A" "keyring_ok ring" "keyring_ok ring'" "keeps_keys ring ring'"
    and "length nonce = NONCE_BYTES" "json_ok F v"
  shows "\<exists>stored. encrypt_json A (Inr ring) nonce v = Inr stored
    \<and> (stored = None \<longleftrightarrow> v = JNull) \<and> pred_option is_encrypted_value stored
    \<and> decrypt_json_field A F (Inr ring) None stored = Inr (Some v)
    \<and> decrypt_json_field A F (Inr ring') None stored = Inr (Some v)"
proof (cases "v = JNull")
  case True
  then show ?thesis by (simp add: encrypt_json_def decrypt_json_field_def)
next
  case False
  have dumps: "json_dumps v = Inr (json_text v)"
    using json_ok_printable [OF assms(6)] by (simp add: json_dumps_def)
  obtain env where env: "encrypt_text A (Inr ring) None None nonce (Some (json_text v)) = Inr (Some env)"
    using encrypt_active_ok [OF _ assms(2), of None "Inr ring" None A nonce "json_text v"]
    by (auto simp: ring_of_def)
  have enc: "encrypt_json A (Inr ring) nonce v = Inr (Some env)"
    using False dumps env by (simp add: encrypt_json_def)
  obtain i key where key: "map_of (keys ring) i = Some key"
    "env = envelope i nonce (gcm_encrypt A key nonce (utf8_encode (json_text v)))"
    using encrypt_text_SomeD [OF env] by (auto simp: ring_of_def)
  then have key': "map_of (keys ring') i = Some key"
    using assms(4) map_of_SomeD by (fastforce simp: keeps_keys_def)
  have dec: "decrypt_text A (Inr r) None env = Inr (json_text v)"
    if "keyring_ok r" "map_of (keys r) i = Some key" for r
    unfolding key(2) using that by (intro decrypt_envelope [OF assms(1) _ _ _ assms(5)]) (simp_all add: ring_of_def)
  have "is_encrypted_value env" by (rule encrypt_is_encrypted [OF env])
  then show ?thesis
    using enc dec [OF assms(2) key(1)] dec [OF assms(3) key'] False json_loads_text [OF assms(6)]
    by (simp add: decrypt_json_field_def)
qed

text \<open>C34: a JSON value stored with encrypt_json is None exactly for None and otherwise an envelope, and decrypt_json_field gives back the same value, with the keys of its objects in the same order, under the keyring it was written with and under every later one that kept its keys.\<close>

theorem json_field_roundtrip:
  assumes "aead_correct A" "keyring_ok ring" "keyring_ok ring'" "keeps_keys ring ring'"
    and "length nonce = NONCE_BYTES" "json_ok F v"
  shows "\<exists>stored. encrypt_json A (Inr ring) nonce v = Inr stored
    \<and> (stored = None \<longleftrightarrow> v = JNull) \<and> pred_option is_encrypted_value stored
    \<and> decrypt_json_field A F (Inr ring) None stored = Inr (Some v)
    \<and> decrypt_json_field A F (Inr ring') None stored = Inr (Some v)"
  by (rule json_field_reads [OF assms])

lemma json_field_roundtrip_witness:
  "\<exists>env. encrypt_json sample_aead (Inr sample_ring) sample_nonce sample_json = Inr (Some env)
    \<and> decrypt_json_field sample_aead sample_float (Inr rotated_ring) None (Some env) = Inr (Some sample_json)"
proof -
  have kept: "keeps_keys sample_ring rotated_ring"
    by (simp add: keeps_keys_def sample_ring_def rotated_ring_def)
  have n: "length sample_nonce = NONCE_BYTES" by (simp add: sample_nonce_def NONCE_BYTES_def)
  obtain stored where s: "encrypt_json sample_aead (Inr sample_ring) sample_nonce sample_json = Inr stored"
    "stored = None \<longleftrightarrow> sample_json = JNull"
    "decrypt_json_field sample_aead sample_float (Inr rotated_ring) None stored = Inr (Some sample_json)"
    using json_field_roundtrip [OF sample_aead_correct sample_ring_ok rotated_ring_ok kept n sample_json_ok] by blast
  have "sample_json \<noteq> JNull" by (simp add: sample_json_def)
  with s show ?thesis by (cases stored) auto
qed

text \<open>What decrypt_json_field returns within the model (a text with an escape above 255, such as a lone surrogate, which json.loads accepts and encrypt_json cannot encode, is outside it) has distinct keys in every object, integers within the interpreter's limit and floats that print as they read, so encrypting it again succeeds and gives a field that reads as the same value.\<close>

lemma json_field_canonical:
  assumes "aead_correct A" "keyring_ok ring" "length nonce = NONCE_BYTES" "float_sound F"
    and "decrypt_json_field A F (Inr ring) None stored = Inr (Some v)"
  shows "json_ok F v \<and> (\<exists>stored'. encrypt_json A (Inr ring) nonce v = Inr stored'
    \<and> decrypt_json_field A F (Inr ring) None stored' = Inr (Some v))"
proof -
  have ok: "json_ok F v"
    using assms(5) json_loads_ok [OF assms(4)]
    by (auto simp: decrypt_json_field_def split: option.splits if_splits sum.splits scanned.splits)
  have "keeps_keys ring ring"
    using assms(2) by (auto simp: keeps_keys_def keyring_ok_def keys_ok_def)
  from json_field_reads [OF assms(1,2,2) this assms(3) ok] ok show ?thesis by blast
qed

text \<open>A field written by hand: spaces, an escape and a repeated key.\<close>

definition sample_text :: string where
  "sample_text = ''{ '' @ [CHR 0x22] @ ''a'' @ [CHR 0x22] @ '' : [ 1.5 ] , '' @ [CHR 0x22, CHR 0x5C] @ ''u0061'' @ [CHR 0x22]
     @ '':null}''"

definition sample_stored :: "string option" where
  "sample_stored = Some (envelope ''k1'' sample_nonce
     (gcm_encrypt sample_aead sample_key sample_nonce (utf8_encode sample_text)))"

lemma sample_text_loads: "json_loads sample_float sample_text = Found (JObj [(''a'', JNull)]) []"
  by code_simp

lemma json_field_canonical_witness:
  "decrypt_json_field sample_aead sample_float (Inr sample_ring) None sample_stored = Inr (Some (JObj [(''a'', JNull)]))
    \<and> (\<exists>stored'. encrypt_json sample_aead (Inr sample_ring) sample_nonce (JObj [(''a'', JNull)]) = Inr stored')"
proof -
  have n: "length sample_nonce = NONCE_BYTES" by (simp add: sample_nonce_def NONCE_BYTES_def)
  have "decrypt_text sample_aead (Inr sample_ring) None (the sample_stored) = Inr sample_text"
    unfolding sample_stored_def option.sel
    by (rule decrypt_envelope [OF sample_aead_correct _ sample_ring_ok _ n]) (simp_all add: ring_of_def sample_ring_def)
  then have "decrypt_json_field sample_aead sample_float (Inr sample_ring) None sample_stored
      = Inr (Some (JObj [(''a'', JNull)]))"
    by (simp add: decrypt_json_field_def sample_stored_def is_encrypted_envelope sample_text_loads)
  with json_field_canonical [OF sample_aead_correct sample_ring_ok n sample_float_sound this] show ?thesis by blast
qed

text \<open>The model of the scanner of json.loads ends on every text, well-formed or not: the fuel it starts with, twice the length of the text and one, is never used up, and any more of it gives the same value, the same rest or the same error.\<close>

lemma json_scan_terminates:
  "json_loads F s \<noteq> NoFuel
    \<and> scan_once F (json_fuel s + k) (skip_space s) = scan_once F (json_fuel s) (skip_space s)"
  using json_loads_fuel json_loads_enough [of s "json_fuel s + k"] by (intro conjI) simp_all

end
