(* ===== verification/Worker_Pool.thy ===== *)
theory Worker_Pool
  imports Service_Config
begin

text \<open>
  \<^verbatim>\<open>run_blocking_io\<close> of \<^verbatim>\<open>utils/async_utils.py\<close> on the process-wide \<^verbatim>\<open>ThreadPoolExecutor\<close>: a handler submits
  a blocking call and awaits it; at most \<^verbatim>\<open>max_workers\<close> calls run at a time, the others wait in the
  order of their submission. Calls are numbered; what a call returns or raises is chosen when it ends.
\<close>

record 'a workers =
  wk_executor :: "int option"
  wk_queue :: "nat list"
  wk_running :: "nat list"
  wk_results :: "(nat \<times> 'a result) list"
  wk_next :: nat

definition no_workers :: "'a workers" where
  "no_workers = \<lparr>wk_executor = None, wk_queue = [], wk_running = [], wk_results = [], wk_next = 0\<rparr>"

text \<open>
  Entering \<^verbatim>\<open>run_blocking_io\<close>: the executor is made on first use, with the size the environment asks for
  then; the call gets the next number. A free worker takes the oldest waiting call; a running call
  ends with a value or an exception, which is what its \<^verbatim>\<open>await\<close> gives.
\<close>

definition run_blocking_io :: "environ \<Rightarrow> 'a workers \<Rightarrow> nat \<times> 'a workers" where
  "run_blocking_io env s =
     (let (width, executor) = get_executor env (wk_executor s); i = wk_next s
      in (i, s\<lparr>wk_executor := executor, wk_queue := wk_queue s @ [i], wk_next := i + 1\<rparr>))"

definition take_call :: "'a workers \<Rightarrow> 'a workers option" where
  "take_call s =
     (case (wk_executor s, wk_queue s) of
        (Some width, i # waiting) \<Rightarrow>
          if int (length (wk_running s)) < width
          then Some (s\<lparr>wk_queue := waiting, wk_running := wk_running s @ [i]\<rparr>) else None
      | _ \<Rightarrow> None)"

definition end_call :: "nat \<Rightarrow> 'a result \<Rightarrow> 'a workers \<Rightarrow> 'a workers option" where
  "end_call i r s =
     (if i \<in> set (wk_running s)
      then Some (s\<lparr>wk_running := remove1 i (wk_running s), wk_results := wk_results s @ [(i, r)]\<rparr>)
      else None)"

text \<open>What a caller that awaits call \<open>i\<close> sees: nothing yet, or the outcome.\<close>

definition awaited :: "nat \<Rightarrow> 'a workers \<Rightarrow> 'a result option" where
  "awaited i s = map_of (wk_results s) i"

section \<open>Runs\<close>

text \<open>The steps of the pool by itself, and with submissions, each under the environment of its moment.\<close>

inductive pool_step :: "'a workers \<Rightarrow> 'a workers \<Rightarrow> bool" where
  takes: "take_call s = Some s' \<Longrightarrow> pool_step s s'"
| ends: "end_call i r s = Some s' \<Longrightarrow> pool_step s s'"

inductive pool_reachable :: "'a workers \<Rightarrow> bool" where
  start: "pool_reachable no_workers"
| submit: "pool_reachable s \<Longrightarrow> pool_reachable (snd (run_blocking_io env s))"
| works: "pool_reachable s \<Longrightarrow> pool_step s s' \<Longrightarrow> pool_reachable s'"

lemma take_call_Some:
  assumes "take_call s = Some s'"
  obtains width i waiting where "wk_executor s = Some width" "wk_queue s = i # waiting"
    "int (length (wk_running s)) < width"
    "s' = s\<lparr>wk_queue := waiting, wk_running := wk_running s @ [i]\<rparr>"
  using assms by (auto simp: take_call_def split: option.splits list.splits if_splits)

lemma end_call_Some:
  assumes "end_call i r s = Some s'"
  obtains "i \<in> set (wk_running s)"
    "s' = s\<lparr>wk_running := remove1 i (wk_running s), wk_results := wk_results s @ [(i, r)]\<rparr>"
  using assms by (auto simp: end_call_def split: if_splits)

section \<open>The invariant\<close>

text \<open>
  Every submitted call is waiting, running or ended, and only one of these; no more calls run than the
  executor has workers; the waiting calls are the latest, in order.
\<close>

definition pool_at :: "nat \<Rightarrow> 'a workers \<Rightarrow> bool" where
  "pool_at first s \<longleftrightarrow>
     (case wk_executor s of
        None \<Rightarrow> wk_next s = 0
      | Some width \<Rightarrow> 1 \<le> width \<and> int (length (wk_running s)) \<le> width)
     \<and> distinct (map fst (wk_results s) @ wk_running s)
     \<and> first \<le> wk_next s \<and> wk_queue s = [first ..< wk_next s]
     \<and> set (map fst (wk_results s) @ wk_running s) = {0 ..< first}"

definition pool_ok :: "'a workers \<Rightarrow> bool" where
  "pool_ok s \<longleftrightarrow> (\<exists>first. pool_at first s)"

lemma no_workers_ok: "pool_ok no_workers"
  by (simp add: pool_ok_def pool_at_def no_workers_def)

lemma get_executor_width: "get_executor env ex = (width, ex') \<Longrightarrow>
    ex' = Some width \<and> (case ex of None \<Rightarrow> width = get_max_workers env | Some n \<Rightarrow> width = n)"
  by (auto simp: get_executor_def split: option.splits)

lemma run_blocking_io_at:
  assumes "pool_at first s"
  shows "pool_at first (snd (run_blocking_io env s))"
proof -
  obtain width ex where ex: "get_executor env (wk_executor s) = (width, ex)" by fastforce
  have running: "wk_running s = []" if "wk_executor s = None"
    using assms that by (auto simp: pool_at_def)
  have "1 \<le> width \<and> int (length (wk_running s)) \<le> width"
    using get_executor_width [OF ex] assms running get_max_workers_positive [of env]
    by (cases "wk_executor s") (simp_all add: pool_at_def)
  then show ?thesis
    using get_executor_width [OF ex] assms by (simp add: run_blocking_io_def ex pool_at_def Let_def)
qed

lemma take_call_at:
  assumes "pool_at first s" "take_call s = Some s'"
  shows "pool_at (Suc first) s'"
  using assms(2)
proof (rule take_call_Some)
  fix width i waiting
  assume s: "wk_executor s = Some width" "wk_queue s = i # waiting" "int (length (wk_running s)) < width"
    "s' = s\<lparr>wk_queue := waiting, wk_running := wk_running s @ [i]\<rparr>"
  have q: "i # waiting = [first ..< wk_next s]" and set: "set (map fst (wk_results s) @ wk_running s) = {0 ..< first}"
    using assms(1) s(2) by (simp_all add: pool_at_def)
  have lt: "first < wk_next s" using q by (cases "first < wk_next s") simp_all
  then have i: "i = first" "waiting = [Suc first ..< wk_next s]" using q by (simp_all add: upt_conv_Cons)
  have "set (map fst (wk_results s) @ wk_running s @ [i]) = {0 ..< Suc first}"
    using set i(1) by (simp add: atLeast0_lessThan_Suc Un_insert_right)
  moreover have "i \<notin> set (map fst (wk_results s) @ wk_running s)" unfolding set i(1) by simp
  ultimately show ?thesis using assms(1) s i lt by (simp add: pool_at_def)
qed

lemma end_call_at:
  assumes "pool_at first s" "end_call i r s = Some s'"
  shows "pool_at first s'"
  using assms(2)
proof (rule end_call_Some)
  assume s: "i \<in> set (wk_running s)"
    "s' = s\<lparr>wk_running := remove1 i (wk_running s), wk_results := wk_results s @ [(i, r)]\<rparr>"
  have d: "distinct (map fst (wk_results s) @ wk_running s)" using assms(1) by (simp add: pool_at_def)
  have "set (map fst (wk_results s') @ wk_running s') = set (map fst (wk_results s) @ wk_running s)"
    using s d by (auto simp: set_remove1_eq)
  moreover have "distinct (map fst (wk_results s') @ wk_running s')"
    using s d by (auto simp: set_remove1_eq)
  moreover have "length (wk_running s') \<le> length (wk_running s)" using s by (simp add: length_remove1)
  moreover have "wk_executor s' = wk_executor s" "wk_queue s' = wk_queue s" "wk_next s' = wk_next s"
    using s(2) by simp_all
  ultimately show ?thesis using assms(1) by (cases "wk_executor s") (simp_all add: pool_at_def)
qed

lemma pool_step_ok: "pool_step s s' \<Longrightarrow> pool_ok s \<Longrightarrow> pool_ok s'"
  by (induction rule: pool_step.induct) (auto simp: pool_ok_def intro: take_call_at end_call_at)

lemma pool_reachable_ok: "pool_reachable s \<Longrightarrow> pool_ok s"
  by (induction rule: pool_reachable.induct) (auto simp: no_workers_ok intro: pool_step_ok, auto simp: pool_ok_def intro: run_blocking_io_at)

section \<open>Every call ends\<close>

definition pool_work :: "'a workers \<Rightarrow> nat" where
  "pool_work s = 2 * length (wk_queue s) + length (wk_running s)"

lemma pool_step_work: "pool_step s s' \<Longrightarrow> Suc (pool_work s') = pool_work s"
proof (induction rule: pool_step.induct)
  case (takes s s')
  then show ?case by (rule take_call_Some) (simp add: pool_work_def)
next
  case (ends i r s s')
  then show ?case
    by (rule end_call_Some)
      (cases "wk_running s", auto simp: pool_work_def length_remove1 dest: length_pos_if_in_set)
qed

lemma pool_steps_work: "(pool_step ^^ n) s s' \<Longrightarrow> n + pool_work s' = pool_work s"
  by (induction n arbitrary: s') (fastforce dest: pool_step_work)+

text \<open>While a call has not ended, a worker can take one or a running one can end.\<close>

lemma pool_progress:
  assumes "pool_ok s" "pool_work s \<noteq> 0"
  shows "\<exists>s'. pool_step s s'"
proof (cases "wk_running s")
  case Nil
  then obtain i waiting where q: "wk_queue s = i # waiting"
    using assms(2) by (cases "wk_queue s") (auto simp: pool_work_def)
  then obtain width where "wk_executor s = Some width" "1 \<le> width"
    using assms(1) by (auto simp: pool_ok_def pool_at_def split: option.splits)
  then have "take_call s \<noteq> None" using q Nil by (simp add: take_call_def)
  then show ?thesis using pool_step.takes by blast
next
  case (Cons i rest)
  then have "end_call i (Inl KeyError) s \<noteq> None" by (simp add: end_call_def)
  then show ?thesis using pool_step.ends by blast
qed

section \<open>Properties\<close>

lemma pool_idle_all_ended:
  assumes "pool_ok s" "pool_work s = 0" "i < wk_next s"
  shows "\<exists>r. awaited i s = Some r"
proof -
  obtain first where f: "pool_at first s" using assms(1) by (auto simp: pool_ok_def)
  then have "wk_queue s = []" "wk_running s = []" "wk_next s \<le> first"
    using assms(2) by (auto simp: pool_work_def pool_at_def)
  then have "i \<in> fst ` set (wk_results s)" using f assms(3) by (simp add: pool_at_def)
  then show ?thesis
    by (cases "map_of (wk_results s) i") (auto simp: awaited_def map_of_eq_None_iff)
qed

text \<open>An outcome once seen stays.\<close>

lemma awaited_stable:
  assumes "awaited i s = Some r" "pool_ok s" "pool_step s s'"
  shows "awaited i s' = Some r"
  using assms(3,1)
proof (induction rule: pool_step.induct)
  case (takes s s')
  from takes(1) show ?case by (rule take_call_Some) (use takes in \<open>simp add: awaited_def\<close>)
next
  case (ends j q s s')
  from ends(1) show ?case by (rule end_call_Some) (use ends in \<open>simp add: awaited_def map_add_Some_iff\<close>)
qed

lemma pool_drains:
  assumes "pool_ok s"
  shows "\<exists>s'. (pool_step ^^ pool_work s) s s' \<and> pool_ok s' \<and> pool_work s' = 0"
  using assms
proof (induction "pool_work s" arbitrary: s)
  case 0
  then show ?case by (intro exI [of _ s]) simp
next
  case (Suc n)
  then obtain t where t: "pool_step s t" using pool_progress [of s] by auto
  then have "pool_ok t" "pool_work t = n"
    using Suc pool_step_ok pool_step_work [OF t] by auto
  from Suc.hyps(1) [OF this(2) [symmetric] this(1)] obtain u where
    u: "(pool_step ^^ n) t u" "pool_ok u" "pool_work u = 0" using \<open>pool_work t = n\<close> by auto
  have "(pool_step ^^ Suc n) s u" using t u(1) by (rule relpowp_Suc_I2)
  then show ?case using u Suc.hyps(2) by auto
qed

end
