(* ===== verification/Worker_Properties.thy ===== *)
theory Worker_Properties
  imports Worker_Pool
begin

text \<open>
  Lemmas on the model of the executor behind \<^verbatim>\<open>run_blocking_io\<close>: how much runs at a time, and that it does
  not get stuck when the submitted callables end.
\<close>

section \<open>Blocking calls\<close>

text \<open>In the model of the executor, the worker pool, however submissions, starts and ends interleave and whatever the environment says at each moment: it never runs more calls than the executor's size, which is at least one and fixed at first use; every submitted call is waiting, running or ended and only one of these; and calls start in the order of their submission.\<close>

lemma blocking_calls_bounded:
  assumes "pool_reachable s"
  shows "(case wk_executor s of
      None \<Rightarrow> wk_next s = 0
    | Some width \<Rightarrow> 1 \<le> width \<and> int (length (wk_running s)) \<le> width
        \<and> wk_executor (snd (run_blocking_io env s)) = Some width)
    \<and> distinct (map fst (wk_results s) @ wk_running s @ wk_queue s)
    \<and> set (map fst (wk_results s) @ wk_running s @ wk_queue s) = {0 ..< wk_next s}
    \<and> wk_queue s = [wk_next s - length (wk_queue s) ..< wk_next s]"
proof -
  obtain first where f: "pool_at first s" using pool_reachable_ok [OF assms] by (auto simp: pool_ok_def)
  have size: "case wk_executor s of
      None \<Rightarrow> wk_next s = 0
    | Some width \<Rightarrow> 1 \<le> width \<and> int (length (wk_running s)) \<le> width
        \<and> wk_executor (snd (run_blocking_io env s)) = Some width"
    using f by (cases "wk_executor s") (simp_all add: pool_at_def run_blocking_io_def get_executor_def Let_def)
  have q: "wk_queue s = [first ..< wk_next s]" "first \<le> wk_next s" and d: "distinct (map fst (wk_results s) @ wk_running s)"
    and started: "set (map fst (wk_results s) @ wk_running s) = {0 ..< first}"
    using f by (simp_all add: pool_at_def)
  have all: "set ((map fst (wk_results s) @ wk_running s) @ wk_queue s) = {0 ..< wk_next s}"
    by (simp only: set_append [of "map fst (wk_results s) @ wk_running s"] started q(1)) (use q(2) in auto)
  have dist: "distinct ((map fst (wk_results s) @ wk_running s) @ wk_queue s)"
    unfolding distinct_append [of "map fst (wk_results s) @ wk_running s"] started using d q(1) by auto
  show ?thesis using size all dist q by simp
qed

definition one_worker :: environ where
  "one_worker = [''FINGERPRINTHUB_BLOCKING_IO_MAX_WORKERS'' \<mapsto> ''0'']"

definition two_calls :: "unit workers" where
  "two_calls = the (take_call (snd (run_blocking_io one_worker (snd (run_blocking_io one_worker no_workers)))))"

lemma one_worker_width: "get_max_workers one_worker = 1"
  by (simp add: get_max_workers_def one_worker_def) code_simp

lemma two_calls_eval: "two_calls = \<lparr>wk_executor = Some 1, wk_queue = [1], wk_running = [0], wk_results = [], wk_next = 2\<rparr>"
  by (simp add: two_calls_def run_blocking_io_def no_workers_def get_executor_def one_worker_width take_call_def)

lemma two_calls_reachable: "pool_reachable two_calls"
proof -
  let ?s = "snd (run_blocking_io one_worker (snd (run_blocking_io one_worker no_workers))) :: unit workers"
  have "take_call ?s = Some two_calls"
    by (simp add: two_calls_def run_blocking_io_def no_workers_def get_executor_def one_worker_width take_call_def)
  then have "pool_step ?s two_calls" by (rule pool_step.takes)
  then show ?thesis
    by (rule pool_reachable.works [OF pool_reachable.submit [OF pool_reachable.submit [OF pool_reachable.start]]])
qed

lemma blocking_calls_bounded_witness:
  "wk_executor (snd (run_blocking_io (\<lambda>_. None) two_calls)) = Some 1 \<and> distinct (wk_running two_calls @ wk_queue two_calls)"
  using blocking_calls_bounded [OF two_calls_reachable, of "\<lambda>_. None"]
  by (simp add: two_calls_eval [THEN arg_cong [of _ _ wk_executor]])

text \<open>The model of the executor does not get stuck, as long as the submitted callables end: from any state of the pool, a run of it without new submissions has at most two steps per waiting call and one per running call; while a call has not ended the pool can go on, and when none is left every submitted call's await has its value or its exception.\<close>

lemma blocking_calls_end:
  assumes "pool_reachable s" "(pool_step ^^ n) s s'"
  shows "n \<le> 2 * length (wk_queue s) + length (wk_running s)
    \<and> ((\<exists>t. pool_step s' t) \<or> (\<forall>i. \<not> i < wk_next s' \<or> (\<exists>r. awaited i s' = Some r)))"
proof -
  have "pool_ok s'"
    using assms(2) pool_reachable_ok [OF assms(1)]
    by (induction n arbitrary: s') (auto intro: pool_step_ok)
  then show ?thesis
    using pool_steps_work [OF assms(2)] pool_progress [of s'] pool_idle_all_ended [of s']
    by (auto simp: pool_work_def)
qed

lemma blocking_calls_end_witness:
  "\<exists>s'. pool_step two_calls s' \<and> 1 \<le> 2 * length (wk_queue two_calls) + length (wk_running two_calls)"
proof -
  have "pool_step two_calls (the (end_call 0 (Inr ()) two_calls))"
    by (rule pool_step.ends [of 0 "Inr ()"]) (simp add: end_call_def two_calls_eval)
  moreover from this have "(pool_step ^^ 1) two_calls (the (end_call 0 (Inr ()) two_calls))"
    by (simp only: relpowp_1)
  ultimately show ?thesis using blocking_calls_end [OF two_calls_reachable] by blast
qed

end
