(* ===== verification/Error_Log.thy ===== *)
theory Error_Log
  imports Http_App
begin

text \<open>
  The error log of a request: the decorator \<^verbatim>\<open>handle_errors\<close> of \<^verbatim>\<open>api/errors.py\<close> around each handler, the
  records of the error middleware, and serving with both. Only records of level \<^verbatim>\<open>ERROR\<close> are followed;
  the warnings of the handlers and the debug record of a failed last-seen update are not.
\<close>

section \<open>Logging functions\<close>

text \<open>aiohttp's own exceptions are answers; every other one is an error.\<close>

fun http_exception :: "exn \<Rightarrow> bool" where
  "http_exception (HTTPForbidden body) = True"
| "http_exception HTTPRequestEntityTooLarge = True"
| "http_exception _ = False"

definition handler_record :: "string \<Rightarrow> exn \<Rightarrow> log_record" where
  "handler_record name e = \<lparr>lg_name = ''api.errors'', lg_level = ERROR, lg_message = ErrorIn name e\<rparr>"

definition app_record :: "string \<Rightarrow> string \<Rightarrow> exn \<Rightarrow> log_record" where
  "app_record http_method path e = \<lparr>lg_name = ''api.app'', lg_level = ERROR, lg_message =
     (if e = OperationalError then DatabaseUnavailable http_method path
      else UnhandledError http_method path)\<rparr>"

definition handle_errors :: "string \<Rightarrow> 'a result \<Rightarrow> 'a result \<times> log_record list" where
  "handle_errors name outcome =
     (case outcome of
        Inr x \<Rightarrow> (outcome, [])
      | Inl e \<Rightarrow>
          if http_exception e then (outcome, [])
          else (outcome, [handler_record name e]))"

definition error_records :: "string \<Rightarrow> string \<Rightarrow> response result \<Rightarrow> log_record list" where
  "error_records http_method path outcome =
     (case outcome of
        Inr resp \<Rightarrow> []
      | Inl e \<Rightarrow> if http_exception e then [] else [app_record http_method path e])"

section \<open>Serving with the log\<close>

text \<open>The names of the decorated functions.\<close>

fun handler_name :: "endpoint \<Rightarrow> string" where
  "handler_name Health = ''health''"
| "handler_name Sync = ''sync_fingerprints''"
| "handler_name Stats = ''stats''"
| "handler_name Contribute = ''contribute_fingerprint''"
| "handler_name Browse = ''list_fingerprints''"
| "handler_name Hit = ''report_hit''"
| "handler_name Flag = ''flag_fingerprint''"
| "handler_name Detail = ''get_fingerprint''"
| "handler_name Delete = ''delete_fingerprint''"

definition route_endpoint :: "matched_route \<Rightarrow> endpoint option" where
  "route_endpoint route = (case route of Unmatched st \<Rightarrow> None | Matched mp \<Rightarrow> map_of ROUTES mp)"

definition dispatch_logged ::
  "service \<Rightarrow> surroundings \<Rightarrow> matched_route \<Rightarrow> consumer_view option \<Rightarrow> request \<Rightarrow> db
   \<Rightarrow> response result \<times> db \<times> log_record list"
where
  "dispatch_logged sv t route consumer rq db =
     (case dispatch sv t route consumer rq db of
        (r, db1) \<Rightarrow>
          (case route_endpoint route of
             None \<Rightarrow> (r, db1, [])
           | Some e \<Rightarrow> (case handle_errors (handler_name e) r of (r1, recs) \<Rightarrow> (r1, db1, recs))))"

text \<open>
  The authentication middleware up to its call of the handler: an outcome without a handler, or the
  consumer the handler runs for.
\<close>

definition authenticate ::
  "int \<Rightarrow> surroundings \<Rightarrow> request \<Rightarrow> limiter \<Rightarrow> db
   \<Rightarrow> (response result + consumer_view option) \<times> limiter \<times> db"
where
  "authenticate rate_limit t rq L db =
     (if rq_path rq \<in> set PUBLIC_PATHS then (Inr None, L, db)
      else
        (case rq_api_key rq of
           None \<Rightarrow> (Inl (Inr (error_response ''missing X-API-Key'' 401)), L, db)
         | Some api_key \<Rightarrow>
             if api_key = [] then (Inl (Inr (error_response ''missing X-API-Key'' 401)), L, db)
             else
               (case find_by_key_hash (su_up t 0) (hash_api_key api_key) db of
                  Inl e \<Rightarrow> (Inl (Inl e), L, db)
                | Inr None \<Rightarrow> (Inl (Inr (error_response ''invalid or disabled API key'' 401)), L, db)
                | Inr (Some consumer) \<Rightarrow>
                    if \<not> cv_enabled consumer
                    then (Inl (Inr (error_response ''invalid or disabled API key'' 401)), L, db)
                    else
                      (let (limited, L1) = rate_limited rate_limit (cv_id consumer) (su_monotonic t) L in
                       if limited then (Inl (Inr (error_response ''rate limit exceeded'' 429)), L1, db)
                       else
                         (let (L2, db1) = mark_last_seen t consumer L1 db
                          in (Inr (Some consumer), L2, db1))))))"

definition serve_logged ::
  "service \<Rightarrow> surroundings \<Rightarrow> matched_route \<Rightarrow> string \<Rightarrow> request \<Rightarrow> limiter \<Rightarrow> db
   \<Rightarrow> response \<times> limiter \<times> db \<times> log_record list"
where
  "serve_logged sv t route http_method rq L db =
     (case authenticate (rate_limit_per_minute (sv_config sv)) t rq L db of
        (Inl r, L1, db1) \<Rightarrow> (error_middleware r, L1, db1, error_records http_method (rq_path rq) r)
      | (Inr consumer, L1, db1) \<Rightarrow>
          (case dispatch_logged sv t route consumer rq db1 of
             (r, db2, recs) \<Rightarrow>
               (error_middleware r, L1, db2, recs @ error_records http_method (rq_path rq) r)))"

section \<open>Logging changes nothing\<close>

lemma auth_middleware_authenticate:
  "auth_middleware rl handler t rq L db =
     (case authenticate rl t rq L db of
        (Inl r, L1, db1) \<Rightarrow> (r, L1, db1)
      | (Inr consumer, L1, db1) \<Rightarrow> (case handler consumer rq db1 of (r, db2) \<Rightarrow> (r, L1, db2)))"
  by (simp add: auth_middleware_def authenticate_def Let_def split: option.split sum.split prod.split)

lemma handle_errors_fst [simp]: "fst (handle_errors name r) = r"
  by (simp add: handle_errors_def split: sum.split)

lemma dispatch_logged_drop:
  "dispatch_logged sv t route c rq db = (r, db1, recs) \<Longrightarrow> dispatch sv t route c rq db = (r, db1)"
  by (cases "dispatch sv t route c rq db")
    (auto simp: dispatch_logged_def case_prod_unfold split: option.splits)

lemma serve_logged_serve:
  assumes "serve_logged sv t route m rq L db = (resp, L1, db1, recs)"
  shows "serve sv t route rq L db = (resp, L1, db1)"
  using assms
  by (auto simp: serve_logged_def serve_def auth_middleware_authenticate split: prod.splits sum.splits
      dest: dispatch_logged_drop)

section \<open>Which answers are errors\<close>

text \<open>A handler itself never answers 500 or 503, except the health check, which answers \<open>degraded\<close>.\<close>

definition degraded :: response where
  "degraded = json_response (JObj [(''status'', JStr ''degraded''), (''db'', JBool False)]) 503"

lemma refusal_status:
  "list_consumer c rq = Inl r \<Longrightarrow> rs_status r < 500"
  "contribution_of_body c now d = Inl r \<Longrightarrow> rs_status r < 500"
  "parse_json_body rq = Inr (Refused r) \<Longrightarrow> rs_status r < 500"
  by (auto simp: list_consumer_def contribution_of_body_def parse_json_body_def Let_def
      split: option.splits if_splits body_read.splits json.splits)

lemma endpoint_status:
  assumes "endpoint_handler e sv t c rq db = (Inr r, db')"
  shows "rs_status r < 500 \<or> r = degraded"
  using assms refusal_status
  by (cases e)
    (auto simp: handler_defs health_def degraded_def Let_def split: sum.splits option.splits prod.splits
      if_splits parsed_body.splits)

lemma dispatch_runs:
  assumes "route_endpoint route = Some e"
  shows "dispatch sv t route c rq db = (Inl KeyError, db)
    \<or> (\<exists>v. dispatch sv t route c rq db = endpoint_handler e sv t v rq db)"
  using assms by (cases route; cases e; cases c) (auto simp: dispatch_def route_endpoint_def)

lemma dispatch_unmatched:
  "route_endpoint route = None \<Longrightarrow> dispatch sv t route c rq db
    = (Inr \<lparr>rs_status = (case route of Unmatched st \<Rightarrow> st | Matched mp \<Rightarrow> 404), rs_payload = Text []\<rparr>, db)"
  by (cases route) (simp_all add: dispatch_def route_endpoint_def)

lemma dispatch_status:
  assumes "dispatch sv t route c rq db = (Inr r, db')" "\<And>st. route = Unmatched st \<Longrightarrow> st < 500"
  shows "rs_status r < 500 \<or> r = degraded"
proof (cases "route_endpoint route")
  case None
  then show ?thesis using assms by (auto simp: dispatch_unmatched split: matched_route.splits)
next
  case (Some e)
  then show ?thesis
    using dispatch_runs [OF Some, of sv t c rq db] assms(1) endpoint_status [of e sv t _ rq db r db'] by auto
qed

lemma dispatch_raises:
  "dispatch sv t route c rq db = (Inl e, db') \<Longrightarrow> \<exists>ep. route_endpoint route = Some ep"
  using dispatch_unmatched by (cases "route_endpoint route") auto

lemma authenticate_outcome:
  assumes "authenticate rl t rq L db = (Inl r, L1, db1)"
  shows "(case r of Inl e \<Rightarrow> L1 = L \<and> db1 = db \<and> \<not> http_exception e | Inr resp \<Rightarrow> rs_status resp < 500)"
proof -
  have raised: "\<not> http_exception e" if "find_by_key_hash up h db = Inl e" for up h e
    using that by (auto simp: find_by_key_hash_def split: if_splits)
  then show ?thesis
    using assms
    by (auto simp: authenticate_def Let_def split: if_splits option.splits sum.splits prod.splits)
qed

lemma emitted_errors: "emitted level [app_record m p e] = (if level \<le> ERROR then [app_record m p e] else [])"
  "emitted level [handler_record n f, app_record m p e]
    = (if level \<le> ERROR then [handler_record n f, app_record m p e] else [])"
  "emitted level [] = []"
  by (simp_all add: emitted_def app_record_def handler_record_def)

section \<open>What a request leaves on the log\<close>

text \<open>The generic answer to an exception, which tells the client nothing of it.\<close>

definition failure_answer :: "exn \<Rightarrow> response" where
  "failure_answer e =
     (if e = OperationalError then error_response ''database temporarily unavailable'' 503
      else error_response ''internal server error'' 500)"

lemma error_middleware_failure: "\<not> http_exception e \<Longrightarrow> error_middleware (Inl e) = failure_answer e"
  by (cases e) (simp_all add: error_middleware_def failure_answer_def)

lemma failure_status: "500 \<le> rs_status (failure_answer e)" "failure_answer e \<noteq> degraded"
  by (simp_all add: failure_answer_def degraded_def error_response_def)

lemma http_exception_status: "http_exception e \<Longrightarrow> rs_status (error_middleware (Inl e)) < 500"
  by (cases e) (simp_all add: error_middleware_def)

text \<open>An answer that is no failure leaves no record; a failure leaves the ones of \<open>failed\<close>.\<close>

definition quiet :: "response \<Rightarrow> log_record list \<Rightarrow> bool" where
  "quiet resp recs \<longleftrightarrow> (rs_status resp < 500 \<or> resp = degraded) \<and> recs = []"

lemma quiet_middleware:
  "rs_status a < 500 \<or> a = degraded \<Longrightarrow> quiet (error_middleware (Inr a)) (error_records m p (Inr a))"
  "http_exception e \<Longrightarrow> quiet (error_middleware (Inl e)) (error_records m p (Inl e))"
  using http_exception_status [of e] by (auto simp: quiet_def error_middleware_def error_records_def)

lemma handled_records:
  assumes "dispatch_logged sv t route c rq db = (r, db1, recs)"
    and "\<And>st. route = Unmatched st \<Longrightarrow> st < 500"
  shows "quiet (error_middleware r) (recs @ error_records m p r)
    \<or> (\<exists>e ep. \<not> http_exception e \<and> route_endpoint route = Some ep \<and> error_middleware r = failure_answer e
        \<and> recs @ error_records m p r = [handler_record (handler_name ep) e, app_record m p e])"
proof -
  have d: "dispatch sv t route c rq db = (r, db1)" by (rule dispatch_logged_drop [OF assms(1)])
  have recs: "recs = (case route_endpoint route of None \<Rightarrow> []
      | Some e \<Rightarrow> snd (handle_errors (handler_name e) r))"
    using assms(1) d by (auto simp: dispatch_logged_def case_prod_unfold split: option.splits)
  show ?thesis
  proof (cases r)
    case (Inr a)
    then have "recs = []" by (simp add: recs handle_errors_def split: option.split)
    then show ?thesis using quiet_middleware(1) dispatch_status [OF d [unfolded Inr] assms(2)] Inr by simp
  next
    case (Inl e)
    obtain ep where ep: "route_endpoint route = Some ep" using dispatch_raises d Inl by blast
    show ?thesis
    proof (cases "http_exception e")
      case True
      then show ?thesis using quiet_middleware(2) [of e m p] ep by (simp add: Inl recs handle_errors_def)
    next
      case False
      then have "recs @ error_records m p r = [handler_record (handler_name ep) e, app_record m p e]"
        using ep by (simp add: Inl recs handle_errors_def error_records_def)
      then show ?thesis using False ep error_middleware_failure [OF False] Inl by blast
    qed
  qed
qed

lemma early_records:
  assumes "authenticate rl t rq L db = (Inl r, L1, db1)"
  shows "quiet (error_middleware r) (error_records m p r)
    \<or> (\<exists>e. \<not> http_exception e \<and> error_middleware r = failure_answer e \<and> error_records m p r = [app_record m p e]
        \<and> L1 = L \<and> db1 = db)"
  using authenticate_outcome [OF assms] quiet_middleware(1)
  by (cases r) (auto simp: error_middleware_failure error_records_def)

lemma serve_records:
  assumes "serve_logged sv t route m rq L db = (resp, L1, db1, recs)"
    and "\<And>st. route = Unmatched st \<Longrightarrow> st < 500"
  shows "quiet resp recs
    \<or> (\<exists>e. \<not> http_exception e \<and> resp = failure_answer e
        \<and> (recs = [app_record m (rq_path rq) e] \<and> L1 = L \<and> db1 = db
          \<or> (\<exists>ep. route_endpoint route = Some ep
              \<and> recs = [handler_record (handler_name ep) e, app_record m (rq_path rq) e])))"
proof -
  obtain out L2 db2 where auth: "authenticate (rate_limit_per_minute (sv_config sv)) t rq L db = (out, L2, db2)"
    by (cases "authenticate (rate_limit_per_minute (sv_config sv)) t rq L db") auto
  show ?thesis
  proof (cases out)
    case (Inl r)
    then show ?thesis
      using assms(1) early_records [of _ t rq L db r L2 db2 m "rq_path rq", OF auth [unfolded Inl]]
      by (auto simp: serve_logged_def auth)
  next
    case (Inr c)
    obtain r db3 recs1 where d: "dispatch_logged sv t route c rq db2 = (r, db3, recs1)"
      by (cases "dispatch_logged sv t route c rq db2") auto
    then show ?thesis
      using assms(1) Inr handled_records [OF d assms(2), of m "rq_path rq"]
      by (auto simp: serve_logged_def auth)
  qed
qed

end
