(* ===== verification/Log_Properties.thy ===== *)
theory Log_Properties
  imports Error_Log Api_Properties
begin

text \<open>
  The properties of the error log: every failure a client sees is on it, and nothing else; and what a
  misspelt log level does to the start.
\<close>

section \<open>Errors are logged\<close>

text \<open>C29: errors are logged: logging never changes an answer, the limiter or the database. An answer below 500, and the health check's degraded one, leave no error record. Every other answer is the generic 500 or 503, which depends on the exception only through its being an outage, and leaves the record of the error middleware with the method and the path, after the record of handle_errors with the handler's name and the exception when it was raised in a handler; when it was raised before, no state changed. Whatever level the environment sets, these records are emitted unless it is above ERROR.\<close>

theorem errors_logged:
  assumes "serve_logged sv t route http_method rq L db = (resp, L1, db1, recs)"
    and "\<And>st. route = Unmatched st \<Longrightarrow> st < 500"
    and "setup_logging env = Inr level"
  shows "serve sv t route rq L db = (resp, L1, db1)
    \<and> emitted level recs = (if level = 50 then [] else recs)
    \<and> (if rs_status resp < 500 \<or> resp = degraded then recs = []
       else \<exists>e. \<not> http_exception e \<and> resp = failure_answer e
         \<and> (recs = [app_record http_method (rq_path rq) e] \<and> L1 = L \<and> db1 = db
            \<or> (\<exists>ep. route_endpoint route = Some ep
                \<and> recs = [handler_record (handler_name ep) e, app_record http_method (rq_path rq) e])))"
proof -
  have level: "level \<le> ERROR \<longleftrightarrow> level \<noteq> 50"
    using setup_logging_level [OF assms(3)] by (auto simp: ERROR_def)
  note same = serve_logged_serve [OF assms(1)]
  from serve_records [OF assms(1,2)] consider "quiet resp recs"
    | e where "\<not> http_exception e" "resp = failure_answer e" "recs = [app_record http_method (rq_path rq) e]"
        "L1 = L" "db1 = db"
    | e ep where "\<not> http_exception e" "resp = failure_answer e" "route_endpoint route = Some ep"
        "recs = [handler_record (handler_name ep) e, app_record http_method (rq_path rq) e]"
    by blast
  then show ?thesis
  proof cases
    case 1
    then show ?thesis using same by (simp add: quiet_def emitted_errors)
  next
    case 2
    then show ?thesis using same failure_status [of e] level by (auto simp: emitted_errors)
  next
    case 3
    then show ?thesis using same failure_status [of e] level by (auto simp: emitted_errors)
  qed
qed

definition failing_stats :: "response \<times> limiter \<times> db \<times> log_record list" where
  "failing_stats = serve_logged sample_service (sample_surroundings\<lparr>su_up := (\<lambda>n. n < 2)\<rparr>)
     (Matched (''GET'', ''/v1/fingerprints/stats'')) ''GET'' (sample_request None [] (BodyInvalid []))
     fresh_limiter (keyed_db [''admin''] True)"

lemma errors_logged_witness:
  "\<exists>L1 db1 recs. failing_stats = (failure_answer OperationalError, L1, db1, recs)
    \<and> recs \<noteq> [] \<and> emitted INFO recs = recs"
proof -
  obtain resp L1 db1 recs where run: "failing_stats = (resp, L1, db1, recs)" by (cases failing_stats) auto
  have level: "setup_logging (\<lambda>_. None) = Inr INFO" by (simp add: setup_logging_unset)
  have limit: "rate_limit_per_minute (sv_config sample_service) = 300"
    by (simp add: sample_service_def load_config_from_env_def int_env_unset DEFAULT_RATE_LIMIT_PER_MINUTE_def)
  have auth: "authenticated (sample_request None [] (BodyInvalid [])) (keyed_db [''admin''] True)
      = Some (sample_view 2 [''admin''])" by (simp add: keyed_authenticated)
  have resp: "resp = failure_answer OperationalError"
    using serve_logged_serve [OF run [unfolded failing_stats_def]]
    by (simp add: serve_def authenticated_runs [OF sample_public _ auth] limit rate_limited_def fresh_limiter_def dispatch_def ROUTES_def add_get_def
        stats_handler_def require_scope_def sample_view_def stats_def error_middleware_def failure_answer_def
        Let_def case_prod_unfold)
  have failed: "\<not> (rs_status resp < 500 \<or> resp = degraded)" using failure_status by (simp add: resp not_less)
  from errors_logged [OF run [unfolded failing_stats_def] _ level] failed
  have "emitted INFO recs = recs" "recs \<noteq> []" by (auto simp: INFO_def)
  then show ?thesis using run resp by blast
qed

section \<open>The level\<close>

text \<open>
  A level that names nothing in the logging module falls back to INFO; one that names its default
  format, in any case of letters, ends the process before the configuration is read.
\<close>

lemma unknown_level_is_info:
  "map_of LOGGING_ATTRIBUTES (upper l) = None \<Longrightarrow> env ''FINGERPRINTHUB_LOG_LEVEL'' = Some l \<Longrightarrow>
    setup_logging env = Inr INFO"
  by (simp add: setup_logging_def set_level_def)

lemma format_as_level_stops:
  assumes "env ''FINGERPRINTHUB_LOG_LEVEL'' = Some ''basic_format''"
  shows "\<exists>m. main new_pool_error env expected_heads answers run_app s = (Inl (ValueError m), s)"
proof -
  have "upper ''basic_format'' = ''BASIC_FORMAT''" by code_simp
  then show ?thesis
    using assms
    by (simp add: main_def create_app_from_environment_def setup_logging_def LOGGING_ATTRIBUTES_def set_level_def)
qed

lemma format_as_level_stops_witness:
  "\<exists>m. main (\<lambda>_. None) [''FINGERPRINTHUB_LOG_LEVEL'' \<mapsto> ''basic_format''] [] (Inl OperationalError)
    (\<lambda>_. Inr ()) fresh_process = (Inl (ValueError m), fresh_process)"
  by (rule format_as_level_stops) simp

end
