(* ===== verification/Concurrent_Store.thy ===== *)
theory Concurrent_Store
  imports Hub_System
begin

text \<open>
  The writing functions of \<^verbatim>\<open>api/fingerprint_store.py\<close> statement by statement, on connections that
  work at the same time: \<open>contribute\<close>, \<open>report_hit\<close>, \<open>flag\<close> and \<open>soft_delete\<close>. The database runs them under its
  default isolation level, \<^verbatim>\<open>READ COMMITTED\<close>: a statement sees what is committed when it runs and the
  transaction's own changes; a row that a transaction updates, deletes or selects \<^verbatim>\<open>FOR UPDATE\<close> is its
  own until it ends, and so is a key it inserts; a statement that needs a row or a key of another
  transaction waits for that one to end and then works on what is committed; \<^verbatim>\<open>nextval\<close> is never
  undone. A transaction may be aborted at any moment (a lost connection, a deadlock victim).
\<close>

section \<open>Changes and locks\<close>

text \<open>
  The changes a transaction holds until its commit: new rows, the flags of a fingerprint by consumer
  that a \<^verbatim>\<open>DELETE\<close> found, and new versions of fingerprint rows.
\<close>

datatype effect =
    AddFlag flag_row
  | DropFlags int "int list"
  | AddHit hit_row
  | AddFp fingerprint_row
  | SetFp fingerprint_row

fun apply_effect :: "effect \<Rightarrow> db \<Rightarrow> db" where
  "apply_effect (AddFlag f) db = db\<lparr>fingerprint_flags := fingerprint_flags db @ [f]\<rparr>"
| "apply_effect (DropFlags i cs) db = db\<lparr>fingerprint_flags :=
     filter (\<lambda>f. \<not> (flag_fingerprint_id f = i \<and> flag_consumer_id f \<in> set cs)) (fingerprint_flags db)\<rparr>"
| "apply_effect (AddHit h) db = db\<lparr>fingerprint_hits := fingerprint_hits db @ [h]\<rparr>"
| "apply_effect (AddFp r) db = db\<lparr>fingerprints := fingerprints db @ [r]\<rparr>"
| "apply_effect (SetFp r) db =
     db\<lparr>fingerprints := map (\<lambda>x. if fp_id x = fp_id r then r else x) (fingerprints db)\<rparr>"

definition apply_effects :: "effect list \<Rightarrow> db \<Rightarrow> db" where
  "apply_effects P db = fold apply_effect P db"

text \<open>A fingerprint row by id, a flag by its unique key, a fingerprint's unique key.\<close>

datatype lock = RowLock int | FlagKey int int | HashKey string int

section \<open>Requests and where they are\<close>

text \<open>
  The private texts of a contribution are encrypted before it takes a connection and come with it;
  those of a hit or a flag are encrypted when the \<^verbatim>\<open>INSERT\<close> is executed.
\<close>

datatype request_txn =
    FlagRequest crypto bytes int int "string option" int int
  | HitRequest crypto bytes int int "string option" "int option" int
  | DeleteRequest int int
  | ContributeRequest contribution "string option" "string option" "string option"

datatype answer =
    Flagged "flag_result option"
  | HitCounted "int option"
  | WasDeleted bool
  | Contributed "fingerprint_row option" bool

text \<open>The statement a transaction executes next, with the values of its local variables, or its end.\<close>

datatype point =
    FlagLock | FlagInsert status | FlagCount status | FlagUpdate status int
  | HitLock | HitInsert | HitUpdate
  | DeleteUpdate
  | ContributeSelect | ContributeClear int | ContributeRevive int | ContributeInsert | ContributeReselect
  | Finished answer
  | Failed exn

definition running :: "point \<Rightarrow> bool" where
  "running p \<longleftrightarrow> (case p of Finished a \<Rightarrow> False | Failed e \<Rightarrow> False | _ \<Rightarrow> True)"

section \<open>Statements\<close>

text \<open>
  A statement on the database its transaction sees: the changes, the database whose sequences it
  leaves, and the next point. \<open>flag\<close>: the locking \<^verbatim>\<open>SELECT\<close>, the \<^verbatim>\<open>INSERT\<close>, the count, one of the two updates.
\<close>

fun flag_statement ::
  "crypto \<Rightarrow> bytes \<Rightarrow> int \<Rightarrow> int \<Rightarrow> string option \<Rightarrow> int \<Rightarrow> int \<Rightarrow> point \<Rightarrow> db \<Rightarrow> effect list \<times> db \<times> point"
where
  "flag_statement K nonce i cid reason now threshold FlagLock v =
     (case select_fp i v of
        None \<Rightarrow> ([], v, Finished (Flagged None))
      | Some fp \<Rightarrow> if fp_status fp = Deleted then ([], v, Finished (Flagged None))
                   else ([], v, FlagInsert (fp_status fp)))"
| "flag_statement K nonce i cid reason now threshold (FlagInsert st) v =
     (case encrypt_field K nonce reason of
        Inl e \<Rightarrow> ([], v, Failed e)
      | Inr enc_reason \<Rightarrow>
          (case insert_flag i cid enc_reason now v of
             (Inl e, v1) \<Rightarrow> ([], v1, Failed e)
           | (Inr _, v1) \<Rightarrow>
               (map AddFlag (drop (length (fingerprint_flags v)) (fingerprint_flags v1)), v1, FlagCount st)))"
| "flag_statement K nonce i cid reason now threshold (FlagCount st) v =
     ([], v, FlagUpdate st (count_flaggers i v))"
| "flag_statement K nonce i cid reason now threshold (FlagUpdate st n) v =
     (case select_fp i v of
        None \<Rightarrow> ([], v, Finished (Flagged (Some (if n \<ge> threshold \<and> st = Active
          then \<lparr>fr_flag_count = n, fr_status = Hidden, fr_hidden = True\<rparr>
          else \<lparr>fr_flag_count = n, fr_status = st, fr_hidden = False\<rparr>))))
      | Some r \<Rightarrow>
          if n \<ge> threshold \<and> st = Active
          then
            (let (seq, v1) = nextval_sync v in
             ([SetFp (r\<lparr>fp_status := Hidden, fp_flag_count := n, fp_sync_seq := seq, fp_updated_at_ms := now\<rparr>)],
              v1, Finished (Flagged (Some \<lparr>fr_flag_count = n, fr_status = Hidden, fr_hidden = True\<rparr>))))
          else
            ([SetFp (r\<lparr>fp_flag_count := n, fp_updated_at_ms := now\<rparr>)], v,
             Finished (Flagged (Some \<lparr>fr_flag_count = n, fr_status = st, fr_hidden = False\<rparr>))))"
| "flag_statement K nonce i cid reason now threshold p v = ([], v, p)"

text \<open>\<open>report_hit\<close>: the locking \<^verbatim>\<open>SELECT\<close>, the \<^verbatim>\<open>INSERT\<close>, the update that returns the new count.\<close>

fun hit_statement ::
  "crypto \<Rightarrow> bytes \<Rightarrow> int \<Rightarrow> int \<Rightarrow> string option \<Rightarrow> int option \<Rightarrow> int \<Rightarrow> point \<Rightarrow> db
   \<Rightarrow> effect list \<times> db \<times> point"
where
  "hit_statement K nonce i cid guild distance now HitLock v =
     (case select_fp i v of
        None \<Rightarrow> ([], v, Finished (HitCounted None))
      | Some fp \<Rightarrow> if fp_status fp = Deleted then ([], v, Finished (HitCounted None))
                   else ([], v, HitInsert))"
| "hit_statement K nonce i cid guild distance now HitInsert v =
     (case encrypt_field K nonce guild of
        Inl e \<Rightarrow> ([], v, Failed e)
      | Inr enc_guild \<Rightarrow>
          (case insert_hit i cid enc_guild distance now v of
             (Inl e, v1) \<Rightarrow> ([], v1, Failed e)
           | (Inr _, v1) \<Rightarrow>
               (map AddHit (drop (length (fingerprint_hits v)) (fingerprint_hits v1)), v1, HitUpdate)))"
| "hit_statement K nonce i cid guild distance now HitUpdate v =
     (case select_fp i v of
        None \<Rightarrow> ([], v, Failed TypeError)
      | Some r \<Rightarrow>
          ([SetFp (r\<lparr>fp_hit_count := fp_hit_count r + 1, fp_last_hit_at_ms := Some now\<rparr>)], v,
           Finished (HitCounted (Some (fp_hit_count r + 1)))))"
| "hit_statement K nonce i cid guild distance now p v = ([], v, p)"

text \<open>\<open>soft_delete\<close>: one update.\<close>

fun delete_statement :: "int \<Rightarrow> int \<Rightarrow> point \<Rightarrow> db \<Rightarrow> effect list \<times> db \<times> point" where
  "delete_statement i now DeleteUpdate v =
     (case select_fp i v of
        None \<Rightarrow> ([], v, Finished (WasDeleted False))
      | Some r \<Rightarrow>
          if fp_status r = Deleted then ([], v, Finished (WasDeleted False))
          else
            (let (seq, v1) = nextval_sync v in
             ([SetFp (r\<lparr>fp_status := Deleted, fp_sync_seq := seq, fp_updated_at_ms := now\<rparr>)], v1,
              Finished (WasDeleted True))))"
| "delete_statement i now p v = ([], v, p)"

text \<open>
  \<open>contribute\<close>: the \<^verbatim>\<open>SELECT\<close> by key, which locks nothing; then either the \<^verbatim>\<open>DELETE\<close> of the flags and the
  reviving update, or the \<^verbatim>\<open>INSERT\<close> and, when it lost against another one, the second \<^verbatim>\<open>SELECT\<close>.
\<close>

fun contribute_statement ::
  "contribution \<Rightarrow> string option \<Rightarrow> string option \<Rightarrow> string option \<Rightarrow> point \<Rightarrow> db
   \<Rightarrow> effect list \<times> db \<times> point"
where
  "contribute_statement c er eu eg ContributeSelect v =
     (if \<not> pg_text (con_phash_hex c) then ([], v, Failed DataError)
      else
        (case select_fp_by_phash (con_phash_hex c) (con_consumer_id c) v of
           None \<Rightarrow> ([], v, ContributeInsert)
         | Some existing \<Rightarrow>
             if fp_status existing \<noteq> Deleted then ([], v, Finished (Contributed (Some existing) False))
             else ([], v, ContributeClear (fp_id existing))))"
| "contribute_statement c er eu eg (ContributeClear i) v =
     ([DropFlags i (map flag_consumer_id (filter (\<lambda>f. flag_fingerprint_id f = i) (fingerprint_flags v)))],
      v, ContributeRevive i)"
| "contribute_statement c er eu eg (ContributeRevive i) v =
     (if \<not> list_all pg_text [con_algorithm c, con_algorithm_version c, con_normalization_version c,
             con_category c, con_action c, con_provenance c]
         \<or> \<not> pred_option pg_text eg \<or> \<not> pred_option pg_text er \<or> \<not> pred_option pg_text eu
      then ([], v, Failed DataError)
      else
        (case select_fp i v of
           None \<Rightarrow> ([], v, Finished (Contributed None True))
         | Some r \<Rightarrow>
             (let (seq, v1) = nextval_sync v in
              if con_action c \<notin> set VALID_ACTIONS \<or> con_category c \<notin> set VALID_CATEGORIES
              then ([], v1, Failed CheckViolation)
              else
                (let r1 = resurrect_row c er eu eg seq r
                 in ([SetFp r1], v1, Finished (Contributed (Some r1) True))))))"
| "contribute_statement c er eu eg ContributeInsert v =
     (case insert_fp (new_row c er eu eg) v of
        (Inl e, v1) \<Rightarrow> ([], v1, Failed e)
      | (Inr (Some row), v1) \<Rightarrow>
          (map AddFp (drop (length (fingerprints v)) (fingerprints v1)), v1,
           Finished (Contributed (Some row) True))
      | (Inr None, v1) \<Rightarrow> ([], v1, ContributeReselect))"
| "contribute_statement c er eu eg ContributeReselect v =
     ([], v, Finished (Contributed (select_fp_by_phash (con_phash_hex c) (con_consumer_id c) v) False))"
| "contribute_statement c er eu eg p v = ([], v, p)"

fun start :: "request_txn \<Rightarrow> point" where
  "start (FlagRequest K nonce i cid reason now threshold) = FlagLock"
| "start (HitRequest K nonce i cid guild distance now) = HitLock"
| "start (DeleteRequest i now) = DeleteUpdate"
| "start (ContributeRequest c er eu eg) = ContributeSelect"

fun execute :: "request_txn \<Rightarrow> point \<Rightarrow> db \<Rightarrow> effect list \<times> db \<times> point" where
  "execute (FlagRequest K nonce i cid reason now threshold) p v =
     flag_statement K nonce i cid reason now threshold p v"
| "execute (HitRequest K nonce i cid guild distance now) p v =
     hit_statement K nonce i cid guild distance now p v"
| "execute (DeleteRequest i now) p v = delete_statement i now p v"
| "execute (ContributeRequest c er eu eg) p v = contribute_statement c er eu eg p v"

section \<open>What a statement waits for and what it takes\<close>

text \<open>
  Only rows that exist are locked. An update whose condition no row meets locks nothing. An insert
  that meets the same key waits until it is settled; the id of an inserted row belongs to its
  transaction.
\<close>

definition row_lock :: "int \<Rightarrow> db \<Rightarrow> lock list" where
  "row_lock i v = (if select_fp i v = None then [] else [RowLock i])"

definition flag_locks :: "int \<Rightarrow> int \<Rightarrow> point \<Rightarrow> db \<Rightarrow> lock list \<times> lock list" where
  "flag_locks i cid p v =
     (case p of
        FlagLock \<Rightarrow> ([], row_lock i v)
      | FlagInsert st \<Rightarrow>
          if \<exists>f \<in> set (fingerprint_flags v). flag_fingerprint_id f = i \<and> flag_consumer_id f = cid
          then ([FlagKey i cid], []) else ([], [FlagKey i cid])
      | FlagUpdate st n \<Rightarrow> ([], row_lock i v)
      | _ \<Rightarrow> ([], []))"

definition hit_locks :: "int \<Rightarrow> point \<Rightarrow> db \<Rightarrow> lock list \<times> lock list" where
  "hit_locks i p v =
     (case p of HitLock \<Rightarrow> ([], row_lock i v) | HitUpdate \<Rightarrow> ([], row_lock i v) | _ \<Rightarrow> ([], []))"

definition delete_locks :: "int \<Rightarrow> point \<Rightarrow> db \<Rightarrow> lock list \<times> lock list" where
  "delete_locks i p v =
     (case p of
        DeleteUpdate \<Rightarrow>
          (case select_fp i v of
             None \<Rightarrow> ([], [])
           | Some r \<Rightarrow> if fp_status r = Deleted then ([], []) else ([], [RowLock i]))
      | _ \<Rightarrow> ([], []))"

definition contribute_locks :: "contribution \<Rightarrow> point \<Rightarrow> db \<Rightarrow> lock list \<times> lock list" where
  "contribute_locks c p v =
     (case p of
        ContributeClear i \<Rightarrow> ([], map (\<lambda>f. FlagKey i (flag_consumer_id f))
          (filter (\<lambda>f. flag_fingerprint_id f = i) (fingerprint_flags v)))
      | ContributeRevive i \<Rightarrow> ([], row_lock i v)
      | ContributeInsert \<Rightarrow>
          if select_fp_by_phash (con_phash_hex c) (con_consumer_id c) v \<noteq> None
          then ([HashKey (con_phash_hex c) (con_consumer_id c)], [])
          else ([], [HashKey (con_phash_hex c) (con_consumer_id c), RowLock (fingerprints_id_seq v)])
      | _ \<Rightarrow> ([], []))"

fun wanted :: "request_txn \<Rightarrow> point \<Rightarrow> db \<Rightarrow> lock list \<times> lock list" where
  "wanted (FlagRequest K nonce i cid reason now threshold) p v = flag_locks i cid p v"
| "wanted (HitRequest K nonce i cid guild distance now) p v = hit_locks i p v"
| "wanted (DeleteRequest i now) p v = delete_locks i p v"
| "wanted (ContributeRequest c er eu eg) p v = contribute_locks c p v"

section \<open>Transactions at the same time\<close>

record txn =
  tx_request :: request_txn
  tx_point :: point
  tx_pending :: "effect list"
  tx_locks :: "lock list"

text \<open>\<open>cl_db\<close> is what is committed, with the sequences as they stand.\<close>

record cluster =
  cl_db :: db
  cl_txns :: "nat \<rightharpoonup> txn"

definition begin_txn :: "request_txn \<Rightarrow> txn" where
  "begin_txn rq = \<lparr>tx_request = rq, tx_point = start rq, tx_pending = [], tx_locks = []\<rparr>"

text \<open>The database a transaction sees.\<close>

definition view :: "db \<Rightarrow> txn \<Rightarrow> db" where
  "view db tx = apply_effects (tx_pending tx) db"

definition run_statement :: "nat \<Rightarrow> txn \<Rightarrow> cluster \<Rightarrow> cluster" where
  "run_statement n tx s =
     (let v = view (cl_db s) tx;
          (effs, v1, p) = execute (tx_request tx) (tx_point tx) v;
          (waits, takes) = wanted (tx_request tx) (tx_point tx) v
      in s\<lparr>cl_db := rollback (cl_db s) v1,
           cl_txns := (cl_txns s)(n \<mapsto> tx\<lparr>tx_point := p, tx_pending := tx_pending tx @ effs,
             tx_locks := tx_locks tx @ takes\<rparr>)\<rparr>)"

text \<open>Whether no other transaction holds what the next statement of transaction \<open>n\<close> needs.\<close>

definition unblocked :: "nat \<Rightarrow> txn \<Rightarrow> cluster \<Rightarrow> bool" where
  "unblocked n tx s \<longleftrightarrow>
     (case wanted (tx_request tx) (tx_point tx) (view (cl_db s) tx) of
        (waits, takes) \<Rightarrow>
          (\<forall>m other. cl_txns s m = Some other \<longrightarrow> m \<noteq> n \<longrightarrow> set (tx_locks other) \<inter> set (waits @ takes) = {}))"

definition commit_txn :: "nat \<Rightarrow> txn \<Rightarrow> cluster \<Rightarrow> cluster" where
  "commit_txn n tx s =
     s\<lparr>cl_db := apply_effects (tx_pending tx) (cl_db s), cl_txns := (cl_txns s)(n := None)\<rparr>"

text \<open>Two contributions of one hash by one consumer.\<close>

fun same_key :: "request_txn \<Rightarrow> request_txn \<Rightarrow> bool" where
  "same_key (ContributeRequest c er eu eg) (ContributeRequest d er' eu' eg') \<longleftrightarrow>
     con_phash_hex c = con_phash_hex d \<and> con_consumer_id c = con_consumer_id d"
| "same_key _ _ \<longleftrightarrow> False"

text \<open>Every flag runs with the configured threshold.\<close>

fun fits :: "int \<Rightarrow> request_txn \<Rightarrow> bool" where
  "fits threshold (FlagRequest K nonce i cid reason now th) \<longleftrightarrow> th = threshold"
| "fits threshold _ \<longleftrightarrow> True"

datatype event = Began nat request_txn | Ran nat | Committed nat answer | Aborted nat

text \<open>
  \<open>exclusive\<close> says that no two contributions of one hash by one consumer are under way at the same
  time; the program does not enforce it.
\<close>

inductive concurrent_step :: "bool \<Rightarrow> int \<Rightarrow> cluster \<Rightarrow> event \<Rightarrow> cluster \<Rightarrow> bool" for exclusive threshold where
  begins: "cl_txns s n = None \<Longrightarrow> fits threshold rq \<Longrightarrow>
    (\<And>m tx. exclusive \<Longrightarrow> cl_txns s m = Some tx \<Longrightarrow> \<not> same_key (tx_request tx) rq) \<Longrightarrow>
    concurrent_step exclusive threshold s (Began n rq) (s\<lparr>cl_txns := (cl_txns s)(n \<mapsto> begin_txn rq)\<rparr>)"
| runs: "cl_txns s n = Some tx \<Longrightarrow> running (tx_point tx) \<Longrightarrow> unblocked n tx s \<Longrightarrow>
    concurrent_step exclusive threshold s (Ran n) (run_statement n tx s)"
| commits: "cl_txns s n = Some tx \<Longrightarrow> tx_point tx = Finished a \<Longrightarrow>
    concurrent_step exclusive threshold s (Committed n a) (commit_txn n tx s)"
| aborts: "cl_txns s n = Some tx \<Longrightarrow>
    concurrent_step exclusive threshold s (Aborted n) (s\<lparr>cl_txns := (cl_txns s)(n := None)\<rparr>)"

inductive_cases concurrent_stepE: "concurrent_step exclusive threshold s ev s'"
inductive_cases concurrent_commitE: "concurrent_step exclusive threshold s (Committed n a) s'"

text \<open>From a database at rest, by any interleaving.\<close>

inductive concurrent_reachable :: "bool \<Rightarrow> int \<Rightarrow> db \<Rightarrow> cluster \<Rightarrow> bool" for exclusive threshold db where
  rest: "concurrent_reachable exclusive threshold db \<lparr>cl_db = db, cl_txns = Map.empty\<rparr>"
| step: "concurrent_reachable exclusive threshold db s \<Longrightarrow> concurrent_step exclusive threshold s ev s' \<Longrightarrow>
    concurrent_reachable exclusive threshold db s'"

section \<open>The whole operation\<close>

text \<open>The transaction as one step on the database.\<close>

fun atomic :: "request_txn \<Rightarrow> db \<Rightarrow> answer result \<times> db" where
  "atomic (FlagRequest K nonce i cid reason now threshold) db =
     (case transaction False (flag_txn K nonce i cid reason now threshold) db of
        (r, db1) \<Rightarrow> (map_sum id Flagged r, db1))"
| "atomic (HitRequest K nonce i cid guild distance now) db =
     (case transaction False (report_hit_txn K nonce i cid guild distance now) db of
        (r, db1) \<Rightarrow> (map_sum id HitCounted r, db1))"
| "atomic (DeleteRequest i now) db =
     (case transaction False (soft_delete_txn i now) db of (r, db1) \<Rightarrow> (map_sum id WasDeleted r, db1))"
| "atomic (ContributeRequest c er eu eg) db =
     (case transaction False (contribute_txn c er eu eg) db of
        (r, db1) \<Rightarrow> (map_sum id (\<lambda>(row, created). Contributed row created) r, db1))"

text \<open>A transaction that nobody interrupts: statement after statement on the database it began on.\<close>

definition advance :: "txn \<times> db \<Rightarrow> txn \<times> db" where
  "advance x =
     (let (tx, db) = x; (effs, v1, p) = execute (tx_request tx) (tx_point tx) (view db tx)
      in (tx\<lparr>tx_point := p, tx_pending := tx_pending tx @ effs\<rparr>, rollback db v1))"

definition outcome_alone :: "txn \<times> db \<Rightarrow> answer result \<times> db" where
  "outcome_alone x =
     (case x of (tx, db) \<Rightarrow>
        (case tx_point tx of
           Finished a \<Rightarrow> (Inr a, apply_effects (tx_pending tx) db)
         | Failed e \<Rightarrow> (Inl e, db)
         | _ \<Rightarrow> (Inl (RuntimeError ''still running''), db)))"

end
