(* ===== verification/Concurrent_Invariant.thy ===== *)
theory Concurrent_Invariant
  imports Concurrent_Store
begin

text \<open>
  What stays true while transactions interleave. First, that the statements of a transaction which
  nobody interrupts are the whole operation; then what a transaction may rely on between its
  statements, and that the commits of others keep it.
\<close>

section \<open>Changes\<close>

lemma apply_effects_simps [simp]:
  "apply_effects [] db = db"
  "apply_effects (e # P) db = apply_effects P (apply_effect e db)"
  "apply_effects (P @ Q) db = apply_effects Q (apply_effects P db)"
  by (simp_all add: apply_effects_def)

lemma apply_effect_keeps [simp]:
  "consumers (apply_effect e db) = consumers db"
  "consumers_id_seq (apply_effect e db) = consumers_id_seq db"
  "fingerprints_id_seq (apply_effect e db) = fingerprints_id_seq db"
  "hits_id_seq (apply_effect e db) = hits_id_seq db"
  "flags_id_seq (apply_effect e db) = flags_id_seq db"
  "fingerprints_sync_seq (apply_effect e db) = fingerprints_sync_seq db"
  by (cases e; simp)+

lemma apply_effects_keeps [simp]:
  "consumers (apply_effects P db) = consumers db"
  "consumers_id_seq (apply_effects P db) = consumers_id_seq db"
  "fingerprints_id_seq (apply_effects P db) = fingerprints_id_seq db"
  "hits_id_seq (apply_effects P db) = hits_id_seq db"
  "flags_id_seq (apply_effects P db) = flags_id_seq db"
  "fingerprints_sync_seq (apply_effects P db) = fingerprints_sync_seq db"
  by (induction P arbitrary: db) simp_all

lemma set_fp_update:
  assumes "distinct (map fp_id (fingerprints db))" "select_fp i db = Some r" "fp_id (f r) = i"
  shows "db\<lparr>fingerprints := map (\<lambda>x. if fp_id x = i then f r else x) (fingerprints db)\<rparr> = update_fp i f db"
proof -
  have r: "r \<in> set (fingerprints db)" "fp_id r = i" using select_fp_SomeD [OF assms(2)] by simp_all
  have "x = r" if "x \<in> set (fingerprints db)" "fp_id x = i" for x
    using assms(1) r that by (auto simp: distinct_map dest: inj_onD)
  then show ?thesis by (auto simp: update_fp_def intro!: arg_cong [where f = "\<lambda>xs. db\<lparr>fingerprints := xs\<rparr>"])
qed

lemma select_fp_tables [simp]:
  "select_fp i (db\<lparr>fingerprint_flags := fs\<rparr>) = select_fp i db"
  "select_fp i (db\<lparr>fingerprint_hits := hs\<rparr>) = select_fp i db"
  "select_fp i (db\<lparr>flags_id_seq := n\<rparr>) = select_fp i db"
  "select_fp i (db\<lparr>hits_id_seq := n\<rparr>) = select_fp i db"
  "select_fp i (db\<lparr>fingerprints_sync_seq := n\<rparr>) = select_fp i db"
  "select_fp i (rollback db a) = select_fp i db"
  by (simp_all add: select_fp_def)

section \<open>A transaction alone\<close>

lemma alone_delete:
  assumes ok: "db_ok db"
  shows "outcome_alone (advance (begin_txn (DeleteRequest i now), db)) = atomic (DeleteRequest i now) db"
proof (cases "select_fp i db")
  case None
  then show ?thesis
    by (simp add: outcome_alone_def advance_def begin_txn_def view_def soft_delete_txn_def transaction_def)
next
  case (Some r)
  have "distinct (map fp_id (fingerprints db))" using ok by (simp add: db_ok_def fingerprints_ok_def)
  then show ?thesis
    using Some set_fp_update [of "db\<lparr>fingerprints_sync_seq := fingerprints_sync_seq db + 1\<rparr>" i r
        "\<lambda>r. r\<lparr>fp_status := Deleted, fp_sync_seq := fingerprints_sync_seq db, fp_updated_at_ms := now\<rparr>"]
      select_fp_SomeD [OF Some]
    by (simp add: outcome_alone_def advance_def begin_txn_def view_def soft_delete_txn_def transaction_def
        nextval_sync_def Let_def rollback_def)
qed

text \<open>The first statement of a transaction, and the ones after it.\<close>

lemmas alone_defs = outcome_alone_def advance_def begin_txn_def view_def transaction_def Let_def rollback_def

lemma db_ok_ids: "db_ok db \<Longrightarrow> distinct (map fp_id (fingerprints db))"
  by (simp add: db_ok_def fingerprints_ok_def)

lemma alone_hit:
  assumes ok: "db_ok db"
  shows "outcome_alone (advance (advance (advance (begin_txn (HitRequest K nonce i cid guild distance now), db))))
    = atomic (HitRequest K nonce i cid guild distance now) db"
proof (cases "select_fp i db")
  case None
  then show ?thesis by (simp add: alone_defs report_hit_txn_def)
next
  case (Some r)
  show ?thesis
  proof (cases "fp_status r = Deleted")
    case True
    then show ?thesis using Some by (simp add: alone_defs report_hit_txn_def)
  next
    case live: False
    show ?thesis
    proof (cases "encrypt_field K nonce guild")
      case (Inl e)
      then show ?thesis using Some live by (simp add: alone_defs report_hit_txn_def)
    next
      case enc: (Inr eg)
      obtain x v1 where ins: "insert_hit i cid eg distance now db = (x, v1)" by fastforce
      then show ?thesis
      proof (cases rule: insert_hit_cases)
        case (fails e)
        then show ?thesis using Some live enc ins
          by (auto simp: alone_defs report_hit_txn_def)
      next
        case (inserted row)
        let ?f = "\<lambda>r. r\<lparr>fp_hit_count := fp_hit_count r + 1, fp_last_hit_at_ms := Some now\<rparr>"
        have upd: "v1\<lparr>fingerprints := map (\<lambda>x. if fp_id x = i then ?f r else x) (fingerprints v1)\<rparr> = update_fp i ?f v1"
          by (rule set_fp_update) (use Some inserted(3) db_ok_ids [OF ok] select_fp_SomeD [OF Some] in simp_all)
        then show ?thesis
          using Some live enc ins inserted select_fp_SomeD [OF Some]
          by (simp add: alone_defs report_hit_txn_def select_fp_update)
      qed
    qed
  qed
qed

lemma alone_flag:
  assumes ok: "db_ok db"
  shows "outcome_alone (advance (advance (advance (advance
      (begin_txn (FlagRequest K nonce i cid reason now threshold), db)))))
    = atomic (FlagRequest K nonce i cid reason now threshold) db"
proof (cases "select_fp i db")
  case None
  then show ?thesis by (simp add: alone_defs flag_txn_def)
next
  case (Some r)
  show ?thesis
  proof (cases "fp_status r = Deleted")
    case True
    then show ?thesis using Some by (simp add: alone_defs flag_txn_def)
  next
    case live: False
    show ?thesis
    proof (cases "encrypt_field K nonce reason")
      case (Inl e)
      then show ?thesis using Some live by (simp add: alone_defs flag_txn_def)
    next
      case enc: (Inr er)
      obtain x v1 where ins: "insert_flag i cid er now db = (x, v1)" by fastforce
      have upd: "v\<lparr>fingerprints := map (\<lambda>x. if fp_id x = i then f r else x) (fingerprints v)\<rparr> = update_fp i f v"
        if "fp_id (f r) = fp_id r" "fingerprints v = fingerprints db" for f v
        by (rule set_fp_update) (use Some that db_ok_ids [OF ok] select_fp_SomeD [OF Some] in
            \<open>simp_all add: select_fp_def\<close>)
      from ins show ?thesis
      proof (cases rule: insert_flag_cases)
        case (fails e)
        then show ?thesis using Some live enc ins by (auto simp: alone_defs flag_txn_def)
      next
        case (conflict f)
        then show ?thesis
          using Some live enc ins select_fp_SomeD [OF Some]
          by (simp add: alone_defs flag_txn_def nextval_sync_def count_flaggers_def flip: upd)
      next
        case (inserted row)
        then show ?thesis
          using Some live enc ins select_fp_SomeD [OF Some]
          by (simp add: alone_defs flag_txn_def nextval_sync_def count_flaggers_def flip: upd)
      qed
    qed
  qed
qed

lemma alone_contribute:
  assumes ok: "db_ok db"
  shows "outcome_alone (advance (advance (advance (begin_txn (ContributeRequest c er eu eg), db))))
    = atomic (ContributeRequest c er eu eg) db"
proof (cases "pg_text (con_phash_hex c)")
  case False
  then show ?thesis by (simp add: alone_defs contribute_txn_def)
next
  case phash: True
  show ?thesis
  proof (cases "select_fp_by_phash (con_phash_hex c) (con_consumer_id c) db")
    case None
    obtain x v1 where ins: "insert_fp (new_row c er eu eg) db = (x, v1)" by fastforce
    then show ?thesis
      by (cases rule: insert_fp_cases)
        (use phash None ins in \<open>auto simp: alone_defs contribute_txn_def new_row_def\<close>)
  next
    case ex: (Some ex)
    note exD = select_fp_by_phash_SomeD [OF ex]
    show ?thesis
    proof (cases "fp_status ex = Deleted")
      case False
      then show ?thesis using phash ex by (simp add: alone_defs contribute_txn_def)
    next
      case dead: True
      have "fingerprints_ok db" using ok by (simp add: db_ok_def)
      then have sel: "select_fp (fp_id ex) db = Some ex" using exD by (simp add: select_fp_Some_iff)
      have upd: "v\<lparr>fingerprints := map (\<lambda>x. if fp_id x = fp_id ex then f ex else x) (fingerprints v)\<rparr>
          = update_fp (fp_id ex) f v" if "fp_id (f ex) = fp_id ex" "fingerprints v = fingerprints db" for f v
        by (rule set_fp_update) (use sel that db_ok_ids [OF ok] in \<open>simp_all add: select_fp_def\<close>)
      have drop: "filter (\<lambda>f. flag_fingerprint_id f = i \<longrightarrow>
            flag_consumer_id f \<notin> flag_consumer_id ` {f \<in> set fs. flag_fingerprint_id f = i}) fs
          = filter (\<lambda>f. flag_fingerprint_id f \<noteq> i) fs" for i fs
        by (rule filter_cong) auto
      have revived: "select_fp (fp_id ex) (update_fp (fp_id ex) (resurrect_row c er eu eg n) v)
          = Some (resurrect_row c er eu eg n ex)" if "fingerprints v = fingerprints db" for n v
        using sel that by (simp add: select_fp_update resurrect_row_def select_fp_cong [of v db])
      show ?thesis
        using phash ex dead sel exD revived
        by (simp add: alone_defs contribute_txn_def resurrect_def delete_flags_of_def nextval_sync_def drop
            resurrect_row_def flip: upd)
    qed
  qed
qed

section \<open>What a transaction relies on\<close>

definition flags_at :: "int \<Rightarrow> db \<Rightarrow> flag_row list" where
  "flags_at i db = filter (\<lambda>f. flag_fingerprint_id f = i) (fingerprint_flags db)"

text \<open>Two databases that look the same to a transaction at work on fingerprint \<open>i\<close>.\<close>

definition agree :: "int \<Rightarrow> db \<Rightarrow> db \<Rightarrow> bool" where
  "agree i a b \<longleftrightarrow> select_fp i b = select_fp i a \<and> flags_at i b = flags_at i a \<and> consumers b = consumers a"

fun effect_on :: "effect \<Rightarrow> int" where
  "effect_on (AddFlag f) = flag_fingerprint_id f"
| "effect_on (DropFlags i cs) = i"
| "effect_on (AddHit h) = hit_fingerprint_id h"
| "effect_on (AddFp r) = fp_id r"
| "effect_on (SetFp r) = fp_id r"

lemma agree_refl [simp]: "agree i db db"
  by (simp add: agree_def)

lemma agree_trans: "agree i a b \<Longrightarrow> agree i b c \<Longrightarrow> agree i a c"
  by (simp add: agree_def)

lemma agree_rollback [simp]: "agree i db (rollback db v)"
  by (simp add: agree_def flags_at_def)

lemma select_fp_effect:
  "select_fp i (apply_effect e db) =
     (case e of
        AddFp r \<Rightarrow> (case select_fp i db of None \<Rightarrow> if fp_id r = i then Some r else None | Some x \<Rightarrow> Some x)
      | SetFp r \<Rightarrow> if fp_id r = i then map_option (\<lambda>_. r) (select_fp i db) else select_fp i db
      | _ \<Rightarrow> select_fp i db)"
proof -
  have app: "List.find P (xs @ [r]) = (case List.find P xs of None \<Rightarrow> if P r then Some r else None | Some x \<Rightarrow> Some x)"
    for P and xs :: "fingerprint_row list" and r
    by (induction xs) auto
  have upd: "List.find (\<lambda>x. fp_id x = i) (map (\<lambda>x. if fp_id x = fp_id r then r else x) xs)
      = (if fp_id r = i then map_option (\<lambda>_. r) (List.find (\<lambda>x. fp_id x = i) xs)
         else List.find (\<lambda>x. fp_id x = i) xs)" for xs r
    by (induction xs) auto
  show ?thesis by (cases e) (simp_all add: select_fp_def app upd)
qed

lemma flags_at_effect:
  "flags_at i (apply_effect e db) =
     (case e of
        AddFlag f \<Rightarrow> flags_at i db @ (if flag_fingerprint_id f = i then [f] else [])
      | DropFlags j cs \<Rightarrow> if j = i then filter (\<lambda>f. flag_consumer_id f \<notin> set cs) (flags_at i db) else flags_at i db
      | _ \<Rightarrow> flags_at i db)"
  by (cases e) (auto simp: flags_at_def intro!: filter_cong)

lemma agree_effect_other: "effect_on e \<noteq> i \<Longrightarrow> agree i db (apply_effect e db)"
  unfolding agree_def select_fp_effect flags_at_effect by (cases e) (auto split: option.split)

lemma agree_other: "\<forall>e \<in> set P. effect_on e \<noteq> i \<Longrightarrow> agree i db (apply_effects P db)"
proof (induction P arbitrary: db)
  case (Cons e P)
  have "agree i db (apply_effect e db)" using Cons.prems by (simp add: agree_effect_other)
  also have "agree i (apply_effect e db) (apply_effects P (apply_effect e db))"
    using Cons.prems by (intro Cons.IH) simp
  finally (agree_trans) show ?case by simp
qed simp

lemma agree_apply: "agree i a b \<Longrightarrow> agree i (apply_effects P a) (apply_effects P b)"
proof (induction P arbitrary: a b)
  case (Cons e P)
  have "agree i (apply_effect e a) (apply_effect e b)"
    using Cons.prems unfolding agree_def select_fp_effect flags_at_effect by (simp split: effect.split)
  then show ?case by (simp add: Cons.IH)
qed simp

lemma agree_count: "agree i a b \<Longrightarrow> count_flaggers i b = count_flaggers i a"
  by (simp add: agree_def count_flaggers_def flags_at_def)

text \<open>Rows that are not deleted, and deleted ones.\<close>

definition live :: "int \<Rightarrow> db \<Rightarrow> fingerprint_row \<Rightarrow> bool" where
  "live i db r \<longleftrightarrow> select_fp i db = Some r \<and> fp_status r \<noteq> Deleted"

definition dead :: "int \<Rightarrow> db \<Rightarrow> fingerprint_row \<Rightarrow> bool" where
  "dead i db r \<longleftrightarrow> select_fp i db = Some r \<and> fp_status r = Deleted"

lemma agree_live: "agree i a b \<Longrightarrow> live i b r = live i a r"
  by (simp add: agree_def live_def)

lemma agree_dead: "agree i a b \<Longrightarrow> dead i b r = dead i a r"
  by (simp add: agree_def dead_def)

text \<open>The flag a transaction has stored, unless the consumer's flag was there.\<close>

definition flag_stored ::
  "crypto \<Rightarrow> bytes \<Rightarrow> int \<Rightarrow> int \<Rightarrow> string option \<Rightarrow> int \<Rightarrow> effect list \<Rightarrow> db \<Rightarrow> bool"
where
  "flag_stored K nonce i cid reason now P db \<longleftrightarrow>
     (\<exists>enc. encrypt_field K nonce reason = Inr enc \<and> pred_option pg_text enc
        \<and> (if cid \<in> flag_consumer_id ` set (flags_at i db) then P = []
           else cid \<in> cons_id ` set (consumers db)
             \<and> (\<exists>m. P = [AddFlag \<lparr>flag_id = m, flag_fingerprint_id = i, flag_consumer_id = cid,
                   flag_reason = enc, flag_created_at_ms = now\<rparr>])))"

definition hit_stored ::
  "crypto \<Rightarrow> bytes \<Rightarrow> int \<Rightarrow> int \<Rightarrow> string option \<Rightarrow> int option \<Rightarrow> int \<Rightarrow> effect list \<Rightarrow> db \<Rightarrow> bool"
where
  "hit_stored K nonce i cid guild distance now P db \<longleftrightarrow>
     (\<exists>enc m. encrypt_field K nonce guild = Inr enc \<and> pred_option pg_text enc
        \<and> pred_option pg_integer distance \<and> cid \<in> cons_id ` set (consumers db)
        \<and> P = [AddHit \<lparr>hit_id = m, hit_fingerprint_id = i, hit_consumer_id = cid,
             hit_guild_id = enc, hit_distance = distance, hit_at_ms = now\<rparr>])"

lemma flag_stored_agree: "agree i a b \<Longrightarrow> flag_stored K nonce i cid reason now P b = flag_stored K nonce i cid reason now P a"
  by (simp add: agree_def flag_stored_def)

lemma hit_stored_agree: "agree i a b \<Longrightarrow> hit_stored K nonce i cid g d now P b = hit_stored K nonce i cid g d now P a"
  by (simp add: agree_def hit_stored_def)

text \<open>How a flag ends: the version of the row and the answer, from the count.\<close>

definition flag_ends ::
  "int \<Rightarrow> int \<Rightarrow> fingerprint_row \<Rightarrow> int \<Rightarrow> int \<Rightarrow> effect list \<Rightarrow> effect list \<Rightarrow> answer \<Rightarrow> bool"
where
  "flag_ends th now r n q P0 P a \<longleftrightarrow>
     (if n \<ge> th \<and> fp_status r = Active
      then P = P0 @ [SetFp (r\<lparr>fp_status := Hidden, fp_flag_count := n, fp_sync_seq := q, fp_updated_at_ms := now\<rparr>)]
        \<and> a = Flagged (Some \<lparr>fr_flag_count = n, fr_status = Hidden, fr_hidden = True\<rparr>)
      else P = P0 @ [SetFp (r\<lparr>fp_flag_count := n, fp_updated_at_ms := now\<rparr>)]
        \<and> a = Flagged (Some \<lparr>fr_flag_count = n, fr_status = fp_status r, fr_hidden = False\<rparr>))"

text \<open>What holds at each point, from the changes and locks of the transaction and what is committed.\<close>

fun flag_knows ::
  "crypto \<Rightarrow> bytes \<Rightarrow> int \<Rightarrow> int \<Rightarrow> string option \<Rightarrow> int \<Rightarrow> int \<Rightarrow> point \<Rightarrow> effect list \<Rightarrow> lock list \<Rightarrow> db \<Rightarrow> bool"
where
  "flag_knows K nonce i cid reason now th FlagLock P L db \<longleftrightarrow> P = []"
| "flag_knows K nonce i cid reason now th (FlagInsert st) P L db \<longleftrightarrow>
     P = [] \<and> RowLock i \<in> set L \<and> (\<exists>r. live i db r \<and> fp_status r = st)"
| "flag_knows K nonce i cid reason now th (FlagCount st) P L db \<longleftrightarrow>
     RowLock i \<in> set L \<and> (\<exists>r. live i db r \<and> fp_status r = st) \<and> flag_stored K nonce i cid reason now P db"
| "flag_knows K nonce i cid reason now th (FlagUpdate st n) P L db \<longleftrightarrow>
     RowLock i \<in> set L \<and> (\<exists>r. live i db r \<and> fp_status r = st) \<and> flag_stored K nonce i cid reason now P db
     \<and> n = count_flaggers i (apply_effects P db)"
| "flag_knows K nonce i cid reason now th (Finished a) P L db \<longleftrightarrow>
     P = [] \<or> (RowLock i \<in> set L \<and>
       (\<exists>r P0 q. live i db r \<and> flag_stored K nonce i cid reason now P0 db
         \<and> flag_ends th now r (count_flaggers i (apply_effects P0 db)) q P0 P a))"
| "flag_knows K nonce i cid reason now th (Failed e) P L db \<longleftrightarrow> True"
| "flag_knows K nonce i cid reason now th _ P L db \<longleftrightarrow> False"

fun hit_knows ::
  "crypto \<Rightarrow> bytes \<Rightarrow> int \<Rightarrow> int \<Rightarrow> string option \<Rightarrow> int option \<Rightarrow> int \<Rightarrow> point \<Rightarrow> effect list \<Rightarrow> lock list \<Rightarrow> db \<Rightarrow> bool"
where
  "hit_knows K nonce i cid guild distance now HitLock P L db \<longleftrightarrow> P = []"
| "hit_knows K nonce i cid guild distance now HitInsert P L db \<longleftrightarrow>
     P = [] \<and> RowLock i \<in> set L \<and> (\<exists>r. live i db r)"
| "hit_knows K nonce i cid guild distance now HitUpdate P L db \<longleftrightarrow>
     RowLock i \<in> set L \<and> (\<exists>r. live i db r) \<and> hit_stored K nonce i cid guild distance now P db"
| "hit_knows K nonce i cid guild distance now (Finished a) P L db \<longleftrightarrow>
     P = [] \<or> (RowLock i \<in> set L \<and>
       (\<exists>r P0. live i db r \<and> hit_stored K nonce i cid guild distance now P0 db
         \<and> P = P0 @ [SetFp (r\<lparr>fp_hit_count := fp_hit_count r + 1, fp_last_hit_at_ms := Some now\<rparr>)]
         \<and> a = HitCounted (Some (fp_hit_count r + 1))))"
| "hit_knows K nonce i cid guild distance now (Failed e) P L db \<longleftrightarrow> True"
| "hit_knows K nonce i cid guild distance now _ P L db \<longleftrightarrow> False"

fun delete_knows :: "int \<Rightarrow> int \<Rightarrow> point \<Rightarrow> effect list \<Rightarrow> lock list \<Rightarrow> db \<Rightarrow> bool" where
  "delete_knows i now DeleteUpdate P L db \<longleftrightarrow> P = []"
| "delete_knows i now (Finished a) P L db \<longleftrightarrow>
     P = [] \<or> (RowLock i \<in> set L \<and>
       (\<exists>r q. live i db r \<and> a = WasDeleted True
         \<and> P = [SetFp (r\<lparr>fp_status := Deleted, fp_sync_seq := q, fp_updated_at_ms := now\<rparr>)]))"
| "delete_knows i now (Failed e) P L db \<longleftrightarrow> True"
| "delete_knows i now _ P L db \<longleftrightarrow> False"

text \<open>The tombstone a contribution found, by its key.\<close>

definition tombstone_of :: "contribution \<Rightarrow> int \<Rightarrow> db \<Rightarrow> fingerprint_row \<Rightarrow> bool" where
  "tombstone_of c i db r \<longleftrightarrow> dead i db r \<and> fp_phash_hex r = con_phash_hex c \<and> fp_consumer_id r = con_consumer_id c
     \<and> pg_text (con_phash_hex c)"

definition clears :: "int \<Rightarrow> db \<Rightarrow> effect" where
  "clears i db = DropFlags i (map flag_consumer_id (flags_at i db))"

definition revivable :: "contribution \<Rightarrow> string option \<Rightarrow> string option \<Rightarrow> string option \<Rightarrow> bool" where
  "revivable c er eu eg \<longleftrightarrow>
     list_all pg_text [con_algorithm c, con_algorithm_version c, con_normalization_version c,
       con_category c, con_action c, con_provenance c]
     \<and> pred_option pg_text eg \<and> pred_option pg_text er \<and> pred_option pg_text eu
     \<and> con_action c \<in> set VALID_ACTIONS \<and> con_category c \<in> set VALID_CATEGORIES"

definition key_free :: "contribution \<Rightarrow> db \<Rightarrow> bool" where
  "key_free c db \<longleftrightarrow> pg_text (con_phash_hex c)
     \<and> select_fp_by_phash (con_phash_hex c) (con_consumer_id c) db = None"

fun contribute_knows ::
  "contribution \<Rightarrow> string option \<Rightarrow> string option \<Rightarrow> string option \<Rightarrow> point \<Rightarrow> effect list \<Rightarrow> lock list \<Rightarrow> db \<Rightarrow> bool"
where
  "contribute_knows c er eu eg ContributeSelect P L db \<longleftrightarrow> P = []"
| "contribute_knows c er eu eg (ContributeClear i) P L db \<longleftrightarrow> P = [] \<and> (\<exists>r. tombstone_of c i db r)"
| "contribute_knows c er eu eg (ContributeRevive i) P L db \<longleftrightarrow>
     P = [clears i db] \<and> (\<exists>r. tombstone_of c i db r)"
| "contribute_knows c er eu eg ContributeInsert P L db \<longleftrightarrow> P = [] \<and> key_free c db"
| "contribute_knows c er eu eg (Finished a) P L db \<longleftrightarrow>
     P = []
     \<or> (\<exists>i r q. RowLock i \<in> set L \<and> tombstone_of c i db r \<and> revivable c er eu eg
          \<and> P = [clears i db, SetFp (resurrect_row c er eu eg q r)]
          \<and> a = Contributed (Some (resurrect_row c er eu eg q r)) True)
     \<or> (\<exists>m q. RowLock m \<in> set L \<and> m < fingerprints_id_seq db \<and> select_fp m db = None \<and> key_free c db
          \<and> con_consumer_id c \<in> cons_id ` set (consumers db) \<and> revivable c er eu eg
          \<and> P = [AddFp ((new_row c er eu eg)\<lparr>fp_id := m, fp_sync_seq := q\<rparr>)]
          \<and> a = Contributed (Some ((new_row c er eu eg)\<lparr>fp_id := m, fp_sync_seq := q\<rparr>)) True)"
| "contribute_knows c er eu eg (Failed e) P L db \<longleftrightarrow> True"
| "contribute_knows c er eu eg _ P L db \<longleftrightarrow> False"

fun knows :: "request_txn \<Rightarrow> point \<Rightarrow> effect list \<Rightarrow> lock list \<Rightarrow> db \<Rightarrow> bool" where
  "knows (FlagRequest K nonce i cid reason now th) p P L db = flag_knows K nonce i cid reason now th p P L db"
| "knows (HitRequest K nonce i cid guild distance now) p P L db = hit_knows K nonce i cid guild distance now p P L db"
| "knows (DeleteRequest i now) p P L db = delete_knows i now p P L db"
| "knows (ContributeRequest c er eu eg) p P L db = contribute_knows c er eu eg p P L db"

definition txn_ok :: "txn \<Rightarrow> db \<Rightarrow> bool" where
  "txn_ok tx db \<longleftrightarrow> knows (tx_request tx) (tx_point tx) (tx_pending tx) (tx_locks tx) db"

lemma begin_txn_ok: "txn_ok (begin_txn rq) db"
  by (cases rq) (simp_all add: txn_ok_def begin_txn_def)

section \<open>What it relies on stays true\<close>

lemma flag_knows_stable:
  assumes "flag_knows K nonce i cid reason now th p P L a" "RowLock i \<in> set L \<Longrightarrow> agree i a b"
  shows "flag_knows K nonce i cid reason now th p P L b"
proof -
  have same: "live i b r = live i a r" "flag_stored K nonce i cid reason now Q b = flag_stored K nonce i cid reason now Q a"
    "count_flaggers i (apply_effects Q b) = count_flaggers i (apply_effects Q a)" if "RowLock i \<in> set L" for r Q
    using assms(2) [OF that] agree_count [OF agree_apply] by (simp_all add: agree_live flag_stored_agree)
  then show ?thesis using assms(1) by (cases p) (simp_all cong: conj_cong)
qed

lemma hit_knows_stable:
  assumes "hit_knows K nonce i cid g d now p P L a" "RowLock i \<in> set L \<Longrightarrow> agree i a b"
  shows "hit_knows K nonce i cid g d now p P L b"
proof -
  have same: "live i b r = live i a r" "hit_stored K nonce i cid g d now Q b = hit_stored K nonce i cid g d now Q a"
    if "RowLock i \<in> set L" for r Q
    using assms(2) [OF that] by (simp_all add: agree_live hit_stored_agree)
  show ?thesis using assms(1) same by (cases p) auto
qed

lemma delete_knows_stable:
  assumes "delete_knows i now p P L a" "RowLock i \<in> set L \<Longrightarrow> agree i a b"
  shows "delete_knows i now p P L b"
  using assms agree_live [of i a b] by (cases p) auto

lemma tombstone_agree:
  "agree i a b \<Longrightarrow> tombstone_of c i b r = tombstone_of c i a r"
  "agree i a b \<Longrightarrow> clears i b = clears i a"
  by (simp_all add: tombstone_of_def clears_def agree_dead) (simp add: agree_def)

lemma contribute_knows_stable:
  assumes "contribute_knows c er eu eg p P L a"
    and tomb: "\<And>i r. tombstone_of c i a r \<Longrightarrow> agree i a b"
    and free: "key_free c a \<Longrightarrow> key_free c b"
    and new: "\<And>m. RowLock m \<in> set L \<Longrightarrow> key_free c a \<Longrightarrow> select_fp m a = None \<Longrightarrow> select_fp m b = None"
    and seq: "fingerprints_id_seq a \<le> fingerprints_id_seq b" and cons: "consumers b = consumers a"
  shows "contribute_knows c er eu eg p P L b"
proof (cases p)
  case (ContributeClear i)
  then show ?thesis using assms(1) tomb tombstone_agree(1) by fastforce
next
  case (ContributeRevive i)
  then obtain r where r: "P = [clears i a]" "tombstone_of c i a r" using assms(1) by auto
  then show ?thesis using ContributeRevive tombstone_agree [OF tomb [OF r(2)]] by auto
next
  case (Finished x)
  from assms(1) consider "P = []"
    | i r q where "RowLock i \<in> set L" "tombstone_of c i a r" "revivable c er eu eg"
        "P = [clears i a, SetFp (resurrect_row c er eu eg q r)]"
        "x = Contributed (Some (resurrect_row c er eu eg q r)) True"
    | m q where "RowLock m \<in> set L" "m < fingerprints_id_seq a" "select_fp m a = None" "key_free c a"
        "con_consumer_id c \<in> cons_id ` set (consumers a)" "revivable c er eu eg"
        "P = [AddFp ((new_row c er eu eg)\<lparr>fp_id := m, fp_sync_seq := q\<rparr>)]"
        "x = Contributed (Some ((new_row c er eu eg)\<lparr>fp_id := m, fp_sync_seq := q\<rparr>)) True"
    unfolding Finished by auto
  then show ?thesis
  proof cases
    case 2
    have "\<exists>i r q. RowLock i \<in> set L \<and> tombstone_of c i b r \<and> revivable c er eu eg
          \<and> P = [clears i b, SetFp (resurrect_row c er eu eg q r)]
          \<and> x = Contributed (Some (resurrect_row c er eu eg q r)) True"
      using 2 tombstone_agree [OF tomb [OF 2(2)]] by (intro exI [of _ i] exI [of _ r] exI [of _ q]) simp
    then show ?thesis by (simp add: Finished)
  next
    case 3
    have "\<exists>m q. RowLock m \<in> set L \<and> m < fingerprints_id_seq b \<and> select_fp m b = None \<and> key_free c b
          \<and> con_consumer_id c \<in> cons_id ` set (consumers b) \<and> revivable c er eu eg
          \<and> P = [AddFp ((new_row c er eu eg)\<lparr>fp_id := m, fp_sync_seq := q\<rparr>)]
          \<and> x = Contributed (Some ((new_row c er eu eg)\<lparr>fp_id := m, fp_sync_seq := q\<rparr>)) True"
      using 3 new [OF 3(1,4,3)] free seq cons by (intro exI [of _ m] exI [of _ q]) simp
    then show ?thesis by (simp add: Finished)
  qed (simp add: Finished)
qed (use assms in simp_all)

section \<open>A statement leaves it true\<close>

lemma flag_statement_knows:
  assumes "flag_knows K nonce i cid reason now th p P L db"
    and "flag_statement K nonce i cid reason now th p (apply_effects P db) = (effs, v1, p')"
    and "flag_locks i cid p (apply_effects P db) = (waits, takes)"
  shows "flag_knows K nonce i cid reason now th p' (P @ effs) (L @ takes) db"
proof (cases p)
  case FlagLock
  then show ?thesis
    using assms by (auto simp: flag_locks_def row_lock_def live_def split: option.splits if_splits)
next
  case (FlagInsert st)
  then have P: "P = []" and L: "RowLock i \<in> set L" and r: "\<exists>r. live i db r \<and> fp_status r = st"
    using assms(1) by auto
  show ?thesis
  proof (cases "encrypt_field K nonce reason")
    case (Inl e)
    then show ?thesis using assms(2) P FlagInsert by auto
  next
    case enc: (Inr er)
    obtain x v2 where ins: "insert_flag i cid er now db = (x, v2)" by fastforce
    have texts: "pred_option pg_text er" if "x = Inr ()" using ins that by (auto simp: insert_flag_def split: if_splits)
    from ins show ?thesis
    proof (cases rule: insert_flag_cases)
      case (fails e)
      then show ?thesis using assms(2) P FlagInsert enc ins by auto
    next
      case (conflict f)
      then have "cid \<in> flag_consumer_id ` set (flags_at i db)" by (auto simp: flags_at_def)
      then show ?thesis
        using assms(2) P L r FlagInsert enc ins conflict texts by (auto simp: flag_stored_def)
    next
      case (inserted row)
      then have "cid \<notin> flag_consumer_id ` set (flags_at i db)" by (auto simp: flags_at_def)
      then show ?thesis
        using assms(2) P L r FlagInsert enc ins inserted texts by (auto simp: flag_stored_def)
    qed
  qed
next
  case (FlagCount st)
  then show ?thesis using assms by auto
next
  case (FlagUpdate st n)
  then obtain r where r: "live i db r" "fp_status r = st" "flag_stored K nonce i cid reason now P db"
    "n = count_flaggers i (apply_effects P db)" "RowLock i \<in> set L" using assms(1) by auto
  have "select_fp i (apply_effects P db) = Some r"
    using r(1,3) by (auto simp: flag_stored_def live_def split: if_splits)
  then show ?thesis
    using assms(2) r FlagUpdate
    by (auto simp: Let_def nextval_sync_def flag_ends_def split: if_splits intro!: exI [of _ r] exI [of _ P])
qed (use assms in auto)

lemma hit_statement_knows:
  assumes "hit_knows K nonce i cid g d now p P L db"
    and "hit_statement K nonce i cid g d now p (apply_effects P db) = (effs, v1, p')"
    and "hit_locks i p (apply_effects P db) = (waits, takes)"
  shows "hit_knows K nonce i cid g d now p' (P @ effs) (L @ takes) db"
proof (cases p)
  case HitLock
  then show ?thesis
    using assms by (auto simp: hit_locks_def row_lock_def live_def split: option.splits if_splits)
next
  case HitInsert
  then have P: "P = []" and L: "RowLock i \<in> set L" and r: "\<exists>r. live i db r"
    using assms(1) by auto
  show ?thesis
  proof (cases "encrypt_field K nonce g")
    case (Inl e)
    then show ?thesis using assms(2) P HitInsert by auto
  next
    case enc: (Inr eg)
    obtain x v2 where ins: "insert_hit i cid eg d now db = (x, v2)" by fastforce
    have texts: "pred_option pg_text eg" if "x = Inr ()" using ins that by (auto simp: insert_hit_def split: if_splits)
    from ins show ?thesis
    proof (cases rule: insert_hit_cases)
      case (fails e)
      then show ?thesis using assms(2) P HitInsert enc ins by auto
    next
      case (inserted row)
      then show ?thesis
        using assms(2) P L r HitInsert enc ins texts by (auto simp: hit_stored_def)
    qed
  qed
next
  case HitUpdate
  then obtain r where r: "live i db r" "hit_stored K nonce i cid g d now P db" "RowLock i \<in> set L"
    using assms(1) by auto
  have "select_fp i (apply_effects P db) = Some r"
    using r(1,2) by (auto simp: hit_stored_def live_def)
  then show ?thesis
    using assms(2) r HitUpdate by (auto intro!: exI [of _ r] exI [of _ P])
qed (use assms in auto)

lemma delete_statement_knows:
  assumes "delete_knows i now p P L db"
    and "delete_statement i now p (apply_effects P db) = (effs, v1, p')"
    and "delete_locks i p (apply_effects P db) = (waits, takes)"
  shows "delete_knows i now p' (P @ effs) (L @ takes) db"
  using assms
  by (cases p)
    (auto simp: delete_locks_def live_def nextval_sync_def Let_def split: option.splits if_splits)

text \<open>What is committed is consistent enough to find rows by id and by key.\<close>

definition rows_ok :: "db \<Rightarrow> bool" where
  "rows_ok db \<longleftrightarrow> distinct (map fp_id (fingerprints db))
     \<and> distinct (map (\<lambda>r. (fp_phash_hex r, fp_consumer_id r)) (fingerprints db))
     \<and> (\<forall>r \<in> set (fingerprints db). fp_id r < fingerprints_id_seq db)"

lemma rows_ok_select: "rows_ok db \<Longrightarrow> select_fp i db = Some r \<longleftrightarrow> r \<in> set (fingerprints db) \<and> fp_id r = i"
  by (simp add: rows_ok_def select_fp_def find_Some_iff_unique)

lemma rows_ok_by_phash:
  assumes "rows_ok db" "r \<in> set (fingerprints db)"
  shows "select_fp_by_phash (fp_phash_hex r) (fp_consumer_id r) db = Some r"
proof -
  have "distinct (map (\<lambda>x. (fp_phash_hex x, fp_consumer_id x)) (fingerprints db))"
    using assms(1) by (simp add: rows_ok_def)
  from find_Some_iff_unique [OF this, of "(fp_phash_hex r, fp_consumer_id r)" r] assms(2)
  have "List.find (\<lambda>x. (fp_phash_hex x, fp_consumer_id x) = (fp_phash_hex r, fp_consumer_id r)) (fingerprints db) = Some r"
    by blast
  then show ?thesis by (simp add: select_fp_by_phash_def)
qed

lemma rows_ok_fresh: "rows_ok db \<Longrightarrow> select_fp (fingerprints_id_seq db) db = None"
  unfolding select_fp_None_iff rows_ok_def by fastforce

lemma insert_fp_acceptable:
  assumes "insert_fp (new_row c er eu eg) db = (Inr (Some row), db')"
  shows "pg_text (con_phash_hex c) \<and> revivable c er eu eg"
  using assms by (auto simp: insert_fp_def new_row_def revivable_def Let_def split: if_splits)

lemma contribute_statement_knows:
  assumes know: "contribute_knows c er eu eg p P L db"
    and run: "contribute_statement c er eu eg p (apply_effects P db) = (effs, v1, p')"
    and locks: "contribute_locks c p (apply_effects P db) = (waits, takes)"
    and ok: "rows_ok db" and run_on: "running p"
  shows "contribute_knows c er eu eg p' (P @ effs) (L @ takes) (rollback db v1)"
proof -
  have same: "tombstone_of c i (rollback db v1) r = tombstone_of c i db r"
    "clears i (rollback db v1) = clears i db" "key_free c (rollback db v1) = key_free c db" for i r
    using tombstone_agree [of i db "rollback db v1"] by (simp_all add: key_free_def select_fp_by_phash_def)
  show ?thesis
  proof (cases p)
    case ContributeSelect
    then have P: "P = []" using know by simp
    have "tombstone_of c (fp_id ex) db ex"
      if "select_fp_by_phash (con_phash_hex c) (con_consumer_id c) db = Some ex" "fp_status ex = Deleted"
        "pg_text (con_phash_hex c)" for ex
      using select_fp_by_phash_SomeD [OF that(1)] that(2,3) ok
      by (simp add: tombstone_of_def dead_def rows_ok_select)
    then show ?thesis
      using ContributeSelect run P by (auto simp: same key_free_def split: if_splits option.splits)
  next
    case (ContributeClear i)
    then show ?thesis using know run by (auto simp: same clears_def flags_at_def)
  next
    case (ContributeRevive i)
    then obtain r where P: "P = [clears i db]" and r: "tombstone_of c i db r" using know by auto
    have sel: "select_fp i (apply_effects P db) = Some r"
      using r by (simp add: P clears_def tombstone_of_def dead_def)
    show ?thesis
    proof (cases "revivable c er eu eg")
      case True
      then have "effs = [SetFp (resurrect_row c er eu eg (fingerprints_sync_seq db) r)]"
        "p' = Finished (Contributed (Some (resurrect_row c er eu eg (fingerprints_sync_seq db) r)) True)"
        using run sel ContributeRevive by (auto simp: revivable_def nextval_sync_def Let_def)
      moreover have "RowLock i \<in> set (L @ takes)"
        using locks sel ContributeRevive by (auto simp: contribute_locks_def row_lock_def)
      ultimately show ?thesis
        using True r P by (auto simp: same)
    next
      case False
      then have "\<exists>e. p' = Failed e"
        using run sel ContributeRevive by (auto simp: revivable_def nextval_sync_def Let_def split: if_splits)
      then show ?thesis by auto
    qed
  next
    case ContributeInsert
    then have P: "P = []" and free: "key_free c db" using know by auto
    obtain x v2 where ins: "insert_fp (new_row c er eu eg) db = (x, v2)" by fastforce
    then show ?thesis
    proof (cases rule: insert_fp_cases)
      case (conflict row)
      then show ?thesis using free by (simp add: key_free_def new_row_def)
    next
      case (inserted row)
      have eff: "effs = [AddFp row]" "p' = Finished (Contributed (Some row) True)" "v1 = v2"
        using run P ContributeInsert ins inserted(1,3) by auto
      let ?m = "fingerprints_id_seq db" and ?q = "fingerprints_sync_seq db"
      have lock: "RowLock ?m \<in> set takes"
        using locks P ContributeInsert free by (auto simp: contribute_locks_def key_free_def)
      have cid: "con_consumer_id c \<in> cons_id ` set (consumers db)" using inserted(8) by (simp add: new_row_def)
      have good: "revivable c er eu eg" using insert_fp_acceptable [OF ins [unfolded inserted(1)]] by simp
      have "?m < fingerprints_id_seq (rollback db v1)" using eff(3) inserted(3) by simp
      then have "\<exists>m q. RowLock m \<in> set (L @ takes) \<and> m < fingerprints_id_seq (rollback db v1)
          \<and> select_fp m (rollback db v1) = None \<and> key_free c (rollback db v1)
          \<and> con_consumer_id c \<in> cons_id ` set (consumers (rollback db v1)) \<and> revivable c er eu eg
          \<and> P @ effs = [AddFp ((new_row c er eu eg)\<lparr>fp_id := m, fp_sync_seq := q\<rparr>)]
          \<and> Contributed (Some row) True = Contributed (Some ((new_row c er eu eg)\<lparr>fp_id := m, fp_sync_seq := q\<rparr>)) True"
        using lock cid good free rows_ok_fresh [OF ok] P eff(1) inserted(2)
        by (intro exI [of _ ?m] exI [of _ ?q]) (simp add: same)
      then show ?thesis unfolding eff(2) contribute_knows.simps by (intro disjI2)
    qed (use run P ContributeInsert ins in auto)
  qed (use know run run_on in \<open>auto simp: running_def\<close>)
qed

lemma statement_knows:
  assumes know: "knows rq p P L db" and run: "execute rq p (apply_effects P db) = (effs, v1, p')"
    and locks: "wanted rq p (apply_effects P db) = (waits, takes)" and ok: "rows_ok db" "running p"
  shows "knows rq p' (P @ effs) (L @ takes) (rollback db v1)"
proof (cases rq)
  case (FlagRequest K nonce i cid reason now th)
  then have "flag_knows K nonce i cid reason now th p' (P @ effs) (L @ takes) db"
    using know run locks by (intro flag_statement_knows [where p = p and waits = waits]) simp_all
  then show ?thesis using flag_knows_stable [where a = db and b = "rollback db v1"] FlagRequest by simp
next
  case (HitRequest K nonce i cid g d now)
  then have "hit_knows K nonce i cid g d now p' (P @ effs) (L @ takes) db"
    using know run locks by (intro hit_statement_knows [where p = p and waits = waits]) simp_all
  then show ?thesis using hit_knows_stable [where a = db and b = "rollback db v1"] HitRequest by simp
next
  case (DeleteRequest i now)
  then have "delete_knows i now p' (P @ effs) (L @ takes) db"
    using know run locks by (intro delete_statement_knows [where p = p and waits = waits]) simp_all
  then show ?thesis using delete_knows_stable [where a = db and b = "rollback db v1"] DeleteRequest by simp
next
  case (ContributeRequest c er eu eg)
  then show ?thesis
    using know run locks ok by (simp add: contribute_statement_knows [where p = p and waits = waits])
qed

lemma knows_rollback:
  assumes "knows rq p P L db" "fingerprints_id_seq db \<le> fingerprints_id_seq v"
  shows "knows rq p P L (rollback db v)"
  using assms flag_knows_stable [where a = db and b = "rollback db v"] hit_knows_stable [where a = db and b = "rollback db v"]
    delete_knows_stable [where a = db and b = "rollback db v"]
    contribute_knows_stable [where a = db and b = "rollback db v"]
  by (cases rq) (simp_all add: key_free_def select_fp_by_phash_def)

section \<open>Commits\<close>

text \<open>The ways in which a transaction with changes ends.\<close>

lemma finished_cases:
  assumes "knows rq (Finished a) P L db" "P \<noteq> []"
  obtains
    (flagged) K nonce i cid reason now th r P0 q where "rq = FlagRequest K nonce i cid reason now th"
      "RowLock i \<in> set L" "live i db r" "flag_stored K nonce i cid reason now P0 db"
      "flag_ends th now r (count_flaggers i (apply_effects P0 db)) q P0 P a"
  | (hit) K nonce i cid g d now r P0 where "rq = HitRequest K nonce i cid g d now"
      "RowLock i \<in> set L" "live i db r" "hit_stored K nonce i cid g d now P0 db"
      "P = P0 @ [SetFp (r\<lparr>fp_hit_count := fp_hit_count r + 1, fp_last_hit_at_ms := Some now\<rparr>)]"
      "a = HitCounted (Some (fp_hit_count r + 1))"
  | (deleted) i now r q where "rq = DeleteRequest i now" "RowLock i \<in> set L" "live i db r"
      "P = [SetFp (r\<lparr>fp_status := Deleted, fp_sync_seq := q, fp_updated_at_ms := now\<rparr>)]" "a = WasDeleted True"
  | (revived) c er eu eg i r q where "rq = ContributeRequest c er eu eg" "RowLock i \<in> set L"
      "tombstone_of c i db r" "revivable c er eu eg" "P = [clears i db, SetFp (resurrect_row c er eu eg q r)]"
      "a = Contributed (Some (resurrect_row c er eu eg q r)) True"
  | (inserted) c er eu eg m q where "rq = ContributeRequest c er eu eg" "RowLock m \<in> set L"
      "m < fingerprints_id_seq db" "select_fp m db = None" "key_free c db"
      "con_consumer_id c \<in> cons_id ` set (consumers db)" "revivable c er eu eg"
      "P = [AddFp ((new_row c er eu eg)\<lparr>fp_id := m, fp_sync_seq := q\<rparr>)]"
      "a = Contributed (Some ((new_row c er eu eg)\<lparr>fp_id := m, fp_sync_seq := q\<rparr>)) True"
proof (cases rq)
  case (FlagRequest K nonce i cid reason now th)
  then show ?thesis using assms flagged by auto
next
  case (HitRequest K nonce i cid g d now)
  then show ?thesis using assms hit by auto
next
  case (DeleteRequest i now)
  then show ?thesis using assms deleted by auto
next
  case (ContributeRequest c er eu eg)
  then have "contribute_knows c er eu eg (Finished a) P L db" using assms(1) by simp
  then show ?thesis
    using assms(2) ContributeRequest revived inserted by (simp only: contribute_knows.simps) blast
qed

definition hash_keys :: "db \<Rightarrow> (string \<times> int) set" where
  "hash_keys db = (\<lambda>r. (fp_phash_hex r, fp_consumer_id r)) ` set (fingerprints db)"

lemma key_free_keys: "key_free c db \<longleftrightarrow> pg_text (con_phash_hex c) \<and> (con_phash_hex c, con_consumer_id c) \<notin> hash_keys db"
  by (simp only: key_free_def hash_keys_def select_fp_by_phash_None_iff)

lemma keys_effect:
  "hash_keys (apply_effect e db) \<subseteq> hash_keys db \<union>
     (case e of AddFp r \<Rightarrow> {(fp_phash_hex r, fp_consumer_id r)} | SetFp r \<Rightarrow> {(fp_phash_hex r, fp_consumer_id r)} | _ \<Rightarrow> {})"
  by (cases e) (auto simp: hash_keys_def)

lemma select_in_keys: "select_fp i db = Some r \<Longrightarrow> (fp_phash_hex r, fp_consumer_id r) \<in> hash_keys db"
  by (auto simp: hash_keys_def dest: select_fp_SomeD)

text \<open>A commit changes one fingerprint, which its transaction has locked.\<close>

lemma stored_on:
  "flag_stored K nonce i cid reason now P0 db \<Longrightarrow> P0 = [] \<or> (\<exists>f. P0 = [AddFlag f] \<and> flag_fingerprint_id f = i)"
  "hit_stored K nonce i cid g d now P0 db \<Longrightarrow> \<exists>h. P0 = [AddHit h] \<and> hit_fingerprint_id h = i"
  by (auto simp: flag_stored_def hit_stored_def split: if_splits)

definition changes_one :: "request_txn \<Rightarrow> effect list \<Rightarrow> lock list \<Rightarrow> db \<Rightarrow> int \<Rightarrow> bool" where
  "changes_one rq P L db i \<longleftrightarrow> RowLock i \<in> set L \<and> (\<forall>e \<in> set P. effect_on e = i)
     \<and> (\<forall>r. dead i db r \<longrightarrow> (\<exists>c er eu eg. rq = ContributeRequest c er eu eg
          \<and> fp_phash_hex r = con_phash_hex c \<and> fp_consumer_id r = con_consumer_id c))
     \<and> hash_keys (apply_effects P db) \<subseteq> hash_keys db \<union>
         (case rq of ContributeRequest c er eu eg \<Rightarrow> {(con_phash_hex c, con_consumer_id c)} | _ \<Rightarrow> {})"

lemma commit_changes_one:
  assumes "knows rq (Finished a) P L db" "P \<noteq> []"
  shows "\<exists>i. changes_one rq P L db i"
  using assms
proof (cases rule: finished_cases)
  case (flagged K nonce i cid reason now th r P0 q)
  have "fp_id r = i" using flagged(3) by (auto simp: live_def dest: select_fp_SomeD)
  then show ?thesis
    using flagged stored_on(1) [OF flagged(4)] select_in_keys [of i db r]
    by (intro exI [of _ i]) (auto simp: changes_one_def flag_ends_def live_def dead_def hash_keys_def split: if_splits)
next
  case (hit K nonce i cid g d now r P0)
  have "fp_id r = i" using hit(3) by (auto simp: live_def dest: select_fp_SomeD)
  then show ?thesis
    using hit stored_on(2) [OF hit(4)] select_in_keys [of i db r]
    by (intro exI [of _ i]) (auto simp: changes_one_def live_def dead_def hash_keys_def)
next
  case (deleted i now r q)
  have "fp_id r = i" using deleted(3) by (auto simp: live_def dest: select_fp_SomeD)
  then show ?thesis
    using deleted select_in_keys [of i db r]
    by (intro exI [of _ i]) (auto simp: changes_one_def live_def dead_def hash_keys_def)
next
  case (revived c er eu eg i r q)
  have "fp_id r = i" using revived(3) by (auto simp: tombstone_of_def dead_def dest: select_fp_SomeD)
  then show ?thesis
    using revived select_in_keys [of i db r]
    by (intro exI [of _ i]) (auto simp: changes_one_def tombstone_of_def dead_def clears_def resurrect_row_def hash_keys_def)
next
  case (inserted c er eu eg m q)
  then show ?thesis by (intro exI [of _ m]) (auto simp: changes_one_def dead_def new_row_def hash_keys_def)
qed

lemma commit_keeps_others:
  assumes fin: "knows rq (Finished a) P L db" and other: "knows rq2 p2 P2 L2 db"
    and locks: "set L \<inter> set L2 = {}" and keys: "\<not> same_key rq rq2"
  shows "knows rq2 p2 P2 L2 (apply_effects P db)"
proof (cases "P = []")
  case False
  obtain i where "changes_one rq P L db i" using commit_changes_one [OF fin False] by blast
  then have i: "RowLock i \<in> set L" "\<forall>e \<in> set P. effect_on e = i"
    "\<And>r. dead i db r \<Longrightarrow> \<exists>c er eu eg. rq = ContributeRequest c er eu eg
      \<and> fp_phash_hex r = con_phash_hex c \<and> fp_consumer_id r = con_consumer_id c"
    "hash_keys (apply_effects P db) \<subseteq> hash_keys db \<union>
      (case rq of ContributeRequest c er eu eg \<Rightarrow> {(con_phash_hex c, con_consumer_id c)} | _ \<Rightarrow> {})"
    by (simp_all add: changes_one_def)
  have agree: "agree j db (apply_effects P db)" if "j \<noteq> i" for j
    by (rule agree_other) (use that i(2) in blast)
  have locked: "agree j db (apply_effects P db)" if "RowLock j \<in> set L2" for j
    by (rule agree) (use that i(1) locks in auto)
  show ?thesis
  proof (cases rq2)
    case (ContributeRequest c er eu eg)
    show ?thesis
      unfolding ContributeRequest knows.simps
    proof (rule contribute_knows_stable)
      show "contribute_knows c er eu eg p2 P2 L2 db" using other ContributeRequest by simp
      show "agree j db (apply_effects P db)" if "tombstone_of c j db r" for j r
      proof (rule agree)
        show "j \<noteq> i"
          using that i(3) [of r] keys ContributeRequest by (auto simp: tombstone_of_def)
      qed
      show "key_free c (apply_effects P db)" if "key_free c db"
        using that i(4) keys ContributeRequest by (auto simp: key_free_keys split: request_txn.splits)
      show "select_fp m (apply_effects P db) = None" if "RowLock m \<in> set L2" "select_fp m db = None" for m
        using locked [OF that(1)] that(2) by (simp add: agree_def)
    qed simp_all
  qed (use other locked flag_knows_stable hit_knows_stable delete_knows_stable in simp_all)
qed (use other in simp)

section \<open>What is committed\<close>

definition children_ok :: "db \<Rightarrow> bool" where
  "children_ok db \<longleftrightarrow> (\<forall>f \<in> set (fingerprint_flags db). flag_fingerprint_id f \<in> fp_id ` set (fingerprints db))
     \<and> (\<forall>h \<in> set (fingerprint_hits db). hit_fingerprint_id h \<in> fp_id ` set (fingerprints db))"

definition committed_ok :: "int \<Rightarrow> db \<Rightarrow> bool" where
  "committed_ok th db \<longleftrightarrow> rows_ok db \<and> children_ok db \<and> flags_counted db \<and> active_below th db \<and> hits_counted db"

lemma hub_inv_committed_ok: "hub_inv th db \<Longrightarrow> committed_ok th db"
  by (auto simp: hub_inv_def committed_ok_def db_ok_defs rows_ok_def children_ok_def)

text \<open>A new version of a row, after other changes to the tables of its flags and hits.\<close>

lemma new_version_ok:
  assumes ok: "committed_ok th db" and sel: "select_fp i db = Some r"
    and same: "fingerprints db1 = fingerprints db" "fingerprints_id_seq db1 = fingerprints_id_seq db"
    and children: "children_ok db1"
    and others: "\<And>j. j \<noteq> i \<Longrightarrow> count_flaggers j db1 = count_flaggers j db" "\<And>j. j \<noteq> i \<Longrightarrow> hits_of j db1 = hits_of j db"
    and row: "fp_id r' = i" "fp_phash_hex r' = fp_phash_hex r" "fp_consumer_id r' = fp_consumer_id r"
      "fp_flag_count r' = count_flaggers i db1" "fp_status r' = Active \<Longrightarrow> count_flaggers i db1 < th"
      "hits_of i db1 \<le> fp_hit_count r'"
  shows "committed_ok th (apply_effect (SetFp r') db1)"
proof -
  let ?db' = "apply_effect (SetFp r') db1"
  have r: "r \<in> set (fingerprints db)" "fp_id r = i" using select_fp_SomeD [OF sel] by simp_all
  have rows: "rows_ok db" using ok by (simp add: committed_ok_def)
  have only: "x = r" if "x \<in> set (fingerprints db)" "fp_id x = i" for x
  proof -
    have "select_fp i db = Some x" using that rows by (simp add: rows_ok_select)
    then show ?thesis using sel by simp
  qed
  have ids: "map fp_id (fingerprints ?db') = map fp_id (fingerprints db)" using row(1) same by simp
  have keys: "map (\<lambda>x. (fp_phash_hex x, fp_consumer_id x)) (fingerprints ?db')
      = map (\<lambda>x. (fp_phash_hex x, fp_consumer_id x)) (fingerprints db)"
    using row(1-3) same only by auto
  have members: "x = r' \<or> x \<in> set (fingerprints db) \<and> fp_id x \<noteq> i" if "x \<in> set (fingerprints ?db')" for x
    using that row(1) same(1) by (auto split: if_splits)
  have "\<forall>x \<in> set (fingerprints db). fp_id x < fingerprints_id_seq db" using rows by (simp add: rows_ok_def)
  then have "fp_id x < fingerprints_id_seq ?db'" if "x \<in> set (fingerprints ?db')" for x
    using members [OF that] r row(1) same(2) by auto
  then have "rows_ok ?db'"
    using rows unfolding rows_ok_def ids keys by blast
  moreover have "children_ok ?db'"
  proof -
    have "fp_id ` set (fingerprints ?db') = fp_id ` set (fingerprints db1)"
      using ids same(1) by (metis list.set_map)
    then show ?thesis using children unfolding children_ok_def by simp
  qed
  moreover have cf: "count_flaggers j ?db' = count_flaggers j db1" and ch: "hits_of j ?db' = hits_of j db1" for j
    by (simp_all add: count_flaggers_def hits_of_def)
  moreover have "flags_counted ?db'"
    unfolding flags_counted_def cf
    using members ok row(1,4) others(1) by (fastforce simp: committed_ok_def flags_counted_def)
  moreover have "active_below th ?db'"
    unfolding active_below_def
    using members ok row(4,5) by (fastforce simp: committed_ok_def active_below_def)
  moreover have "hits_counted ?db'"
    unfolding hits_counted_def ch
    using members ok row(1,6) others(2) by (fastforce simp: committed_ok_def hits_counted_def)
  ultimately show ?thesis by (simp add: committed_ok_def)
qed

lemma committed_row:
  assumes "committed_ok th db" "select_fp i db = Some r"
  shows "fp_id r = i" "i \<in> fp_id ` set (fingerprints db)" "fp_flag_count r = count_flaggers i db"
    "fp_status r = Active \<Longrightarrow> fp_flag_count r < th" "hits_of i db \<le> fp_hit_count r"
  using assms select_fp_SomeD [OF assms(2)]
  by (auto simp: committed_ok_def flags_counted_def active_below_def hits_counted_def)

lemma commit_ok:
  assumes know: "knows rq (Finished a) P L db" and ok: "committed_ok th db" and fits: "fits th rq" and th: "1 \<le> th"
  shows "committed_ok th (apply_effects P db)"
proof (cases "P = []")
  case False
  note children = ok [unfolded committed_ok_def, THEN conjunct2, THEN conjunct1]
  from know False show ?thesis
  proof (cases rule: finished_cases)
    case (flagged K nonce i cid reason now th' r P0 q)
    let ?db1 = "apply_effects P0 db" and ?n = "count_flaggers i (apply_effects P0 db)"
    have sel: "select_fp i db = Some r" using flagged(3) by (simp add: live_def)
    note row = committed_row [OF ok sel]
    have P0: "P0 = [] \<or> (\<exists>f. P0 = [AddFlag f] \<and> flag_fingerprint_id f = i)" by (rule stored_on(1) [OF flagged(4)])
    have P: "\<exists>r'. P = P0 @ [SetFp r'] \<and> fp_id r' = i \<and> fp_phash_hex r' = fp_phash_hex r
        \<and> fp_consumer_id r' = fp_consumer_id r \<and> fp_flag_count r' = ?n \<and> (fp_status r' = Active \<longrightarrow> ?n < th)
        \<and> fp_hit_count r' = fp_hit_count r"
      using flagged(1,5) fits row(1) by (auto simp: flag_ends_def split: if_splits)
    then obtain r' where r': "P = P0 @ [SetFp r']" "fp_id r' = i" "fp_phash_hex r' = fp_phash_hex r"
        "fp_consumer_id r' = fp_consumer_id r" "fp_flag_count r' = ?n" "fp_status r' = Active \<Longrightarrow> ?n < th"
        "fp_hit_count r' = fp_hit_count r" by blast
    have "committed_ok th (apply_effect (SetFp r') ?db1)"
    proof (rule new_version_ok [OF ok sel])
      show "children_ok ?db1" using P0 children row(2) by (auto simp: children_ok_def)
      show "count_flaggers j ?db1 = count_flaggers j db" if "j \<noteq> i" for j
        by (rule agree_count [OF agree_other]) (use that P0 in auto)
      have hits: "hits_of j ?db1 = hits_of j db" for j using P0 by (auto simp: hits_of_def)
      then show "hits_of j ?db1 = hits_of j db" for j .
      show "hits_of i ?db1 \<le> fp_hit_count r'" using hits row(5) r'(7) by simp
    qed (use P0 r' in auto)
    then show ?thesis by (simp add: r'(1))
  next
    case (hit K nonce i cid g d now r P0)
    let ?db1 = "apply_effects P0 db"
    have sel: "select_fp i db = Some r" using hit(3) by (simp add: live_def)
    note row = committed_row [OF ok sel]
    obtain h where P0: "P0 = [AddHit h]" "hit_fingerprint_id h = i" using stored_on(2) [OF hit(4)] by blast
    have cf: "count_flaggers j ?db1 = count_flaggers j db" for j by (simp add: P0 count_flaggers_def)
    have "committed_ok th (apply_effect (SetFp (r\<lparr>fp_hit_count := fp_hit_count r + 1, fp_last_hit_at_ms := Some now\<rparr>)) ?db1)"
    proof (rule new_version_ok [OF ok sel])
      show "children_ok ?db1" using P0 children row(2) by (auto simp: children_ok_def)
      have ch: "hits_of j ?db1 = hits_of j db + (if j = i then 1 else 0)" for j
        using P0 by (simp add: hits_of_def)
      show "hits_of j ?db1 = hits_of j db" if "j \<noteq> i" for j using ch that by simp
      show "hits_of i ?db1 \<le> fp_hit_count (r\<lparr>fp_hit_count := fp_hit_count r + 1, fp_last_hit_at_ms := Some now\<rparr>)"
        using ch row(5) by simp
    qed (use row cf P0 in auto)
    then show ?thesis by (simp add: hit(5))
  next
    case (deleted i now r q)
    have sel: "select_fp i db = Some r" using deleted(3) by (simp add: live_def)
    note row = committed_row [OF ok sel]
    have "committed_ok th (apply_effect (SetFp (r\<lparr>fp_status := Deleted, fp_sync_seq := q, fp_updated_at_ms := now\<rparr>)) db)"
      by (rule new_version_ok [OF ok sel]) (use row children in auto)
    then show ?thesis by (simp add: deleted(4))
  next
    case (revived c er eu eg i r q)
    let ?db1 = "apply_effect (clears i db) db"
    have sel: "select_fp i db = Some r" using revived(3) by (simp add: tombstone_of_def dead_def)
    note row = committed_row [OF ok sel]
    have none: "flags_at i ?db1 = []"
      by (simp add: clears_def flags_at_def filter_empty_conv)
    then have zero: "count_flaggers i ?db1 = 0" by (simp add: count_flaggers_def flags_at_def)
    have "committed_ok th (apply_effect (SetFp (resurrect_row c er eu eg q r)) ?db1)"
    proof (rule new_version_ok [OF ok sel])
      show "children_ok ?db1" using children by (auto simp: children_ok_def clears_def)
      show "count_flaggers j ?db1 = count_flaggers j db" if "j \<noteq> i" for j
        by (rule agree_count [OF agree_effect_other]) (use that in \<open>simp add: clears_def\<close>)
      have hits: "hits_of j ?db1 = hits_of j db" for j by (simp add: hits_of_def clears_def)
      then show "hits_of j ?db1 = hits_of j db" for j .
      show "hits_of i ?db1 \<le> fp_hit_count (resurrect_row c er eu eg q r)"
        using hits row(5) by (simp add: resurrect_row_def)
    qed (use row zero th in \<open>auto simp: resurrect_row_def clears_def\<close>)
    then show ?thesis by (simp add: revived(5))
  next
    case (inserted c er eu eg m q)
    let ?row = "(new_row c er eu eg)\<lparr>fp_id := m, fp_sync_seq := q\<rparr>"
    let ?db' = "apply_effect (AddFp ?row) db"
    have fields: "fp_id ?row = m" "fp_flag_count ?row = 0" "fp_hit_count ?row = 0"
      "(fp_phash_hex ?row, fp_consumer_id ?row) = (con_phash_hex c, con_consumer_id c)"
      by (simp_all add: new_row_def)
    have m: "m \<notin> fp_id ` set (fingerprints db)" by (rule iffD1 [OF select_fp_None_iff inserted(4)])
    then have none: "count_flaggers m db = 0" "hits_of m db = 0"
      using children by (auto simp: children_ok_def count_flaggers_def hits_of_def filter_empty_conv)
    have key: "(con_phash_hex c, con_consumer_id c) \<notin> hash_keys db" using inserted(5) by (simp add: key_free_keys)
    have cf: "count_flaggers j ?db' = count_flaggers j db" "hits_of j ?db' = hits_of j db" for j
      by (simp_all add: count_flaggers_def hits_of_def)
    have rows: "set (fingerprints ?db') = insert ?row (set (fingerprints db))" by simp
    have "rows_ok ?db'"
      using ok m key inserted(3) fields by (auto simp: committed_ok_def rows_ok_def hash_keys_def)
    moreover have "children_ok ?db'" using children by (auto simp: children_ok_def)
    moreover have "flags_counted ?db'" "active_below th ?db'" "hits_counted ?db'"
      using ok none fields th unfolding committed_ok_def flags_counted_def active_below_def hits_counted_def rows cf
      by auto
    ultimately show ?thesis by (simp add: committed_ok_def inserted(8))
  qed
qed (use ok in simp)

end
