(* ===== verification/Concurrent_Runs.thy ===== *)
theory Concurrent_Runs
  imports Concurrent_Invariant
begin

text \<open>
  Interleaved runs of the store's transactions: a commit has the effect of the whole operation on
  what is committed at that moment, and the invariant of all reachable states.
\<close>

section \<open>A commit is the whole operation\<close>

definition same_tables :: "db \<Rightarrow> db \<Rightarrow> bool" where
  "same_tables a b \<longleftrightarrow> consumers a = consumers b \<and> fingerprints a = fingerprints b
     \<and> fingerprint_hits a = fingerprint_hits b \<and> fingerprint_flags a = fingerprint_flags b"

text \<open>The operation's answer and effect, for some values of the sequences.\<close>

definition serial :: "request_txn \<Rightarrow> answer \<Rightarrow> db \<Rightarrow> db \<Rightarrow> bool" where
  "serial rq a before after \<longleftrightarrow>
     (\<exists>q A. atomic rq (rollback before q) = (Inr a, A) \<and> same_tables A after)"

lemma rollback_seqs:
  "rollback db (db\<lparr>flags_id_seq := m, fingerprints_sync_seq := n\<rparr>) = db\<lparr>flags_id_seq := m, fingerprints_sync_seq := n\<rparr>"
  "rollback db (db\<lparr>hits_id_seq := m\<rparr>) = db\<lparr>hits_id_seq := m\<rparr>"
  "rollback db (db\<lparr>fingerprints_id_seq := m, fingerprints_sync_seq := n\<rparr>) = db\<lparr>fingerprints_id_seq := m, fingerprints_sync_seq := n\<rparr>"
  "rollback db (db\<lparr>fingerprints_sync_seq := n\<rparr>) = db\<lparr>fingerprints_sync_seq := n\<rparr>"
  by (simp_all add: rollback_def)

lemma new_version_update:
  assumes "rows_ok db" "select_fp i db = Some r" "fingerprints v = fingerprints db"
  shows "fingerprints (update_fp i f v) = map (\<lambda>x. if fp_id x = i then f r else x) (fingerprints db)"
proof -
  have "x = r" if "x \<in> set (fingerprints db)" "fp_id x = i" for x
  proof -
    have "select_fp i db = Some x" using that assms(1) by (simp add: rows_ok_select)
    then show ?thesis using assms(2) by simp
  qed
  then show ?thesis by (simp add: update_fp_def assms(3))
qed

lemma flagged_flag:
  "(\<exists>f \<in> set (fingerprint_flags db). flag_fingerprint_id f = i \<and> flag_consumer_id f = cid)
    \<longleftrightarrow> cid \<in> flag_consumer_id ` set (flags_at i db)"
  by (auto simp: flags_at_def)

lemma flag_serial:
  assumes ok: "rows_ok db" and r: "live i db r" and stored: "flag_stored K nonce i cid reason now P0 db"
    and ends: "flag_ends th now r (count_flaggers i (apply_effects P0 db)) q P0 P a"
  shows "serial (FlagRequest K nonce i cid reason now th) a db (apply_effects P db)"
proof -
  from stored obtain enc m where enc: "encrypt_field K nonce reason = Inr enc" "pred_option pg_text enc"
    and P0: "P0 = (if cid \<in> flag_consumer_id ` set (flags_at i db) then []
      else [AddFlag \<lparr>flag_id = m, flag_fingerprint_id = i, flag_consumer_id = cid, flag_reason = enc, flag_created_at_ms = now\<rparr>])"
    and cid: "cid \<notin> flag_consumer_id ` set (flags_at i db) \<Longrightarrow> cid \<in> cons_id ` set (consumers db)"
    unfolding flag_stored_def by (metis (no_types, lifting))
  let ?Q = "db\<lparr>flags_id_seq := m, fingerprints_sync_seq := q\<rparr>"
  let ?Q1 = "(apply_effects P0 ?Q)\<lparr>flags_id_seq := m + 1\<rparr>"
  have sel: "select_fp i db = Some r" "fp_id r = i" "fp_status r \<noteq> Deleted" and mem: "i \<in> fp_id ` set (fingerprints db)"
    using r select_fp_SomeD by (fastforce simp: live_def)+
  have ins: "insert_flag i cid enc now ?Q = (Inr (), ?Q1)"
    using enc(2) mem cid flagged_flag [of db i cid] by (simp add: insert_flag_def P0 Let_def)
  have tabs: "fingerprints ?Q1 = fingerprints db" "fingerprint_flags ?Q1 = fingerprint_flags (apply_effects P0 db)"
    "fingerprint_hits ?Q1 = fingerprint_hits db" "consumers ?Q1 = consumers db" "fingerprints_sync_seq ?Q1 = q"
    "fingerprints (apply_effects P0 db) = fingerprints db" "fingerprint_hits (apply_effects P0 db) = fingerprint_hits db"
    by (simp_all add: P0)
  then have n: "count_flaggers i ?Q1 = count_flaggers i (apply_effects P0 db)" by (simp add: count_flaggers_def)
  have upd: "fingerprints (update_fp i f v) = map (\<lambda>x. if fp_id x = i then f r else x) (fingerprints db)"
    if "fingerprints v = fingerprints db" for f v
    by (rule new_version_update [OF ok sel(1) that])
  show ?thesis
  proof (cases "th \<le> count_flaggers i (apply_effects P0 db) \<and> fp_status r = Active")
    case True
    let ?A = "update_fp i (\<lambda>r. r\<lparr>fp_status := Hidden, fp_flag_count := count_flaggers i (apply_effects P0 db),
        fp_sync_seq := q, fp_updated_at_ms := now\<rparr>) (?Q1\<lparr>fingerprints_sync_seq := q + 1\<rparr>)"
    have "atomic (FlagRequest K nonce i cid reason now th) ?Q = (Inr a, ?A)"
      using True ends sel enc(1) ins n tabs(5)
      by (simp add: flag_txn_def transaction_def nextval_sync_def flag_ends_def Let_def)
    moreover have "same_tables ?A (apply_effects P db)"
      using True ends tabs sel(2) by (simp add: same_tables_def upd flag_ends_def)
    ultimately show ?thesis
      unfolding serial_def by (intro exI [of _ ?Q] exI [of _ ?A]) (simp only: rollback_seqs simp_thms)
  next
    case False
    let ?A = "update_fp i (\<lambda>r. r\<lparr>fp_flag_count := count_flaggers i (apply_effects P0 db),
        fp_updated_at_ms := now\<rparr>) ?Q1"
    have "atomic (FlagRequest K nonce i cid reason now th) ?Q = (Inr a, ?A)"
      using False ends sel enc(1) ins n
      by (auto simp: flag_txn_def transaction_def flag_ends_def Let_def)
    moreover have "same_tables ?A (apply_effects P db)"
      using False ends tabs sel(2) by (auto simp: same_tables_def upd flag_ends_def)
    ultimately show ?thesis
      unfolding serial_def by (intro exI [of _ ?Q] exI [of _ ?A]) (simp only: rollback_seqs simp_thms)
  qed
qed

lemma hit_serial:
  assumes ok: "rows_ok db" and r: "live i db r" and stored: "hit_stored K nonce i cid g d now P0 db"
    and P: "P = P0 @ [SetFp (r\<lparr>fp_hit_count := fp_hit_count r + 1, fp_last_hit_at_ms := Some now\<rparr>)]"
  shows "serial (HitRequest K nonce i cid g d now) (HitCounted (Some (fp_hit_count r + 1))) db (apply_effects P db)"
proof -
  from stored obtain enc m where enc: "encrypt_field K nonce g = Inr enc" "pred_option pg_text enc" "pred_option pg_integer d"
    and cid: "cid \<in> cons_id ` set (consumers db)"
    and P0: "P0 = [AddHit \<lparr>hit_id = m, hit_fingerprint_id = i, hit_consumer_id = cid, hit_guild_id = enc,
      hit_distance = d, hit_at_ms = now\<rparr>]"
    unfolding hit_stored_def by blast
  let ?Q = "db\<lparr>hits_id_seq := m\<rparr>"
  let ?Q1 = "(apply_effects P0 ?Q)\<lparr>hits_id_seq := m + 1\<rparr>"
  let ?f = "\<lambda>r. r\<lparr>fp_hit_count := fp_hit_count r + 1, fp_last_hit_at_ms := Some now\<rparr>"
  have sel: "select_fp i db = Some r" "fp_id r = i" "fp_status r \<noteq> Deleted" and mem: "i \<in> fp_id ` set (fingerprints db)"
    using r select_fp_SomeD by (fastforce simp: live_def)+
  have ins: "insert_hit i cid enc d now ?Q = (Inr (), ?Q1)"
    using enc(2,3) mem cid by (simp add: insert_hit_def P0 Let_def)
  have tabs: "fingerprints ?Q1 = fingerprints db" "fingerprint_flags ?Q1 = fingerprint_flags db"
    "fingerprint_hits ?Q1 = fingerprint_hits (apply_effects P0 db)" "consumers ?Q1 = consumers db"
    "fingerprints (apply_effects P0 db) = fingerprints db" "fingerprint_flags (apply_effects P0 db) = fingerprint_flags db"
    by (simp_all add: P0)
  have upd: "fingerprints (update_fp i ?f ?Q1) = map (\<lambda>x. if fp_id x = i then ?f r else x) (fingerprints db)"
    by (rule new_version_update [OF ok sel(1) tabs(1)])
  have "select_fp i (update_fp i ?f ?Q1) = Some (?f r)"
    using sel select_fp_cong [OF tabs(1), of i] by (simp add: select_fp_update)
  then have "atomic (HitRequest K nonce i cid g d now) ?Q
      = (Inr (HitCounted (Some (fp_hit_count r + 1))), update_fp i ?f ?Q1)"
    using sel enc(1) ins by (simp add: report_hit_txn_def transaction_def Let_def)
  moreover have "same_tables (update_fp i ?f ?Q1) (apply_effects P db)"
    using tabs sel(2) by (simp add: same_tables_def upd P)
  ultimately show ?thesis
    unfolding serial_def by (intro exI [of _ ?Q] exI [of _ "update_fp i ?f ?Q1"]) (simp only: rollback_seqs simp_thms)
qed

lemma delete_serial:
  assumes ok: "rows_ok db" and r: "live i db r"
  shows "serial (DeleteRequest i now) (WasDeleted True) db
    (apply_effects [SetFp (r\<lparr>fp_status := Deleted, fp_sync_seq := q, fp_updated_at_ms := now\<rparr>)] db)"
proof -
  let ?Q = "db\<lparr>fingerprints_sync_seq := q\<rparr>"
  let ?f = "\<lambda>r. r\<lparr>fp_status := Deleted, fp_sync_seq := q, fp_updated_at_ms := now\<rparr>"
  let ?A = "update_fp i ?f (?Q\<lparr>fingerprints_sync_seq := q + 1\<rparr>)"
  have sel: "select_fp i db = Some r" "fp_id r = i" "fp_status r \<noteq> Deleted"
    using r select_fp_SomeD by (fastforce simp: live_def)+
  have upd: "fingerprints (update_fp i ?f v) = map (\<lambda>x. if fp_id x = i then ?f r else x) (fingerprints db)"
    if "fingerprints v = fingerprints db" for v
    by (rule new_version_update [OF ok sel(1) that])
  have "atomic (DeleteRequest i now) ?Q = (Inr (WasDeleted True), ?A)"
    using sel by (simp add: soft_delete_txn_def transaction_def nextval_sync_def Let_def)
  moreover have "same_tables ?A (apply_effects [SetFp (?f r)] db)"
    using sel(2) by (simp add: same_tables_def upd)
  ultimately show ?thesis
    unfolding serial_def by (intro exI [of _ ?Q] exI [of _ ?A]) (simp only: rollback_seqs simp_thms)
qed

lemma revive_serial:
  assumes ok: "rows_ok db" and r: "tombstone_of c i db r" and good: "revivable c er eu eg"
  shows "serial (ContributeRequest c er eu eg) (Contributed (Some (resurrect_row c er eu eg q r)) True) db
    (apply_effects [clears i db, SetFp (resurrect_row c er eu eg q r)] db)"
proof -
  let ?Q = "db\<lparr>fingerprints_sync_seq := q\<rparr>"
  let ?f = "resurrect_row c er eu eg q"
  let ?A = "update_fp i ?f ((delete_flags_of i ?Q)\<lparr>fingerprints_sync_seq := q + 1\<rparr>)"
  have sel: "select_fp i db = Some r" "fp_id r = i" "fp_status r = Deleted" "r \<in> set (fingerprints db)"
    and key: "fp_phash_hex r = con_phash_hex c" "fp_consumer_id r = con_consumer_id c" "pg_text (con_phash_hex c)"
    using r select_fp_SomeD by (fastforce simp: tombstone_of_def dead_def)+
  have found: "select_fp_by_phash (con_phash_hex c) (con_consumer_id c) ?Q = Some r"
    using rows_ok_by_phash [OF ok sel(4)] key by (simp add: select_fp_by_phash_def)
  have upd: "fingerprints ?A = map (\<lambda>x. if fp_id x = i then ?f r else x) (fingerprints db)"
    by (rule new_version_update [OF ok sel(1)]) (simp add: delete_flags_of_def)
  have flags: "fingerprint_flags (delete_flags_of i ?Q) = fingerprint_flags (apply_effect (clears i db) db)"
    by (auto simp: delete_flags_of_def clears_def flags_at_def intro!: filter_cong)
  have "select_fp i ?A = Some (?f r)"
    using sel by (simp add: select_fp_update resurrect_row_def delete_flags_of_def)
  then have "resurrect c er eu eg i ?Q = (Inr (Some (?f r)), ?A)"
    using good by (simp add: resurrect_def revivable_def nextval_sync_def Let_def delete_flags_of_def)
  then have "atomic (ContributeRequest c er eu eg) ?Q = (Inr (Contributed (Some (?f r)) True), ?A)"
    using key(3) found sel(2,3) by (simp add: contribute_txn_def transaction_def Let_def)
  moreover have "same_tables ?A (apply_effects [clears i db, SetFp (?f r)] db)"
    using sel(2) flags by (simp add: same_tables_def upd) (simp add: clears_def resurrect_row_def delete_flags_of_def)
  ultimately show ?thesis
    unfolding serial_def by (intro exI [of _ ?Q] exI [of _ ?A]) (simp only: rollback_seqs simp_thms)
qed

lemma insert_serial:
  assumes free: "key_free c db" and cid: "con_consumer_id c \<in> cons_id ` set (consumers db)" and good: "revivable c er eu eg"
  shows "serial (ContributeRequest c er eu eg)
    (Contributed (Some ((new_row c er eu eg)\<lparr>fp_id := m, fp_sync_seq := q\<rparr>)) True) db
    (apply_effects [AddFp ((new_row c er eu eg)\<lparr>fp_id := m, fp_sync_seq := q\<rparr>)] db)"
proof -
  let ?Q = "db\<lparr>fingerprints_id_seq := m, fingerprints_sync_seq := q\<rparr>"
  let ?row = "(new_row c er eu eg)\<lparr>fp_id := m, fp_sync_seq := q\<rparr>"
  let ?A = "?Q\<lparr>fingerprints_id_seq := m + 1, fingerprints_sync_seq := q + 1, fingerprints := fingerprints db @ [?row]\<rparr>"
  have none: "select_fp_by_phash (con_phash_hex c) (con_consumer_id c) ?Q = None"
    using free by (simp add: key_free_def select_fp_by_phash_def)
  have "insert_fp (new_row c er eu eg) ?Q = (Inr (Some ?row), ?A)"
    using none good free cid by (simp add: insert_fp_def revivable_def key_free_def new_row_def Let_def)
  then have "atomic (ContributeRequest c er eu eg) ?Q = (Inr (Contributed (Some ?row) True), ?A)"
    using none free by (simp add: contribute_txn_def transaction_def key_free_def Let_def)
  moreover have "same_tables ?A (apply_effects [AddFp ?row] db)" by (simp add: same_tables_def)
  ultimately show ?thesis
    unfolding serial_def by (intro exI [of _ ?Q] exI [of _ ?A]) (simp only: rollback_seqs simp_thms)
qed

lemma commit_serial:
  assumes "rows_ok db" "knows rq (Finished a) P L db" "P \<noteq> []"
  shows "serial rq a db (apply_effects P db)"
  using assms(2,3)
proof (cases rule: finished_cases)
  case (flagged K nonce i cid reason now th r P0 q)
  show ?thesis unfolding flagged(1) by (rule flag_serial [OF assms(1) flagged(3-5)])
next
  case (hit K nonce i cid g d now r P0)
  show ?thesis unfolding hit(1,6) by (rule hit_serial [OF assms(1) hit(3-5)])
next
  case (deleted i now r q)
  show ?thesis unfolding deleted(1,4,5) by (rule delete_serial [OF assms(1) deleted(3)])
next
  case (revived c er eu eg i r q)
  show ?thesis unfolding revived(1,5,6) by (rule revive_serial [OF assms(1) revived(3,4)])
next
  case (inserted c er eu eg m q)
  show ?thesis unfolding inserted(1,8,9) by (rule insert_serial [OF inserted(5-7)])
qed

section \<open>Reachable states\<close>

text \<open>The locks a transaction can hold at a point.\<close>

fun holds :: "request_txn \<Rightarrow> point \<Rightarrow> lock list \<Rightarrow> bool" where
  "holds (FlagRequest K nonce i cid reason now th) p L \<longleftrightarrow> (p = FlagLock \<longrightarrow> L = [])
     \<and> (\<forall>k \<in> set L. k = RowLock i \<or> k = FlagKey i cid \<and> RowLock i \<in> set L)"
| "holds (HitRequest K nonce i cid g d now) p L \<longleftrightarrow> (p = HitLock \<longrightarrow> L = []) \<and> (\<forall>k \<in> set L. k = RowLock i)"
| "holds (DeleteRequest i now) p L \<longleftrightarrow> (p = DeleteUpdate \<longrightarrow> L = [])"
| "holds (ContributeRequest c er eu eg) p L \<longleftrightarrow>
     (case p of ContributeRevive i \<Rightarrow> \<forall>k \<in> set L. \<exists>cid. k = FlagKey i cid | _ \<Rightarrow> running p \<longrightarrow> L = [])"

lemma begin_holds: "holds rq (start rq) []"
  by (cases rq) simp_all

text \<open>No statement leads back to the first point.\<close>

lemma flag_leaves_start:
  "flag_statement K nonce i cid reason now th p v = (effs, v1, p') \<Longrightarrow> running p \<Longrightarrow> flag_knows K nonce i cid reason now th p P L db
    \<Longrightarrow> p' \<noteq> FlagLock"
  by (cases p) (auto simp: nextval_sync_def Let_def split: option.splits if_splits sum.splits prod.splits)

lemma hit_leaves_start:
  "hit_statement K nonce i cid g d now p v = (effs, v1, p') \<Longrightarrow> running p \<Longrightarrow> hit_knows K nonce i cid g d now p P L db
    \<Longrightarrow> p' \<noteq> HitLock"
  by (cases p) (auto split: option.splits if_splits sum.splits prod.splits)

lemma delete_leaves_start:
  "delete_statement i now p v = (effs, v1, p') \<Longrightarrow> running p \<Longrightarrow> delete_knows i now p P L db \<Longrightarrow> p' \<noteq> DeleteUpdate"
  by (cases p) (auto simp: nextval_sync_def Let_def split: option.splits if_splits)

lemma flag_takes:
  assumes "flag_locks i cid p v = (waits, takes)" "flag_knows K nonce i cid reason now th p P L db" "k \<in> set takes"
  shows "k = RowLock i \<or> k = FlagKey i cid \<and> RowLock i \<in> set L"
  using assms by (cases p) (auto simp: flag_locks_def row_lock_def split: if_splits)

lemma hit_takes: "hit_locks i p v = (waits, takes) \<Longrightarrow> set takes \<subseteq> {RowLock i}"
  by (cases p) (auto simp: hit_locks_def row_lock_def split: if_splits)

lemma insert_conflict:
  "insert_fp (new_row c er eu eg) v = (Inr None, v1) \<Longrightarrow> select_fp_by_phash (con_phash_hex c) (con_consumer_id c) v \<noteq> None"
  by (auto simp: new_row_def elim: insert_fp_cases)

lemma statement_holds:
  assumes "holds rq p L" "knows rq p P L db" "running p"
    and "execute rq p v = (effs, v1, p')" "wanted rq p v = (waits, takes)"
  shows "holds rq p' (L @ takes)"
proof (cases rq)
  case (FlagRequest K nonce i cid reason now th)
  have "k = RowLock i \<or> k = FlagKey i cid \<and> RowLock i \<in> set L" if "k \<in> set takes" for k
    by (rule flag_takes) (use assms(2,5) that FlagRequest in simp_all)
  moreover have "p' \<noteq> FlagLock" by (rule flag_leaves_start) (use assms(2-4) FlagRequest in simp_all)
  ultimately show ?thesis using assms(1) FlagRequest by auto
next
  case (HitRequest K nonce i cid g d now)
  have "set takes \<subseteq> {RowLock i}" by (rule hit_takes) (use assms(5) HitRequest in simp)
  moreover have "p' \<noteq> HitLock" by (rule hit_leaves_start) (use assms(2-4) HitRequest in simp_all)
  ultimately show ?thesis using assms(1) HitRequest by auto
next
  case (DeleteRequest i now)
  have "p' \<noteq> DeleteUpdate" by (rule delete_leaves_start) (use assms(2-4) DeleteRequest in simp_all)
  then show ?thesis using DeleteRequest by simp
next
  case (ContributeRequest c er eu eg)
  then show ?thesis
    using assms by (cases p) (auto simp: contribute_locks_def running_def nextval_sync_def Let_def
        dest: insert_conflict split: option.splits if_splits sum.splits prod.splits)
qed

definition cluster_ok :: "int \<Rightarrow> cluster \<Rightarrow> bool" where
  "cluster_ok th s \<longleftrightarrow> committed_ok th (cl_db s)
     \<and> (\<forall>n tx. cl_txns s n = Some tx \<longrightarrow> txn_ok tx (cl_db s) \<and> fits th (tx_request tx)
          \<and> holds (tx_request tx) (tx_point tx) (tx_locks tx)
          \<and> (running (tx_point tx) \<longrightarrow> (\<forall>i. RowLock i \<in> set (tx_locks tx) \<longrightarrow> i < fingerprints_id_seq (cl_db s))))
     \<and> (\<forall>n m tx u. cl_txns s n = Some tx \<longrightarrow> cl_txns s m = Some u \<longrightarrow> n \<noteq> m \<longrightarrow>
          set (tx_locks tx) \<inter> set (tx_locks u) = {} \<and> \<not> same_key (tx_request tx) (tx_request u))"

lemma cluster_okD:
  assumes "cluster_ok th s"
  shows "committed_ok th (cl_db s)"
    and "cl_txns s n = Some tx \<Longrightarrow> txn_ok tx (cl_db s) \<and> fits th (tx_request tx)
      \<and> holds (tx_request tx) (tx_point tx) (tx_locks tx)"
    and "cl_txns s n = Some tx \<Longrightarrow> running (tx_point tx) \<Longrightarrow> RowLock i \<in> set (tx_locks tx) \<Longrightarrow> i < fingerprints_id_seq (cl_db s)"
    and "cl_txns s n = Some tx \<Longrightarrow> cl_txns s m = Some u \<Longrightarrow> n \<noteq> m \<Longrightarrow>
      set (tx_locks tx) \<inter> set (tx_locks u) = {} \<and> \<not> same_key (tx_request tx) (tx_request u)"
  using assms by (auto simp: cluster_ok_def)

lemma same_key_sym: "same_key a b = same_key b a"
  by (cases a; cases b) auto

lemma committed_rows: "committed_ok th db \<Longrightarrow> rows_ok db"
  by (simp add: committed_ok_def)

text \<open>A running transaction sees the committed rows.\<close>

lemma running_view_rows:
  assumes "knows rq p P L db" "running p"
  shows "fingerprints (apply_effects P db) = fingerprints db"
proof -
  have one: "P = [] \<or> (\<exists>f. P = [AddFlag f]) \<or> (\<exists>h. P = [AddHit h]) \<or> (\<exists>i cs. P = [DropFlags i cs])"
    using assms
    by (cases rq; cases p) (auto simp: running_def clears_def dest!: stored_on)
  then show ?thesis by auto
qed

lemma execute_ids:
  assumes "execute rq p v = (effs, v1, p')"
  shows "fingerprints_id_seq v \<le> fingerprints_id_seq v1"
proof (cases rq)
  case (FlagRequest K nonce i cid reason now th)
  then show ?thesis
    using assms by (cases p) (auto simp: nextval_sync_def Let_def elim: insert_flag_cases
        split: option.splits if_splits sum.splits prod.splits)
next
  case (HitRequest K nonce i cid g d now)
  then show ?thesis
    using assms by (cases p) (auto elim: insert_hit_cases split: option.splits if_splits sum.splits prod.splits)
next
  case (DeleteRequest i now)
  then show ?thesis
    using assms by (cases p) (auto simp: nextval_sync_def Let_def split: option.splits if_splits)
next
  case (ContributeRequest c er eu eg)
  then show ?thesis
    using assms by (cases p) (auto simp: nextval_sync_def Let_def elim: insert_fp_cases
        split: option.splits if_splits sum.splits prod.splits)
qed

lemma committed_rollback:
  assumes "committed_ok th db" "fingerprints_id_seq db \<le> fingerprints_id_seq v"
  shows "committed_ok th (rollback db v)"
  using assms by (auto simp: committed_ok_def rows_ok_def children_ok_def flags_counted_def active_below_def
      hits_counted_def count_flaggers_def hits_of_def)

lemma row_lock_takes: "RowLock j \<in> set (row_lock i v) \<Longrightarrow> select_fp j v \<noteq> None"
  by (simp add: row_lock_def split: if_splits)

text \<open>A transaction that goes on has locked rows that exist.\<close>

lemma takes_existing:
  assumes "wanted rq p v = (waits, takes)" "execute rq p v = (effs, v1, p')" "running p" "running p'"
    and "RowLock j \<in> set takes"
  shows "select_fp j v \<noteq> None"
proof (cases rq)
  case (FlagRequest K nonce i cid reason now th)
  then show ?thesis
    using assms(1,5) row_lock_takes by (cases p) (auto simp: flag_locks_def split: if_splits)
next
  case (HitRequest K nonce i cid g d now)
  then show ?thesis using assms(1,5) row_lock_takes by (cases p) (auto simp: hit_locks_def)
next
  case (DeleteRequest i now)
  then show ?thesis using assms(1,5) by (cases p) (auto simp: delete_locks_def split: option.splits if_splits)
next
  case (ContributeRequest c er eu eg)
  show ?thesis
  proof (cases "p = ContributeInsert")
    case True
    then show ?thesis
      using assms(1,2,4,5) ContributeRequest
      by (auto simp: contribute_locks_def running_def dest: insert_conflict split: if_splits sum.splits prod.splits option.splits)
  next
    case False
    then show ?thesis
      using assms(1,5) ContributeRequest row_lock_takes by (cases p) (auto simp: contribute_locks_def)
  qed
qed

lemma begins_ok:
  assumes ok: "cluster_ok th s" and free: "cl_txns s n = None" and fits: "fits th rq"
    and alone: "\<And>m tx. cl_txns s m = Some tx \<Longrightarrow> \<not> same_key (tx_request tx) rq"
  shows "cluster_ok th (s\<lparr>cl_txns := (cl_txns s)(n \<mapsto> begin_txn rq)\<rparr>)"
proof -
  have new: "txn_ok (begin_txn rq) (cl_db s)" "tx_request (begin_txn rq) = rq" "tx_locks (begin_txn rq) = []"
    "holds rq (tx_point (begin_txn rq)) []"
    using begin_txn_ok begin_holds by (simp_all add: begin_txn_def)
  show ?thesis
    unfolding cluster_ok_def
  proof (intro conjI allI impI, goal_cases)
    case 1
    show ?case using cluster_okD(1) [OF ok] by simp
  next
    case (2 m tx)
    then show ?case using cluster_okD(2) [OF ok, of m tx] new by (simp split: if_splits)
  next
    case (3 m tx)
    then show ?case using cluster_okD(2) [OF ok, of m tx] new fits by (auto split: if_splits)
  next
    case (4 m tx)
    then show ?case using cluster_okD(2) [OF ok, of m tx] new by (auto split: if_splits)
  next
    case (5 m tx i)
    then show ?case using cluster_okD(3) [OF ok, of m tx i] new by (auto split: if_splits)
  next
    case (6 m k tx u)
    then show ?case using cluster_okD(4) [OF ok, of m tx k u] new by (auto split: if_splits)
  next
    case (7 m k tx u)
    then show ?case
      using cluster_okD(4) [OF ok, of m tx k u] new alone same_key_sym by (auto split: if_splits)
  qed
qed

lemma ends_ok:
  assumes ok: "cluster_ok th s" and db: "committed_ok th db"
    and seq: "fingerprints_id_seq (cl_db s) \<le> fingerprints_id_seq db"
    and others: "\<And>m u. cl_txns s m = Some u \<Longrightarrow> m \<noteq> n \<Longrightarrow> txn_ok u db"
  shows "cluster_ok th (s\<lparr>cl_db := db, cl_txns := (cl_txns s)(n := None)\<rparr>)"
  unfolding cluster_ok_def
proof (intro conjI allI impI, goal_cases)
  case 1
  show ?case using db by simp
next
  case (2 m tx)
  then show ?case using others by (auto split: if_splits)
next
  case (3 m tx)
  then show ?case using cluster_okD(2) [OF ok, of m tx] by (auto split: if_splits)
next
  case (4 m tx)
  then show ?case using cluster_okD(2) [OF ok, of m tx] by (auto split: if_splits)
next
  case (5 m tx i)
  then show ?case using cluster_okD(3) [OF ok, of m tx i] seq by (auto split: if_splits)
next
  case (6 m k tx u)
  then show ?case using cluster_okD(4) [OF ok, of m tx k u] by (auto split: if_splits)
next
  case (7 m k tx u)
  then show ?case using cluster_okD(4) [OF ok, of m tx k u] by (auto split: if_splits)
qed

lemma runs_ok:
  assumes ok: "cluster_ok th s" and tx: "cl_txns s n = Some tx" "running (tx_point tx)" and free: "unblocked n tx s"
  shows "cluster_ok th (run_statement n tx s)"
proof -
  let ?v = "view (cl_db s) tx" and ?rq = "tx_request tx"
  obtain effs v1 p where ex: "execute ?rq (tx_point tx) ?v = (effs, v1, p)" by (cases "execute ?rq (tx_point tx) ?v")
  obtain waits takes where locks: "wanted ?rq (tx_point tx) ?v = (waits, takes)" by fastforce
  let ?db = "rollback (cl_db s) v1"
  let ?tx = "tx\<lparr>tx_point := p, tx_pending := tx_pending tx @ effs, tx_locks := tx_locks tx @ takes\<rparr>"
  have s': "run_statement n tx s = s\<lparr>cl_db := ?db, cl_txns := (cl_txns s)(n \<mapsto> ?tx)\<rparr>"
    by (simp add: run_statement_def Let_def ex locks)
  note old = cluster_okD(2) [OF ok tx(1)]
  have know: "knows ?rq (tx_point tx) (tx_pending tx) (tx_locks tx) (cl_db s)" using old by (simp add: txn_ok_def)
  have rows: "rows_ok (cl_db s)" by (rule committed_rows [OF cluster_okD(1) [OF ok]])
  have seq: "fingerprints_id_seq (cl_db s) \<le> fingerprints_id_seq v1"
    using execute_ids [OF ex] by (simp add: view_def)
  have mine: "txn_ok ?tx ?db"
    using statement_knows [OF know _ _ rows tx(2)] ex locks by (simp add: txn_ok_def view_def)
  have held: "holds ?rq p (tx_locks tx @ takes)"
    using statement_holds [OF _ know tx(2) ex locks] old by blast
  have new: "set (tx_locks u) \<inter> set takes = {}" if "cl_txns s m = Some u" "m \<noteq> n" for m u
    using free that by (fastforce simp: unblocked_def locks)
  have below: "i < fingerprints_id_seq (cl_db s)" if "running p" "RowLock i \<in> set (tx_locks tx @ takes)" for i
  proof (cases "RowLock i \<in> set (tx_locks tx)")
    case True
    then show ?thesis by (rule cluster_okD(3) [OF ok tx])
  next
    case False
    then have "select_fp i ?v \<noteq> None" using takes_existing [OF locks ex tx(2) that(1)] that(2) by simp
    then obtain r where "select_fp i (cl_db s) = Some r"
      using running_view_rows [OF know tx(2)] by (auto simp: view_def select_fp_def)
    then show ?thesis using rows by (auto simp: rows_ok_select rows_ok_def)
  qed
  show ?thesis
    unfolding s' cluster_ok_def
  proof (intro conjI allI impI, goal_cases)
    case 1
    show ?case using committed_rollback [OF cluster_okD(1) [OF ok] seq] by simp
  next
    case (2 m u)
    then show ?case
      using mine cluster_okD(2) [OF ok, of m u] knows_rollback [OF _ seq] by (auto simp: txn_ok_def split: if_splits)
  next
    case (3 m u)
    then show ?case using old cluster_okD(2) [OF ok, of m u] by (auto split: if_splits)
  next
    case (4 m u)
    then show ?case using held cluster_okD(2) [OF ok, of m u] by (auto split: if_splits)
  next
    case (5 m u i)
    then show ?case
      using below [of i] seq order.strict_trans2 [OF cluster_okD(3) [OF ok, of m u i] seq] by (auto split: if_splits)
  next
    case (6 m k t u)
    then show ?case
      using new cluster_okD(4) [OF ok, of m _ k] tx(1) by (auto split: if_splits) blast+
  next
    case (7 m k t u)
    then show ?case
      using cluster_okD(4) [OF ok, of m _ k] tx(1) by (auto split: if_splits)
  qed
qed

lemma commits_ok:
  assumes ok: "cluster_ok th s" and tx: "cl_txns s n = Some tx" "tx_point tx = Finished a" and th: "1 \<le> th"
  shows "cluster_ok th (commit_txn n tx s)"
proof -
  note mine = cluster_okD(2) [OF ok tx(1)]
  have know: "knows (tx_request tx) (Finished a) (tx_pending tx) (tx_locks tx) (cl_db s)"
    using mine tx(2) by (simp add: txn_ok_def)
  show ?thesis
    unfolding commit_txn_def
  proof (rule ends_ok [OF ok])
    show "committed_ok th (apply_effects (tx_pending tx) (cl_db s))"
      by (rule commit_ok [OF know cluster_okD(1) [OF ok] _ th]) (use mine in blast)
    show "txn_ok u (apply_effects (tx_pending tx) (cl_db s))" if u: "cl_txns s m = Some u" "m \<noteq> n" for m u
    proof -
      have "knows (tx_request u) (tx_point u) (tx_pending u) (tx_locks u) (cl_db s)"
        using cluster_okD(2) [OF ok u(1)] by (simp add: txn_ok_def)
      moreover have "set (tx_locks tx) \<inter> set (tx_locks u) = {} \<and> \<not> same_key (tx_request tx) (tx_request u)"
        by (rule cluster_okD(4) [OF ok tx(1) u(1)]) (use u(2) in simp)
      ultimately show ?thesis unfolding txn_ok_def by (intro commit_keeps_others [OF know]) simp_all
    qed
  qed simp
qed

lemma aborts_ok:
  assumes "cluster_ok th s"
  shows "cluster_ok th (s\<lparr>cl_txns := (cl_txns s)(n := None)\<rparr>)"
proof -
  have "cluster_ok th (s\<lparr>cl_db := cl_db s, cl_txns := (cl_txns s)(n := None)\<rparr>)"
    using cluster_okD(1,2) [OF assms] by (intro ends_ok [OF assms]) simp_all
  then show ?thesis by simp
qed

lemma step_ok:
  assumes "concurrent_step True th s ev s'" "cluster_ok th s" "1 \<le> th"
  shows "cluster_ok th s'"
  using assms(1)
proof cases
  case (begins n rq)
  show ?thesis unfolding begins(2) by (rule begins_ok [OF assms(2)]) (use begins in simp_all)
next
  case (runs n tx)
  show ?thesis unfolding runs(2) by (rule runs_ok [OF assms(2) runs(3-5)])
next
  case (commits n tx a)
  show ?thesis unfolding commits(2) by (rule commits_ok [OF assms(2) commits(3,4) assms(3)])
next
  case (aborts n tx)
  show ?thesis unfolding aborts(2) by (rule aborts_ok [OF assms(2)])
qed

lemma reachable_ok:
  assumes "concurrent_reachable True th db s" "hub_inv th db" "1 \<le> th"
  shows "cluster_ok th s"
  using assms(1)
proof induction
  case rest
  then show ?case using hub_inv_committed_ok [OF assms(2)] by (simp add: cluster_ok_def)
next
  case (step s ev s')
  show ?case by (rule step_ok [OF step.hyps(2) step.IH assms(3)])
qed

end
