(* ===== verification/Concurrent_Progress.thy ===== *)
theory Concurrent_Progress
  imports Concurrent_Runs
begin

text \<open>
  Transactions at work at the same time do not block each other for good: some transaction can always
  go on, and all of them end after a bounded number of steps when nobody begins a new one.
\<close>

section \<open>Statements left\<close>

fun statements_left :: "point \<Rightarrow> nat" where
  "statements_left FlagLock = 4"
| "statements_left (FlagInsert st) = 3"
| "statements_left (FlagCount st) = 2"
| "statements_left (FlagUpdate st n) = 1"
| "statements_left HitLock = 3"
| "statements_left HitInsert = 2"
| "statements_left HitUpdate = 1"
| "statements_left DeleteUpdate = 1"
| "statements_left ContributeSelect = 3"
| "statements_left (ContributeClear i) = 2"
| "statements_left (ContributeRevive i) = 1"
| "statements_left ContributeInsert = 2"
| "statements_left ContributeReselect = 1"
| "statements_left (Finished a) = 0"
| "statements_left (Failed e) = 0"

lemma flag_statement_left:
  "flag_statement K nonce i cid reason now th p v = (effs, v1, p') \<Longrightarrow> running p \<Longrightarrow>
    flag_knows K nonce i cid reason now th p P L db \<Longrightarrow> statements_left p' < statements_left p"
  by (cases p) (auto simp: running_def nextval_sync_def Let_def split: option.splits if_splits sum.splits prod.splits)

lemma hit_statement_left:
  "hit_statement K nonce i cid g d now p v = (effs, v1, p') \<Longrightarrow> running p \<Longrightarrow>
    hit_knows K nonce i cid g d now p P L db \<Longrightarrow> statements_left p' < statements_left p"
  by (cases p) (auto simp: running_def split: option.splits if_splits sum.splits prod.splits)

lemma delete_statement_left:
  "delete_statement i now p v = (effs, v1, p') \<Longrightarrow> running p \<Longrightarrow> delete_knows i now p P L db \<Longrightarrow>
    statements_left p' < statements_left p"
  by (cases p) (auto simp: running_def nextval_sync_def Let_def split: option.splits if_splits)

lemma contribute_statement_left:
  "contribute_statement c er eu eg p v = (effs, v1, p') \<Longrightarrow> running p \<Longrightarrow> contribute_knows c er eu eg p P L db \<Longrightarrow>
    statements_left p' < statements_left p"
  by (cases p) (auto simp: running_def nextval_sync_def Let_def split: option.splits if_splits sum.splits prod.splits)

lemma execute_left:
  assumes "execute rq p v = (effs, v1, p')" "running p" "knows rq p P L db"
  shows "statements_left p' < statements_left p"
  using assms flag_statement_left hit_statement_left delete_statement_left contribute_statement_left
  by (cases rq) simp_all

section \<open>No deadlock\<close>

text \<open>What a running transaction may wait for.\<close>

lemma running_holds:
  assumes "holds rq p L" "running p" "k \<in> set L" "knows rq p P L db"
  shows "(\<exists>i. k = RowLock i) \<or> (\<exists>i cid. k = FlagKey i cid \<and> (RowLock i \<in> set L
    \<or> (\<exists>c er eu eg r. rq = ContributeRequest c er eu eg \<and> tombstone_of c i db r)))"
proof (cases rq)
  case (ContributeRequest c er eu eg)
  then show ?thesis using assms by (cases p) (auto simp: running_def)
next
  case (DeleteRequest i now)
  then show ?thesis using assms by (cases p) (auto simp: running_def)
qed (use assms in auto)

lemma flag_wants: "set (fst (flag_locks i cid p v)) \<union> set (snd (flag_locks i cid p v)) \<subseteq> {RowLock i, FlagKey i cid}"
  by (cases p) (simp_all add: flag_locks_def row_lock_def)

lemma hit_wants: "set (fst (hit_locks i p v)) \<union> set (snd (hit_locks i p v)) \<subseteq> {RowLock i}"
  by (cases p) (simp_all add: hit_locks_def row_lock_def)

lemma flag_live:
  "flag_knows K nonce i cid reason now th p P L db \<Longrightarrow> running p \<Longrightarrow> p \<noteq> FlagLock \<Longrightarrow> \<exists>r. live i db r"
  by (cases p) (auto simp: running_def)

lemma hit_live: "hit_knows K nonce i cid g d now p P L db \<Longrightarrow> running p \<Longrightarrow> p \<noteq> HitLock \<Longrightarrow> \<exists>r. live i db r"
  by (cases p) (auto simp: running_def)

lemma row_holder:
  assumes "holds rq p L" "running p" "RowLock i \<in> set L" "knows rq p P L db"
  shows "(\<exists>cid. set (fst (wanted rq p v)) \<union> set (snd (wanted rq p v)) \<subseteq> {RowLock i, FlagKey i cid}) \<and> (\<exists>r. live i db r)"
proof (cases rq)
  case (FlagRequest K nonce j cid reason now th)
  then have "j = i" "p \<noteq> FlagLock" using assms(1,3) by auto
  moreover have "\<exists>r. live j db r"
    by (rule flag_live) (use assms(2,4) FlagRequest \<open>p \<noteq> FlagLock\<close> in simp_all)
  moreover have "\<exists>cid. set (fst (flag_locks i cid' p v)) \<union> set (snd (flag_locks i cid' p v)) \<subseteq> {RowLock i, FlagKey i cid}"
    for cid' using flag_wants by blast
  ultimately show ?thesis using FlagRequest by simp
next
  case (HitRequest K nonce j cid g d now)
  then have "j = i" "p \<noteq> HitLock" using assms(1,3) by auto
  moreover have "\<exists>r. live j db r"
    by (rule hit_live) (use assms(2,4) HitRequest \<open>p \<noteq> HitLock\<close> in simp_all)
  ultimately show ?thesis using HitRequest hit_wants [of i p v] by auto
next
  case (DeleteRequest j now)
  then show ?thesis using assms by (cases p) (auto simp: running_def)
next
  case (ContributeRequest c er eu eg)
  then show ?thesis using assms by (cases p) (auto simp: running_def)
qed

text \<open>A transaction that holds no row waits for a flag only to revive the row of its key.\<close>

lemma wants_flag:
  assumes "RowLock i \<notin> set L" "running p" "knows rq p P L db"
    and "FlagKey i cid \<in> set (fst (wanted rq p v)) \<union> set (snd (wanted rq p v))"
  shows "\<exists>c er eu eg r. rq = ContributeRequest c er eu eg \<and> tombstone_of c i db r"
proof (cases rq)
  case (FlagRequest K nonce j cid reason now th)
  then show ?thesis using assms by (cases p) (auto simp: flag_locks_def row_lock_def running_def split: if_splits)
next
  case (HitRequest K nonce j cid g d now)
  then show ?thesis using assms by (cases p) (auto simp: hit_locks_def row_lock_def split: if_splits)
next
  case (DeleteRequest j now)
  then show ?thesis using assms by (cases p) (auto simp: delete_locks_def split: if_splits option.splits)
next
  case (ContributeRequest c er eu eg)
  then show ?thesis using assms by (cases p) (auto simp: contribute_locks_def row_lock_def split: if_splits)
qed

lemma same_tombstone:
  assumes "tombstone_of c i db r" "tombstone_of d i db r'"
  shows "same_key (ContributeRequest c er eu eg) (ContributeRequest d er' eu' eg')"
  using assms by (auto simp: tombstone_of_def dead_def)

lemma some_can_go_on:
  assumes ok: "cluster_ok th s" and busy: "cl_txns s n = Some tx"
    and run: "\<And>m u. cl_txns s m = Some u \<Longrightarrow> running (tx_point u)"
  shows "\<exists>m u. cl_txns s m = Some u \<and> unblocked m u s"
proof -
  have free: "unblocked m u s"
    if "\<And>k t l. cl_txns s k = Some t \<Longrightarrow> k \<noteq> m \<Longrightarrow> l \<in> set (tx_locks t) \<Longrightarrow>
      l \<in> set (fst (wanted (tx_request u) (tx_point u) (view (cl_db s) u)))
        \<union> set (snd (wanted (tx_request u) (tx_point u) (view (cl_db s) u))) \<Longrightarrow> False" for m u
    using that by (fastforce simp: unblocked_def split: prod.split)
  have parts: "holds (tx_request u) (tx_point u) (tx_locks u)"
    "knows (tx_request u) (tx_point u) (tx_pending u) (tx_locks u) (cl_db s)" if "cl_txns s m = Some u" for m u
    using cluster_okD(2) [OF ok that] by (simp_all add: txn_ok_def)
  show ?thesis
  proof (cases "\<exists>m u i. cl_txns s m = Some u \<and> RowLock i \<in> set (tx_locks u)")
    case True
    then obtain m u i where u: "cl_txns s m = Some u" "RowLock i \<in> set (tx_locks u)" by blast
    from row_holder [OF parts(1) [OF u(1)] run [OF u(1)] u(2) parts(2) [OF u(1)]]
    obtain r where live: "live i (cl_db s) r" by blast
    have "unblocked m u s"
    proof (rule free)
      fix k t l
      assume t: "cl_txns s k = Some t" "k \<noteq> m" "l \<in> set (tx_locks t)"
        and l: "l \<in> set (fst (wanted (tx_request u) (tx_point u) (view (cl_db s) u)))
          \<union> set (snd (wanted (tx_request u) (tx_point u) (view (cl_db s) u)))"
      have apart: "RowLock i \<notin> set (tx_locks t)" using cluster_okD(4) [OF ok u(1) t(1)] u(2) t(2) by auto
      from row_holder [OF parts(1) [OF u(1)] run [OF u(1)] u(2) parts(2) [OF u(1)], of "view (cl_db s) u"] l
      have "l = RowLock i \<or> (\<exists>cid. l = FlagKey i cid)" by blast
      then obtain cid where l: "l = FlagKey i cid" using apart t(3) by blast
      from running_holds [OF parts(1) [OF t(1)] run [OF t(1)] t(3) parts(2) [OF t(1)]] apart
      obtain c r' where "tombstone_of c i (cl_db s) r'" unfolding l by blast
      then show False using live by (auto simp: tombstone_of_def dead_def live_def)
    qed
    then show ?thesis using u(1) by blast
  next
    case False
    then have none: "RowLock i \<notin> set (tx_locks u)" if "cl_txns s m = Some u" for m u i using that by blast
    have "unblocked n tx s"
    proof (rule free)
      fix k t l
      assume t: "cl_txns s k = Some t" "k \<noteq> n" "l \<in> set (tx_locks t)"
        and l: "l \<in> set (fst (wanted (tx_request tx) (tx_point tx) (view (cl_db s) tx)))
          \<union> set (snd (wanted (tx_request tx) (tx_point tx) (view (cl_db s) tx)))"
      from running_holds [OF parts(1) [OF t(1)] run [OF t(1)] t(3) parts(2) [OF t(1)]] none [OF t(1)] t(3)
      obtain i cid c er eu eg r where held: "l = FlagKey i cid" "tx_request t = ContributeRequest c er eu eg"
        "tombstone_of c i (cl_db s) r" by blast
      from wants_flag [OF none [OF busy] run [OF busy] parts(2) [OF busy] l [unfolded held(1)]]
      obtain d er' eu' eg' r' where want: "tx_request tx = ContributeRequest d er' eu' eg'" "tombstone_of d i (cl_db s) r'"
        by blast
      show False
        using cluster_okD(4) [OF ok t(1) busy t(2)] same_tombstone [OF held(3) want(2)] unfolding held(2) want(1) by blast
    qed
    then show ?thesis using busy by blast
  qed
qed

section \<open>Running out\<close>

text \<open>
  \<open>k\<close> steps without new transactions: statements of any transaction, commits of those that returned and
  rollbacks of those that raised.
\<close>

inductive drains :: "int \<Rightarrow> nat \<Rightarrow> cluster \<Rightarrow> cluster \<Rightarrow> bool" for th where
  idle: "drains th 0 s s"
| statement: "concurrent_step True th s (Ran n) s1 \<Longrightarrow> drains th k s1 s2 \<Longrightarrow> drains th (Suc k) s s2"
| returns: "concurrent_step True th s (Committed n a) s1 \<Longrightarrow> drains th k s1 s2 \<Longrightarrow> drains th (Suc k) s s2"
| raises: "cl_txns s n = Some tx \<Longrightarrow> tx_point tx = Failed e \<Longrightarrow> concurrent_step True th s (Aborted n) s1 \<Longrightarrow>
    drains th k s1 s2 \<Longrightarrow> drains th (Suc k) s s2"

fun txn_work :: "txn option \<Rightarrow> nat" where
  "txn_work None = 0"
| "txn_work (Some tx) = Suc (statements_left (tx_point tx))"

definition work :: "cluster \<Rightarrow> nat" where
  "work s = (\<Sum>n \<in> dom (cl_txns s). txn_work (cl_txns s n))"

lemma txn_work_le: "txn_work t \<le> 5"
proof (cases t)
  case (Some tx)
  then show ?thesis by (cases "tx_point tx") simp_all
qed simp

lemma work_le: "work s \<le> 5 * card (dom (cl_txns s))"
  using sum_mono [of "dom (cl_txns s)" "\<lambda>n. txn_work (cl_txns s n)" "\<lambda>n. 5"] txn_work_le by (simp add: work_def)

text \<open>All transactions but one.\<close>

lemma work_but:
  assumes "finite (dom (cl_txns s))" "cl_txns s1 = (cl_txns s)(n := t)"
  shows "work s1 = txn_work t + (\<Sum>m \<in> dom (cl_txns s) - {n}. txn_work (cl_txns s m))"
proof -
  have same: "(\<Sum>m \<in> dom (cl_txns s) - {n}. txn_work (cl_txns s1 m)) = (\<Sum>m \<in> dom (cl_txns s) - {n}. txn_work (cl_txns s m))"
    by (rule sum.cong) (auto simp: assms(2))
  show ?thesis
  proof (cases t)
    case None
    then have "dom (cl_txns s1) = dom (cl_txns s) - {n}" by (auto simp: assms(2))
    then show ?thesis using same None by (simp add: work_def)
  next
    case (Some tx)
    then have "dom (cl_txns s1) = insert n (dom (cl_txns s) - {n})" by (auto simp: assms(2))
    moreover have "cl_txns s1 n = t" by (simp add: assms(2))
    ultimately show ?thesis using same assms(1) by (simp add: work_def sum.insert del: insert_Diff_single)
  qed
qed

lemma work_less:
  assumes "finite (dom (cl_txns s))" "cl_txns s1 = (cl_txns s)(n := t)" "txn_work t < txn_work (cl_txns s n)"
  shows "work s1 < work s"
  using work_but [OF assms(1), of s n "cl_txns s n"] work_but [OF assms(1,2)] assms(3) by simp

text \<open>Some step leaves less to do.\<close>

lemma goes_on:
  assumes ok: "cluster_ok th s" and busy: "cl_txns s \<noteq> Map.empty" and fin: "finite (dom (cl_txns s))"
  shows "\<exists>ev s1. concurrent_step True th s ev s1 \<and> work s1 < work s \<and> finite (dom (cl_txns s1)) \<and>
    ((\<exists>n. ev = Ran n) \<or> (\<exists>n a. ev = Committed n a)
     \<or> (\<exists>n tx e. ev = Aborted n \<and> cl_txns s n = Some tx \<and> tx_point tx = Failed e))"
proof (cases "\<forall>n tx. cl_txns s n = Some tx \<longrightarrow> running (tx_point tx)")
  case True
  obtain n tx where "cl_txns s n = Some tx" using busy by fastforce
  from some_can_go_on [OF ok this] True
  obtain m u where u: "cl_txns s m = Some u" "unblocked m u s" "running (tx_point u)" by blast
  obtain effs v1 p where ex: "execute (tx_request u) (tx_point u) (view (cl_db s) u) = (effs, v1, p)"
    by (cases "execute (tx_request u) (tx_point u) (view (cl_db s) u)")
  have "knows (tx_request u) (tx_point u) (tx_pending u) (tx_locks u) (cl_db s)"
    using cluster_okD(2) [OF ok u(1)] by (simp add: txn_ok_def)
  from execute_left [OF ex u(3) this] have less: "statements_left p < statements_left (tx_point u)" .
  have "\<exists>tx1. cl_txns (run_statement m u s) = (cl_txns s)(m \<mapsto> tx1) \<and> tx_point tx1 = p"
    by (auto simp: run_statement_def Let_def ex split: prod.split)
  then obtain tx1 where tx1: "cl_txns (run_statement m u s) = (cl_txns s)(m \<mapsto> tx1)" "tx_point tx1 = p" by blast
  have "work (run_statement m u s) < work s"
    by (rule work_less [OF fin tx1(1)]) (simp add: u(1) tx1(2) less)
  moreover have "concurrent_step True th s (Ran m) (run_statement m u s)"
    by (rule concurrent_step.runs [OF u(1,3,2)])
  ultimately show ?thesis using fin tx1(1) by (intro exI [of _ "Ran m"] exI [of _ "run_statement m u s"]) simp
next
  case False
  then obtain n tx where tx: "cl_txns s n = Some tx" "\<not> running (tx_point tx)" by blast
  then consider (returned) a where "tx_point tx = Finished a" | (raised) e where "tx_point tx = Failed e"
    by (cases "tx_point tx") (auto simp: running_def)
  then show ?thesis
  proof cases
    case returned
    have "concurrent_step True th s (Committed n a) (commit_txn n tx s)"
      by (rule concurrent_step.commits [OF tx(1) returned])
    moreover have "work (commit_txn n tx s) < work s"
      by (rule work_less [OF fin, where t = None and n = n]) (simp_all add: commit_txn_def tx(1))
    ultimately show ?thesis
      using fin by (intro exI [of _ "Committed n a"] exI [of _ "commit_txn n tx s"]) (simp add: commit_txn_def)
  next
    case raised
    let ?s = "s\<lparr>cl_txns := (cl_txns s)(n := None)\<rparr>"
    have "concurrent_step True th s (Aborted n) ?s" by (rule concurrent_step.aborts [OF tx(1)])
    moreover have "work ?s < work s" by (rule work_less [OF fin, where t = None and n = n]) (simp_all add: tx(1))
    ultimately show ?thesis using fin tx(1) raised by (intro exI [of _ "Aborted n"] exI [of _ ?s]) simp
  qed
qed

lemma drains_to_rest:
  assumes "cluster_ok th s" "finite (dom (cl_txns s))" "1 \<le> th"
  shows "\<exists>k s'. k \<le> work s \<and> drains th k s s' \<and> cl_txns s' = Map.empty \<and> cluster_ok th s'"
  using assms(1,2)
proof (induction "work s" arbitrary: s rule: less_induct)
  case less
  show ?case
  proof (cases "cl_txns s = Map.empty")
    case True
    then show ?thesis using less.prems(1) by (intro exI [of _ 0] exI [of _ s]) (simp add: drains.idle)
  next
    case False
    from goes_on [OF less.prems(1) False less.prems(2)]
    obtain ev s1 where s1: "concurrent_step True th s ev s1" "work s1 < work s" "finite (dom (cl_txns s1))"
      and ev: "(\<exists>n. ev = Ran n) \<or> (\<exists>n a. ev = Committed n a)
        \<or> (\<exists>n tx e. ev = Aborted n \<and> cl_txns s n = Some tx \<and> tx_point tx = Failed e)"
      by blast
    from less.hyps [OF s1(2) step_ok [OF s1(1) less.prems(1) assms(3)] s1(3)]
    obtain k s' where end': "k \<le> work s1" "drains th k s1 s'" "cl_txns s' = Map.empty" "cluster_ok th s'" by blast
    from ev have "drains th (Suc k) s s'"
    proof (elim disjE exE conjE)
      fix n assume "ev = Ran n"
      with s1(1) show ?thesis by (auto intro: drains.statement end'(2))
    next
      fix n a assume "ev = Committed n a"
      with s1(1) show ?thesis by (auto intro: drains.returns end'(2))
    next
      fix n tx e assume "ev = Aborted n" "cl_txns s n = Some tx" "tx_point tx = Failed e"
      with s1(1) show ?thesis by (auto intro: drains.raises end'(2))
    qed
    then show ?thesis using end' s1(2) by (intro exI [of _ "Suc k"] exI [of _ s']) simp
  qed
qed

lemma reachable_finite: "concurrent_reachable exclusive th db s \<Longrightarrow> finite (dom (cl_txns s))"
proof (induction rule: concurrent_reachable.induct)
  case (step s ev s')
  from step.hyps(2) show ?case
    by cases (use step.IH in \<open>auto simp: run_statement_def commit_txn_def Let_def simp del: fun_upd_apply split: prod.splits\<close>)
qed simp

end
