(* ===== verification/Concurrent_Schedules.thy ===== *)
theory Concurrent_Schedules
  imports Concurrent_Progress Samples
begin

text \<open>
  Schedules played out: the steps of transactions with numbers from a list, as a function, so that a
  concrete interleaving can be evaluated; and the schedules that the properties use.
\<close>

definition for_others :: "nat list \<Rightarrow> nat \<Rightarrow> cluster \<Rightarrow> (txn \<Rightarrow> bool) \<Rightarrow> bool" where
  "for_others ids n s P \<longleftrightarrow>
     list_all (\<lambda>m. m = n \<or> (case cl_txns s m of None \<Rightarrow> True | Some tx \<Rightarrow> P tx)) ids"

definition clear_of :: "lock list \<Rightarrow> txn \<Rightarrow> bool" where
  "clear_of ls tx \<longleftrightarrow> list_all (\<lambda>l. l \<notin> set (tx_locks tx)) ls"

datatype move = Begin nat request_txn | Run nat | Commit nat | Abort nat

fun play :: "bool \<Rightarrow> int \<Rightarrow> nat list \<Rightarrow> move \<Rightarrow> cluster \<Rightarrow> cluster option" where
  "play exclusive th ids (Begin n rq) s =
     (if n \<in> set ids \<and> cl_txns s n = None \<and> fits th rq
         \<and> (exclusive \<longrightarrow> for_others ids n s (\<lambda>tx. \<not> same_key (tx_request tx) rq))
      then Some (s\<lparr>cl_txns := (cl_txns s)(n \<mapsto> begin_txn rq)\<rparr>) else None)"
| "play exclusive th ids (Run n) s =
     (case cl_txns s n of
        None \<Rightarrow> None
      | Some tx \<Rightarrow>
          if running (tx_point tx) \<and> for_others ids n s (clear_of
               (case wanted (tx_request tx) (tx_point tx) (view (cl_db s) tx) of (waits, takes) \<Rightarrow> waits @ takes))
          then Some (run_statement n tx s) else None)"
| "play exclusive th ids (Commit n) s =
     (case cl_txns s n of
        None \<Rightarrow> None
      | Some tx \<Rightarrow> (case tx_point tx of Finished a \<Rightarrow> Some (commit_txn n tx s) | _ \<Rightarrow> None))"
| "play exclusive th ids (Abort n) s =
     (case cl_txns s n of
        None \<Rightarrow> None | Some tx \<Rightarrow> Some (s\<lparr>cl_txns := (cl_txns s)(n := None)\<rparr>))"

fun play_all :: "bool \<Rightarrow> int \<Rightarrow> nat list \<Rightarrow> move list \<Rightarrow> cluster \<Rightarrow> cluster option" where
  "play_all exclusive th ids [] s = Some s"
| "play_all exclusive th ids (ev # evs) s = Option.bind (play exclusive th ids ev s) (play_all exclusive th ids evs)"

lemma for_othersD:
  assumes "for_others ids n s P" "dom (cl_txns s) \<subseteq> set ids" "cl_txns s m = Some tx" "m \<noteq> n"
  shows "P tx"
proof -
  have "m \<in> set ids" using assms(2,3) by auto
  then show ?thesis using assms(1,3,4) by (fastforce simp: for_others_def list_all_iff)
qed

lemma clear_of_disjoint: "clear_of ls tx \<Longrightarrow> set (tx_locks tx) \<inter> set ls = {}"
  by (auto simp: clear_of_def list_all_iff )

lemma play_steps:
  assumes "play exclusive th ids mv s = Some s'" "dom (cl_txns s) \<subseteq> set ids"
  shows "(\<exists>ev. concurrent_step exclusive th s ev s') \<and> dom (cl_txns s') \<subseteq> set ids"
proof (cases mv)
  case (Begin n rq)
  have s': "s' = s\<lparr>cl_txns := (cl_txns s)(n \<mapsto> begin_txn rq)\<rparr>" and new: "cl_txns s n = None" "fits th rq" "n \<in> set ids"
    and alone: "exclusive \<Longrightarrow> for_others ids n s (\<lambda>tx. \<not> same_key (tx_request tx) rq)"
    using assms(1) Begin by (auto simp:  split: if_splits)
  have "concurrent_step exclusive th s (Began n rq) s'"
    unfolding s'
  proof (rule concurrent_step.begins [OF new(1,2)])
    fix m tx assume "exclusive" "cl_txns s m = Some tx"
    then show "\<not> same_key (tx_request tx) rq"
      using for_othersD [OF alone assms(2)] new(1) by (cases "m = n") auto
  qed
  then show ?thesis using assms(2) new(3) Begin s' by auto
next
  case (Run n)
  then obtain tx where tx: "cl_txns s n = Some tx" "running (tx_point tx)" and s': "s' = run_statement n tx s"
    and free: "for_others ids n s (clear_of
               (case wanted (tx_request tx) (tx_point tx) (view (cl_db s) tx) of (waits, takes) \<Rightarrow> waits @ takes))"
    using assms(1) by (auto split: option.splits if_splits)
  obtain waits takes where w: "wanted (tx_request tx) (tx_point tx) (view (cl_db s) tx) = (waits, takes)" by fastforce
  have "unblocked n tx s"
    using clear_of_disjoint [OF for_othersD [OF free assms(2)]] by (simp add: unblocked_def w)
  then have "concurrent_step exclusive th s (Ran n) s'" unfolding s' by (rule concurrent_step.runs [OF tx])
  moreover have "dom (cl_txns s') \<subseteq> set ids"
    using assms(2) tx(1) unfolding s' by (auto simp: run_statement_def Let_def split: prod.splits if_splits)
  ultimately show ?thesis by blast
next
  case (Commit n)
  then obtain tx a where tx: "cl_txns s n = Some tx" "tx_point tx = Finished a" and s': "s' = commit_txn n tx s"
    using assms(1) by (auto split: option.splits point.splits)
  have "concurrent_step exclusive th s (Committed n a) s'" unfolding s' by (rule concurrent_step.commits [OF tx])
  then show ?thesis using assms(2) Commit s' by (auto simp: commit_txn_def split: if_splits)
next
  case (Abort n)
  then obtain tx where tx: "cl_txns s n = Some tx" and s': "s' = s\<lparr>cl_txns := (cl_txns s)(n := None)\<rparr>"
    using assms(1) by (auto split: option.splits)
  have "concurrent_step exclusive th s (Aborted n) s'" unfolding s' by (rule concurrent_step.aborts [OF tx])
  then show ?thesis using assms(2) Abort s' by (auto split: if_splits)
qed

lemma play_all_reaches:
  assumes "play_all exclusive th ids mvs s = Some s'" "dom (cl_txns s) \<subseteq> set ids"
    and "concurrent_reachable exclusive th db s"
  shows "concurrent_reachable exclusive th db s' \<and> dom (cl_txns s') \<subseteq> set ids"
  using assms
proof (induction mvs arbitrary: s)
  case (Cons mv mvs)
  then obtain s1 where s1: "play exclusive th ids mv s = Some s1" "play_all exclusive th ids mvs s1 = Some s'"
    by (auto simp: bind_eq_Some_conv)
  from play_steps [OF s1(1) Cons.prems(2)] show ?case
    using Cons.IH [OF s1(2)] concurrent_reachable.step [OF Cons.prems(3)] by blast
qed simp

text \<open>A schedule of at most four transactions from a database at rest.\<close>

definition played :: "bool \<Rightarrow> int \<Rightarrow> move list \<Rightarrow> db \<Rightarrow> cluster option" where
  "played exclusive th mvs db = play_all exclusive th [0, 1, 2, 3] mvs \<lparr>cl_db = db, cl_txns = Map.empty\<rparr>"

lemma played_reaches:
  assumes "played exclusive th mvs db = Some s"
  shows "concurrent_reachable exclusive th db s" "dom (cl_txns s) \<subseteq> {0, 1, 2, 3}"
  using play_all_reaches [OF assms [unfolded played_def] _ concurrent_reachable.rest] by simp_all

text \<open>For the evaluation of the schedules below.\<close>

lemma pred_option_code [code]: "pred_option P None = True" "pred_option P (Some x) = P x"
  by simp_all

section \<open>Two flags of one row\<close>

text \<open>Consumers 2 and 3 flag row 1; the second flag waits for the row until the first one has committed.\<close>

definition flag_by :: "int \<Rightarrow> request_txn" where
  "flag_by cid = FlagRequest sample_crypto [] 1 cid None 20 2"

definition first_flag :: "move list" where
  "first_flag = [Begin 0 (flag_by 2), Begin 1 (flag_by 3), Run 0, Run 0, Run 0, Run 0]"

definition second_flag :: "move list" where
  "second_flag = first_flag @ [Commit 0, Run 1, Run 1, Run 1, Run 1]"

lemma first_flag_runs:
  "\<exists>s tx u. concurrent_reachable True 2 sample_db s \<and> cl_txns s 0 = Some tx \<and> cl_txns s 1 = Some u
    \<and> \<not> running (tx_point tx) \<and> tx_point u = FlagLock"
proof -
  have "map_option (\<lambda>s. case cl_txns s 0 of None \<Rightarrow> False | Some tx \<Rightarrow> \<not> running (tx_point tx)
      \<and> (case cl_txns s 1 of None \<Rightarrow> False | Some u \<Rightarrow> tx_point u = FlagLock)) (played True 2 first_flag sample_db) = Some True"
    by code_simp
  then obtain s where s: "played True 2 first_flag sample_db = Some s"
    and "case cl_txns s 0 of None \<Rightarrow> False | Some tx \<Rightarrow> \<not> running (tx_point tx)
      \<and> (case cl_txns s 1 of None \<Rightarrow> False | Some u \<Rightarrow> tx_point u = FlagLock)"
    by auto
  then show ?thesis
    by (intro exI [of _ s]) (simp add: played_reaches(1) [OF s] split: option.splits)
qed

text \<open>The first flag's row lock holds the second one back.\<close>

lemma second_flag_waits:
  "(case played True 2 (first_flag @ [Run 1]) sample_db of None \<Rightarrow> True | Some s \<Rightarrow> False)"
  by code_simp

definition second_answer :: answer where
  "second_answer = Flagged (Some \<lparr>fr_flag_count = 2, fr_status = Hidden, fr_hidden = True\<rparr>)"

lemma second_flag_runs:
  "\<exists>s tx. concurrent_reachable True 2 sample_db s \<and> cl_txns s 1 = Some tx
    \<and> tx_point tx = Finished second_answer \<and> tx_pending tx \<noteq> []"
proof -
  have "map_option (\<lambda>s. case cl_txns s 1 of None \<Rightarrow> False | Some tx \<Rightarrow>
      tx_point tx = Finished second_answer \<and> tx_pending tx \<noteq> []) (played True 2 second_flag sample_db) = Some True"
    by code_simp
  then obtain s where s: "played True 2 second_flag sample_db = Some s"
    and "case cl_txns s 1 of None \<Rightarrow> False | Some tx \<Rightarrow> tx_point tx = Finished second_answer \<and> tx_pending tx \<noteq> []"
    by auto
  then show ?thesis
    by (intro exI [of _ s]) (simp add: played_reaches(1) [OF s] split: option.splits)
qed

section \<open>Two contributions of one hash\<close>

text \<open>
  The row is a tombstone without flags. Contribution 0 has found it and dropped its flags, none, when
  contribution 1 revives it and commits; then consumers 2 and 3 flag it, which hides it; then
  contribution 0 goes on with its update and commits.
\<close>

definition tombstone_db :: db where
  "tombstone_db = snd (soft_delete True 1 20 sample_db)"

lemma tombstone_db_inv: "hub_inv 2 tombstone_db"
  unfolding tombstone_db_def by (rule hub_step_inv [OF hub_step.deletes [of sample_crypto] _ sample_db_inv]) simp

definition contribution_again :: request_txn where
  "contribution_again = ContributeRequest (sample_contribution 1) None None None"

definition hidden_again :: "move list" where
  "hidden_again =
     [Begin 0 contribution_again, Run 0, Run 0,
      Begin 1 contribution_again, Run 1, Run 1, Run 1, Commit 1,
      Begin 2 (flag_by 2), Run 2, Run 2, Run 2, Run 2, Commit 2,
      Begin 3 (flag_by 3), Run 3, Run 3, Run 3, Run 3, Commit 3]"

definition shown_again :: "move list" where
  "shown_again = hidden_again @ [Run 0, Commit 0]"

definition row_states :: "cluster \<Rightarrow> (status \<times> int) list" where
  "row_states s = map (\<lambda>r. (fp_status r, fp_flag_count r)) (fingerprints (cl_db s))"

lemma hidden_again_runs: "map_option row_states (played False 2 hidden_again tombstone_db) = Some [(Hidden, 2)]"
  by code_simp

lemma shown_again_runs:
  "map_option (\<lambda>s. (row_states s, map flag_consumer_id (fingerprint_flags (cl_db s)), flags_counted (cl_db s),
      map (\<lambda>n. Option.is_none (cl_txns s n)) [0, 1, 2, 3])) (played False 2 shown_again tombstone_db)
    = Some ([(Active, 0)], [2, 3], False, [True, True, True, True])"
  by code_simp

end
