(* ===== verification/Concurrent_Properties.thy ===== *)
theory Concurrent_Properties
  imports Concurrent_Schedules
begin

text \<open>
  What the store's transactions promise when they run at the same time, statement by statement: the
  properties, their witnesses, and a schedule in which two contributions of one hash break the counts.
\<close>

section \<open>Statements and operations\<close>

text \<open>The two models of a writing operation agree: the statements of a contribution, a hit, a flag or a deletion, executed one after the other with nothing in between, are the operation: on every database that satisfies the constraints they give the same answer or exception, the same tables and the same sequences, whatever the arguments.\<close>

lemma uninterrupted_statements:
  assumes "db_ok db"
  shows "outcome_alone ((advance ^^ statements_left (start rq)) (begin_txn rq, db)) = atomic rq db"
  using alone_flag [OF assms] alone_hit [OF assms] alone_delete [OF assms] alone_contribute [OF assms]
  by (cases rq) (simp_all add: numeral_eq_Suc)

lemma uninterrupted_statements_witness:
  "outcome_alone ((advance ^^ 4) (begin_txn (FlagRequest sample_crypto [] 1 2 None 20 2), sample_db))
    = atomic (FlagRequest sample_crypto [] 1 2 None 20 2) sample_db"
  using uninterrupted_statements [OF sample_db_ok, of "FlagRequest sample_crypto [] 1 2 None 20 2"] by simp

section \<open>Answers of transactions without changes\<close>

lemma serial_unchanged:
  assumes "atomic rq db = (Inr a, A)" "same_tables A db"
  shows "serial rq a db db"
proof -
  have "rollback db db = db" by (simp add: rollback_def)
  then show ?thesis using assms unfolding serial_def by (intro exI [of _ db] exI [of _ A]) simp
qed

lemma read_serial:
  assumes know: "knows rq p P L db" and run: "running p"
    and ex: "execute rq p (apply_effects P db) = (effs, v1, Finished a)" and none: "P @ effs = []"
  shows "serial rq a db db"
proof -
  have [simp]: "P = []" "effs = []" using none by simp_all
  show ?thesis
  proof (cases rq)
    case (FlagRequest K nonce i cid reason now th)
    have "p = FlagLock"
      using know run ex FlagRequest
      by (cases p) (auto simp: running_def live_def Let_def nextval_sync_def split: if_splits sum.splits prod.splits)
    then have "(select_fp i db = None \<or> (\<exists>fp. select_fp i db = Some fp \<and> fp_status fp = Deleted)) \<and> a = Flagged None"
      using ex FlagRequest by (auto split: option.splits if_splits)
    then have "atomic rq db = (Inr a, db)" by (auto simp: FlagRequest flag_txn_def transaction_def)
    then show ?thesis by (rule serial_unchanged) (simp add: same_tables_def)
  next
    case (HitRequest K nonce i cid g d now)
    have "p = HitLock"
      using know run ex HitRequest
      by (cases p) (auto simp: running_def live_def split: if_splits sum.splits prod.splits)
    then have "(select_fp i db = None \<or> (\<exists>fp. select_fp i db = Some fp \<and> fp_status fp = Deleted)) \<and> a = HitCounted None"
      using ex HitRequest by (auto split: option.splits if_splits)
    then have "atomic rq db = (Inr a, db)" by (auto simp: HitRequest report_hit_txn_def transaction_def)
    then show ?thesis by (rule serial_unchanged) (simp add: same_tables_def)
  next
    case (DeleteRequest i now)
    have "p = DeleteUpdate" using know run DeleteRequest by (cases p) (auto simp: running_def)
    then have "(select_fp i db = None \<or> (\<exists>fp. select_fp i db = Some fp \<and> fp_status fp = Deleted)) \<and> a = WasDeleted False"
      using ex DeleteRequest by (auto simp: Let_def nextval_sync_def split: option.splits if_splits)
    then have "atomic rq db = (Inr a, db)" by (auto simp: DeleteRequest soft_delete_txn_def transaction_def)
    then show ?thesis by (rule serial_unchanged) (simp add: same_tables_def)
  next
    case (ContributeRequest c er eu eg)
    have "p = ContributeSelect \<or> p = ContributeInsert" using know run ex ContributeRequest by (cases p) (auto simp: running_def)
    moreover have "p \<noteq> ContributeInsert"
      using ex ContributeRequest
      by (auto elim!: insert_fp_cases [where v = "new_row c er eu eg"] split: option.splits sum.splits prod.splits)
    ultimately have "pg_text (con_phash_hex c) \<and> (\<exists>r. select_fp_by_phash (con_phash_hex c) (con_consumer_id c) db = Some r
        \<and> fp_status r \<noteq> Deleted \<and> a = Contributed (Some r) False)"
      using ex ContributeRequest by (auto split: option.splits if_splits)
    then have "atomic rq db = (Inr a, db)" by (auto simp: ContributeRequest contribute_txn_def transaction_def)
    then show ?thesis by (rule serial_unchanged) (simp add: same_tables_def)
  qed
qed

lemma same_tables_refl [simp]: "same_tables db db" "same_tables db (rollback db v)"
  by (simp_all add: same_tables_def)

section \<open>Interleaved transactions\<close>

text \<open>C5: serialisation: while no two contributions of one hash by one consumer are under way at the same time, transactions that interleave their statements in any way, aborts included, each act at one moment. A transaction with changes acts at its commit: there the committed tables change, and the answer was given, as the whole operation does it on what is committed then. A transaction without changes acts at its last statement: it answers what the whole operation answers on what is committed then. Nothing else changes the tables.\<close>

theorem interleaving_serializes:
  assumes "hub_inv th db" "1 \<le> th" "concurrent_reachable True th db s" "concurrent_step True th s ev s'"
  shows "case ev of
      Committed n a \<Rightarrow> \<exists>tx. cl_txns s n = Some tx \<and>
        (if tx_pending tx = [] then same_tables (cl_db s) (cl_db s')
         else serial (tx_request tx) a (cl_db s) (cl_db s'))
    | Ran n \<Rightarrow> same_tables (cl_db s) (cl_db s') \<and> (\<forall>tx a. cl_txns s' n = Some tx \<and> tx_point tx = Finished a
        \<and> tx_pending tx = [] \<longrightarrow> serial (tx_request tx) a (cl_db s) (cl_db s))
    | _ \<Rightarrow> same_tables (cl_db s) (cl_db s')"
proof -
  have ok: "cluster_ok th s" by (rule reachable_ok [OF assms(3,1,2)])
  from assms(4) show ?thesis
  proof cases
    case (begins n rq)
    then show ?thesis by simp
  next
    case (runs n tx)
    have know: "knows (tx_request tx) (tx_point tx) (tx_pending tx) (tx_locks tx) (cl_db s)"
      using cluster_okD(2) [OF ok runs(3)] by (simp add: txn_ok_def)
    obtain effs v1 p where ex: "execute (tx_request tx) (tx_point tx) (apply_effects (tx_pending tx) (cl_db s)) = (effs, v1, p)"
      by (cases "execute (tx_request tx) (tx_point tx) (apply_effects (tx_pending tx) (cl_db s))")
    have "serial (tx_request tx) a (cl_db s) (cl_db s)" if "p = Finished a" "tx_pending tx @ effs = []" for a
      by (rule read_serial [OF know runs(4) ex [unfolded that(1)] that(2)])
    then show ?thesis
      unfolding runs(1,2) by (auto simp: run_statement_def view_def ex Let_def split: prod.split)
  next
    case (commits n tx a)
    have "knows (tx_request tx) (Finished a) (tx_pending tx) (tx_locks tx) (cl_db s)"
      using cluster_okD(2) [OF ok commits(3)] commits(4) by (simp add: txn_ok_def)
    then have "tx_pending tx \<noteq> [] \<Longrightarrow>
        serial (tx_request tx) a (cl_db s) (apply_effects (tx_pending tx) (cl_db s))"
      by (rule commit_serial [OF committed_rows [OF cluster_okD(1) [OF ok]]])
    then show ?thesis unfolding commits(1,2) by (simp add: commits(3) commit_txn_def)
  next
    case (aborts n tx)
    then show ?thesis by simp
  qed
qed

lemma interleaving_serializes_witness:
  "\<exists>s s' rq. concurrent_reachable True 2 sample_db s \<and> concurrent_step True 2 s (Committed 1 second_answer) s'
    \<and> serial rq second_answer (cl_db s) (cl_db s')"
proof -
  obtain s tx where s: "concurrent_reachable True 2 sample_db s" and tx: "cl_txns s 1 = Some tx"
    "tx_point tx = Finished second_answer" "tx_pending tx \<noteq> []"
    using second_flag_runs by blast
  have step: "concurrent_step True 2 s (Committed 1 second_answer) (commit_txn 1 tx s)"
    by (rule concurrent_step.commits [OF tx(1,2)])
  show ?thesis
    using interleaving_serializes [OF sample_db_inv _ s step] s step tx by auto
qed

text \<open>C6: at every moment of such an interleaving, what is committed has unique ids and hashes and no orphaned flag or hit, every row's flag count is the number of distinct consumers whose flags are stored, no active row has reached the threshold, and no hit is lost.\<close>

theorem interleaving_keeps_counts:
  assumes "hub_inv th db" "1 \<le> th" "concurrent_reachable True th db s"
  shows "rows_ok (cl_db s) \<and> children_ok (cl_db s) \<and> flags_counted (cl_db s) \<and> active_below th (cl_db s)
    \<and> hits_counted (cl_db s)"
  using cluster_okD(1) [OF reachable_ok [OF assms(3,1,2)]] by (simp add: committed_ok_def)

lemma interleaving_keeps_counts_witness:
  "\<exists>s tx u. concurrent_reachable True 2 sample_db s \<and> cl_txns s 0 = Some tx \<and> cl_txns s 1 = Some u
    \<and> flags_counted (cl_db s) \<and> active_below 2 (cl_db s)"
  using first_flag_runs interleaving_keeps_counts [OF sample_db_inv, of _] by auto

text \<open>C13: no deadlock: from every moment of such an interleaving, the transactions under way all end, without an abort of one that could go on, in at most five steps each when no new one begins, and what they leave is consistent again.\<close>

theorem interleaving_drains:
  assumes "hub_inv th db" "1 \<le> th" "concurrent_reachable True th db s"
  shows "\<exists>k s'. k \<le> 5 * card (dom (cl_txns s)) \<and> drains th k s s' \<and> cl_txns s' = Map.empty
    \<and> committed_ok th (cl_db s')"
proof -
  from drains_to_rest [OF reachable_ok [OF assms(3,1,2)] reachable_finite [OF assms(3)] assms(2)]
  obtain k s' where "k \<le> work s" "drains th k s s'" "cl_txns s' = Map.empty" "cluster_ok th s'" by blast
  then show ?thesis using work_le [of s] cluster_okD(1) by (meson order_trans)
qed

lemma interleaving_drains_witness:
  "\<exists>s tx u k s'. concurrent_reachable True 2 sample_db s \<and> cl_txns s 0 = Some tx \<and> cl_txns s 1 = Some u
    \<and> drains 2 k s s' \<and> cl_txns s' = Map.empty"
proof -
  obtain s tx u where s: "concurrent_reachable True 2 sample_db s" "cl_txns s 0 = Some tx" "cl_txns s 1 = Some u"
    using first_flag_runs by blast
  show ?thesis using interleaving_drains [OF sample_db_inv _ s(1)] s by auto
qed

section \<open>Contributions of one hash at the same time\<close>

text \<open>C38: why the contributions must not overlap: from a consistent database whose one row is deleted, with a threshold of two, two contributions of the row's hash by its owner at the same time allow an interleaving in which the revived row is hidden by the flags of two consumers, and one that ends, with no transaction left, with that row active and counted as never flagged although the flags of both consumers are stored: the contribution that found the tombstone first revives the row a second time.\<close>

theorem overlapping_revivals_lose_flags:
  "hub_inv 2 tombstone_db
   \<and> (\<exists>s. concurrent_reachable False 2 tombstone_db s \<and> row_states s = [(Hidden, 2)])
   \<and> (\<exists>s. concurrent_reachable False 2 tombstone_db s \<and> cl_txns s = Map.empty
        \<and> row_states s = [(Active, 0)] \<and> map flag_consumer_id (fingerprint_flags (cl_db s)) = [2, 3]
        \<and> \<not> flags_counted (cl_db s))"
proof -
  obtain h where h: "played False 2 hidden_again tombstone_db = Some h" "row_states h = [(Hidden, 2)]"
    using hidden_again_runs by auto
  obtain s where s: "played False 2 shown_again tombstone_db = Some s" "row_states s = [(Active, 0)]"
    "map flag_consumer_id (fingerprint_flags (cl_db s)) = [2, 3]"
    "\<not> flags_counted (cl_db s)"
    and idle: "map (\<lambda>n. Option.is_none (cl_txns s n)) [0, 1, 2, 3] = [True, True, True, True]"
    using shown_again_runs by auto
  note reach = played_reaches [OF s(1)]
  have "cl_txns s n = None" for n
    using reach(2) idle by (cases "n \<in> {0, 1, 2, 3}") (auto simp: Option.is_none_def)
  then have "cl_txns s = Map.empty" by (intro ext)
  then have "\<exists>s. concurrent_reachable False 2 tombstone_db s \<and> cl_txns s = Map.empty \<and> row_states s = [(Active, 0)]
      \<and> map flag_consumer_id (fingerprint_flags (cl_db s)) = [2, 3] \<and> \<not> flags_counted (cl_db s)"
    using reach(1) s(2-4) by (intro exI [of _ s]) simp
  then show ?thesis using tombstone_db_inv played_reaches(1) [OF h(1)] h(2) by blast
qed

end
