(* ===== verification/Spec2Isabelle.thy ===== *)
theory Spec2Isabelle
  imports Hub_Properties Sync_Properties Api_Properties Retention_Properties Crypto_Properties
    Runtime_Properties Migration_Properties Json_Properties Worker_Properties Log_Properties Concurrent_Properties
begin

text \<open>
  FingerprintHub: a shared registry of perceptual image hashes. Consumers (bots) contribute hashes
  over HTTP, report hits, flag and delete rows, and pull the rows of the others incrementally into a
  local replica. This development models the service's Python code (paths below are under
  \<^verbatim>\<open>src/\<close>) and proves what its parts promise and how they work together.

  \<^bold>\<open>How the program is put together.\<close> A request passes the error middleware and the
  authentication middleware (\<^verbatim>\<open>api/app.py\<close>, \<^verbatim>\<open>api/auth.py\<close>) and reaches a handler
  (\<^verbatim>\<open>api/fingerprints.py\<close>), which checks a scope, reads its arguments and calls one or two store
  functions (\<^verbatim>\<open>api/fingerprint_store.py\<close>, \<^verbatim>\<open>api/consumers_store.py\<close>). A store function is a few SQL
  statements in one transaction on the schema of \<^verbatim>\<open>alembic/versions/0001_init.py\<close>; private columns go
  through \<^verbatim>\<open>utils/field_encryption.py\<close>. Around it are the configuration (\<^verbatim>\<open>config.py\<close>,
  \<^verbatim>\<open>utils/config_access.py\<close>), the worker and connection pools (\<^verbatim>\<open>utils/async_utils.py\<close>,
  \<^verbatim>\<open>utils/postgres_utils.py\<close>), the process (\<^verbatim>\<open>main.py\<close>), the migrations (\<^verbatim>\<open>alembic/\<close>) and the operator's
  tools (\<^verbatim>\<open>tools/\<close>).

  \<^bold>\<open>Conventions.\<close> A function that may raise returns \<open>'a result = exn + 'a\<close>; one constructor of
  \<open>exn\<close> per exception that can leave a function. A function with an effect takes the database and
  returns it. \<open>str\<close> is a list of 8-bit characters read as code points 0 to 255, so texts beyond
  Latin-1 are outside the model; \<open>bytes\<close> are lists of 8-bit words; Python's \<open>int\<close> is \<open>int\<close>, and the
  ranges of SQL columns and of \<^verbatim>\<open>LIMIT\<close> are written out where a statement rejects a value. Random bytes,
  clocks, outages and what other requests do between two store calls are arguments.

  \<^bold>\<open>Theories.\<close>
  \<^item> \<open>Prelude\<close>, \<open>Py_Text\<close>, \<open>Base64\<close>, \<open>Json_Values\<close>, \<open>Sha256\<close>: the parts of Python and its library the
    source uses (exceptions, \<open>strip\<close>, \<open>split\<close>, \<open>int\<close>, UTF-8, the two regular expressions, Base64,
    JSON values with \<open>str\<close> and \<open>repr\<close>, SHA-256 on 32-bit words).
  \<^item> \<open>Field_Encryption\<close>: \<^verbatim>\<open>utils/field_encryption.py\<close>. AES-GCM is a parameter with its correctness as
    a named hypothesis. \<open>Json_Text\<close>: its JSON fields, over a model of the library functions they call, the
    text that \<^verbatim>\<open>json.dumps\<close> writes and the scanner of \<^verbatim>\<open>json.loads\<close>; what float a literal denotes is a parameter.
  \<^item> \<open>Database\<close>: tables, sequences, constraints (\<open>db\<close>, \<open>db_ok\<close>), transactions with rollback, and the
    statements; \<open>Fingerprint_Store\<close> and \<open>Consumers_Store\<close>: the store functions over them.
  \<^item> \<open>Service_Config\<close>, \<open>Postgres_Runtime\<close>: configuration, worker count, database URL (also the one of
    \<^verbatim>\<open>alembic/env.py\<close>), the pool manager as a state with the pools that are open, the schema check.
    \<open>Worker_Pool\<close>: \<^verbatim>\<open>run_blocking_io\<close> and the executor's size; what \<^verbatim>\<open>ThreadPoolExecutor\<close> then does with a call
    (waiting in order, running, ended) is a model of the library, not of a line of the source.
  \<^item> \<open>Auth\<close>, \<open>Handlers\<close>, \<open>Http_App\<close>: scopes, the rate limiter, the middlewares, one function per
    handler, the route table, serving one request, and the process from start to end. \<open>Process_Log\<close>
    and \<open>Error_Log\<close>: \<^verbatim>\<open>setup_logging\<close>, and serving with the error records of \<^verbatim>\<open>handle_errors\<close> and the
    error middleware.
  \<^item> \<open>Privacy_Migration\<close>: \<^verbatim>\<open>alembic/versions/0002_privacy_hardening.py\<close> on the rows; \<open>Schema_Migrations\<close>: the
    statements of \<^verbatim>\<open>0001_init.py\<close> on a catalogue of relations and their dependencies, both revisions as
    steps on a server, and \<^verbatim>\<open>alembic/env.py\<close> online and as a script; \<open>Operator_Tools\<close>: the three commands of \<^verbatim>\<open>tools/\<close> after argument parsing.
  \<^item> \<open>Store_Invariants\<close>, \<open>Store_Contracts\<close>: every statement keeps the constraints; the locales
    \<open>store_op\<close>, \<open>content_op\<close> and \<open>stats_op\<close> state what an operation promises the sync protocol, and
    each store function is interpreted in the strongest one it meets.
  \<^item> \<open>Hub_System\<close>: the hub as a transition system over all store functions and its invariant
    \<open>hub_inv\<close>; \<open>Row_Lifecycle\<close>: what a step may do to one row; \<open>Store_Outcomes\<close>: the result of each
    function when the database answers; \<open>Retention_Lemmas\<close>: the retention run;
    \<open>Hit_History\<close>: runs of the hub with a count of the hit records each id was ever given;
    \<open>Hub_Spec\<close>: an abstract catalogue of entries and what each store function does to it, exactly, on
    every outcome (locale \<open>forward_simulation\<close>); \<open>Request_Spec\<close>: what one request does to the catalogue, tied
    to the status of its answer (\<open>request_effect\<close>).
  \<^item> \<open>Sync_Feed\<close>, \<open>Replica_System\<close>: the client of \<^verbatim>\<open>docs/CLIENT_INTEGRATION.md\<close>: pages, the replica, the
    locale \<open>paged_feed\<close> interpreted by the store's \<open>sync\<close>, and sessions that interleave the hub's
    steps with a client's pulls; \<open>Concurrency\<close>: a contribution split at its commit.
  \<^item> \<open>Concurrent_Store\<close>: \<open>contribute\<close>, \<open>report_hit\<close>, \<open>flag\<close> and \<open>soft_delete\<close> statement by statement, with the
    row and key locks each statement waits for and takes, as transactions that run at the same time
    under \<^verbatim>\<open>READ COMMITTED\<close> (\<open>concurrent_step\<close>, which models PostgreSQL and not a line of the source). \<open>Concurrent_Invariant\<close>: what a transaction relies on at each
    point, and that no other one disturbs it; \<open>Concurrent_Runs\<close>: what a commit does, and the invariant of
    all interleavings; \<open>Concurrent_Progress\<close>: no deadlock; \<open>Concurrent_Schedules\<close>: concrete interleavings,
    played by an executable function.
  \<^item> \<open>Rate_Limit\<close>, \<open>Api_Lemmas\<close>, \<open>Api_Outcomes\<close>: the limiter against its specification, what an answer
    can reveal, and whole answers.
  \<^item> \<open>Samples\<close>: the concrete cipher, keyring, database and reachable states of the witnesses.
  \<^item> \<open>Hub_Properties\<close>, \<open>Sync_Properties\<close>, \<open>Api_Properties\<close>, \<open>Retention_Properties\<close>,
    \<open>Crypto_Properties\<close>, \<open>Json_Properties\<close>, \<open>Worker_Properties\<close>, \<open>Migration_Properties\<close>,
    \<open>Runtime_Properties\<close>, \<open>Log_Properties\<close>, \<open>Concurrent_Properties\<close>: the properties, each with a witness where it has hypotheses.

  \<^bold>\<open>What is shown.\<close> The store: every reachable database satisfies the schema's constraints, counts
  distinct flaggers and every hit record ever added exactly, hides what reached the threshold and holds private text only encrypted;
  peer-visible changes always take a fresh cursor; rows move only along their life cycle; each
  request changes the abstract catalogue exactly as its answer says. Transactions at the same time: executed without interruption the
  statements are the operations; interleaved in any way each transaction acts at one moment as the whole
  operation, the counts stay right and all of them end, as long as two contributions of one hash by one
  consumer do not overlap; when they do, flags can be lost. Sync: pages are exact, a replica is exact up to its cursor and complete
  when the hub pauses, and two cases in which a client misses a change until a later operation gives the
  row a fresh cursor. The interface: authentication,
  scopes, confidentiality of private columns, deletion rights, the limiter, validation, outages, and an error log
  that holds every failure and nothing else.
  Retention: the exact effect, what is guaranteed gone, truthful previews. Encryption: key material
  round trips, rotation; JSON fields that read back equal. Migrations: the service starts on what the upgrade leaves, from nothing and from a legacy
  database; the downgrade gives the plaintexts back, except that it fails on a NUL character; down to the base
  and up again is a fresh database. The process: starts only at the schema head, never two pools, none left
  open, tools that do what they print.

  \<^bold>\<open>Bounds and fuel.\<close> Two loops have no structural measure and run with fuel. The client's loop over
  pages: \<open>replica_catches_up\<close> shows that one round more than the hub has rows suffices. The scanner of
  JSON texts: it starts with twice the length of the text and one, and \<open>json_scan_terminates\<close> shows that
  this is never used up. The database's \<open>id\<close> sequences are unbounded integers (64-bit columns are not
  exhausted).

  \<^bold>\<open>Hypotheses on code outside the repository.\<close> \<open>aead_correct\<close> on AES-GCM
  (instantiated by \<open>sample_aead\<close>); \<open>float_sound\<close> and \<open>json_ok\<close>: reading the text \<open>repr\<close> writes for a float
  gives the float back (instantiated by \<open>sample_float\<close>); \<open>runs_upgrade_head\<close> and \<open>runs_downgrade_base\<close>:
  Alembic's loop applies the pending revisions in order and records them; \<open>plain_url\<close> and
  \<open>driver_neutral\<close>: the driver's name in a URL does not change the database it means. The
  connection-pool constructor may raise or not (a parameter); the parsers of bodies and queries and the
  choice of the matching route are aiohttp's and part of a request.

  \<^bold>\<open>Not modelled.\<close> Log records below \<^verbatim>\<open>ERROR\<close> and the text of a record; \<^verbatim>\<open>utc_now_ms\<close> and
  \<^verbatim>\<open>time.monotonic\<close> (arguments); the typed request keys of \<^verbatim>\<open>api/keys.py\<close>; \<^verbatim>\<open>argparse\<close>; the engine and
  the pooling of SQLAlchemy, column types and plain indexes; in the catalogue of the migrations, the
  relations that PostgreSQL makes by itself for primary keys, unique constraints and identity columns, so
  name clashes with those; the interpreter's recursion limit and \<^verbatim>\<open>\u\<close> escapes above 255 in JSON texts
  (lone surrogates, which \<^verbatim>\<open>json.loads\<close> accepts and UTF-8 cannot encode, among them); that a callable given to
  the worker pool may never end; the missing body of an answer to \<^verbatim>\<open>HEAD\<close>. Outside the \<open>Concurrent\<close> theories
  and \<open>Concurrency\<close> a transaction is one step and two requests interleave at store calls. The retention
  run, consumer creation and the touch of the last-seen time do not take part in the interleaving of
  statements; serialization failures, statement timeouts and the locks that foreign keys take on
  consumers, which nothing deletes, are left out there.
\<close>

end
